(* ===== verification/Prelude.thy ===== *)
theory Prelude
  imports "HOL-Library.Char_ord" "HOL-Library.List_Lexorder" "HOL-Library.Multiset"
    "HOL-Library.Word"
begin

text \<open>
  Shared vocabulary of the development: C++ exceptions as values, the two ways a
  \<^verbatim>\<open>std::vector\<close> is indexed, and the associative containers \<^verbatim>\<open>std::map\<close> and
  \<^verbatim>\<open>std::unordered_map\<close> as association lists behind one interface (locale \<open>finite_map\<close>).
\<close>

named_theorems result_simps \<open>unfolding of the error monad\<close>

section \<open>Results\<close>

text \<open>
  Two values are not exceptions. \<open>Undefined_behaviour\<close> marks a step for which the C++ standard
  gives no meaning (an index out of range with \<^verbatim>\<open>operator[]\<close>, a dereferenced empty
  \<^verbatim>\<open>std::optional\<close>), \<open>Diverges\<close> a loop that does not end. The theorems show where neither
  can be reached.
\<close>

datatype exn =
    Out_of_range
  | Logic_error string
  | Invalid_argument string
  | Domain_error string
  | Parsing_error string
  | Undefined_behaviour
  | Diverges

type_synonym 'a result = "exn + 'a"

definition bindR :: "'a result \<Rightarrow> ('a \<Rightarrow> 'b result) \<Rightarrow> 'b result" where
  "bindR m f = (case m of Inl e \<Rightarrow> Inl e | Inr x \<Rightarrow> f x)"

lemma bindR_Inl [simp, result_simps]: "bindR (Inl e) f = Inl e"
  by (simp add: bindR_def)

lemma bindR_Inr [simp, result_simps]: "bindR (Inr x) f = f x"
  by (simp add: bindR_def)

lemma bindR_eq_Inr: "bindR m f = Inr y \<longleftrightarrow> (\<exists>x. m = Inr x \<and> f x = Inr y)"
  by (cases m) auto

lemma bindR_eq_InrE:
  assumes "bindR m f = Inr y"
  obtains x where "m = Inr x" and "f x = Inr y"
  using assms by (auto simp: bindR_eq_Inr)

lemma bindR_cong [fundef_cong]:
  "m = m' \<Longrightarrow> (\<And>x. m' = Inr x \<Longrightarrow> f x = g x) \<Longrightarrow> bindR m f = bindR m' g"
  by (cases m') auto

lemma bindR_eq_Inl: "bindR m f = Inl e \<longleftrightarrow> m = Inl e \<or> (\<exists>x. m = Inr x \<and> f x = Inl e)"
  by (cases m) auto

lemma bindR_return [simp]: "bindR m Inr = m"
  by (cases m) auto

lemma bindR_assoc: "bindR (bindR m f) g = bindR m (\<lambda>x. bindR (f x) g)"
  by (cases m) auto

text \<open>The result of a loop that may not end, given as an option.\<close>

definition returned :: "'a result option \<Rightarrow> 'a result" where
  "returned r = (case r of None \<Rightarrow> Inl Diverges | Some x \<Rightarrow> x)"

lemma returned_Some [simp]: "returned (Some x) = x"
  by (simp add: returned_def)

text \<open>A loop over a container that may throw: the first exception stops it.\<close>

fun foldR :: "('s \<Rightarrow> 'a \<Rightarrow> 's result) \<Rightarrow> 's \<Rightarrow> 'a list \<Rightarrow> 's result" where
  "foldR f s [] = Inr s"
| "foldR f s (x # xs) = bindR (f s x) (\<lambda>s'. foldR f s' xs)"

fun mapR :: "('a \<Rightarrow> 'b result) \<Rightarrow> 'a list \<Rightarrow> 'b list result" where
  "mapR f [] = Inr []"
| "mapR f (x # xs) = bindR (f x) (\<lambda>y. bindR (mapR f xs) (\<lambda>ys. Inr (y # ys)))"

lemma foldR_append: "foldR f s (xs @ ys) = bindR (foldR f s xs) (\<lambda>s'. foldR f s' ys)"
  by (induction xs arbitrary: s) (auto simp: bindR_assoc)

lemma foldR_map: "foldR f s (map g xs) = foldR (\<lambda>s x. f s (g x)) s xs"
  by (induction xs arbitrary: s) simp_all

lemma foldR_pure: "foldR (\<lambda>s x. Inr (f s x)) s xs = Inr (foldl f s xs)"
  by (induction xs arbitrary: s) auto

lemma foldR_Inr_eq_foldl:
  assumes "\<And>s x. P s \<Longrightarrow> x \<in> set xs \<Longrightarrow> f s x = Inr (g s x) \<and> P (g s x)" and "P s"
  shows "foldR f s xs = Inr (foldl g s xs) \<and> P (foldl g s xs)"
  using assms by (induction xs arbitrary: s) auto

text \<open>The loop rule: an invariant every iteration keeps, and that rules out exceptions.\<close>

lemma foldR_inv:
  assumes "P s" and "\<And>s x. P s \<Longrightarrow> x \<in> set xs \<Longrightarrow> \<exists>s'. f s x = Inr s' \<and> P s'"
  shows "\<exists>s'. foldR f s xs = Inr s' \<and> P s'"
  using assms
proof (induction xs arbitrary: s)
  case Nil
  then show ?case by simp
next
  case (Cons x xs)
  then obtain s' where "f s x = Inr s'" and "P s'" by fastforce
  with Cons.IH [of s'] Cons.prems show ?case by simp
qed

lemma foldR_prefix:
  assumes "P [] s"
    and "\<And>ys x zs s. xs = ys @ x # zs \<Longrightarrow> P ys s \<Longrightarrow> \<exists>s'. f s x = Inr s' \<and> P (ys @ [x]) s'"
  shows "\<exists>s'. foldR f s xs = Inr s' \<and> P xs s'"
proof -
  have "xs = ys @ zs \<Longrightarrow> \<exists>s'. foldR f s ys = Inr s' \<and> P ys s'" for ys zs
  proof (induction ys arbitrary: zs rule: rev_induct)
    case Nil
    then show ?case using assms(1) by simp
  next
    case (snoc x ys)
    then obtain s' where "foldR f s ys = Inr s'" "P ys s'" by auto
    moreover obtain s'' where "f s' x = Inr s''" "P (ys @ [x]) s''"
      using assms(2) [of ys x zs s'] snoc.prems \<open>P ys s'\<close> by auto
    ultimately show ?case by (simp add: foldR_append)
  qed
  then show ?thesis by simp
qed

lemma foldR_upt:
  assumes "P 0 s" and "\<And>m s. m < n \<Longrightarrow> P m s \<Longrightarrow> \<exists>s'. f s m = Inr s' \<and> P (Suc m) s'"
  shows "\<exists>s'. foldR f s [0..<n] = Inr s' \<and> P n s'"
proof -
  have "m \<le> n \<Longrightarrow> \<exists>s'. foldR f s [0..<m] = Inr s' \<and> P m s'" for m
  proof (induction m)
    case 0
    then show ?case using assms(1) by simp
  next
    case (Suc m)
    then obtain s' where "foldR f s [0..<m] = Inr s'" "P m s'" by auto
    moreover obtain s'' where "f s' m = Inr s''" "P (Suc m) s''"
      using assms(2) [of m s'] Suc.prems \<open>P m s'\<close> by auto
    ultimately show ?case by (simp add: foldR_append)
  qed
  then show ?thesis by simp
qed

lemma foldR_inv_Inr:
  assumes "foldR f s xs = Inr s'" and "P s"
    and "\<And>s x s'. P s \<Longrightarrow> x \<in> set xs \<Longrightarrow> f s x = Inr s' \<Longrightarrow> P s'"
  shows "P s'"
  using assms
proof (induction xs arbitrary: s)
  case Nil
  then show ?case by simp
next
  case (Cons x xs)
  from Cons.prems(1) obtain t where "f s x = Inr t" and "foldR f t xs = Inr s'"
    by (auto simp: bindR_eq_Inr)
  moreover have "P t" using Cons.prems(3) [of s x t] Cons.prems(2) \<open>f s x = Inr t\<close> by simp
  ultimately show ?case using Cons.prems(3) by (intro Cons.IH [of t]) auto
qed

text \<open>A loop whose iterations fail with \<open>e\<close> exactly on the elements \<open>bad\<close>.\<close>

lemma foldR_fail:
  assumes "P s"
    and "\<And>s x. P s \<Longrightarrow> x \<in> set xs \<Longrightarrow> if bad x then f s x = Inl e else \<exists>s'. f s x = Inr s' \<and> P s'"
  shows "if \<exists>x \<in> set xs. bad x then foldR f s xs = Inl e else \<exists>s'. foldR f s xs = Inr s' \<and> P s'"
  using assms
proof (induction xs arbitrary: s)
  case Nil
  then show ?case by simp
next
  case (Cons x xs)
  show ?case
  proof (cases "bad x")
    case True
    then show ?thesis using Cons.prems(1) Cons.prems(2) [of s x] by simp
  next
    case False
    then obtain s' where s': "f s x = Inr s'" "P s'" using Cons.prems(1) Cons.prems(2) [of s x] by auto
    have "if \<exists>x \<in> set xs. bad x then foldR f s' xs = Inl e else \<exists>s''. foldR f s' xs = Inr s'' \<and> P s''"
      using Cons.prems(2) by (intro Cons.IH s'(2)) simp
    then show ?thesis using False s' by (auto split: if_splits)
  qed
qed

lemma mapR_Inr_iff: "mapR f xs = Inr ys \<longleftrightarrow> list_all2 (\<lambda>x y. f x = Inr y) xs ys"
  by (induction xs arbitrary: ys) (auto simp: bindR_eq_Inr list_all2_Cons1)

lemma mapR_pure: "(\<And>x. x \<in> set xs \<Longrightarrow> f x = Inr (g x)) \<Longrightarrow> mapR f xs = Inr (map g xs)"
  by (induction xs) auto

section \<open>Indexing\<close>

text \<open>
  \<^verbatim>\<open>v.at(i)\<close> throws \<^verbatim>\<open>std::out_of_range\<close>; \<^verbatim>\<open>v[i]\<close> out of range is undefined.
\<close>

definition vec_at :: "'a list \<Rightarrow> nat \<Rightarrow> 'a result" where
  "vec_at v i = (if i < length v then Inr (v ! i) else Inl Out_of_range)"

definition vec_idx :: "'a list \<Rightarrow> nat \<Rightarrow> 'a result" where
  "vec_idx v i = (if i < length v then Inr (v ! i) else Inl Undefined_behaviour)"

lemma vec_at_in [simp]: "i < length v \<Longrightarrow> vec_at v i = Inr (v ! i)"
  by (simp add: vec_at_def)

lemma vec_idx_in [simp]: "i < length v \<Longrightarrow> vec_idx v i = Inr (v ! i)"
  by (simp add: vec_idx_def)

text \<open>\<^verbatim>\<open>m.at(k)\<close> of the associative containers throws \<^verbatim>\<open>std::out_of_range\<close>.\<close>

definition map_at :: "('k \<rightharpoonup> 'v) \<Rightarrow> 'k \<Rightarrow> 'v result" where
  "map_at m k = (case m k of None \<Rightarrow> Inl Out_of_range | Some v \<Rightarrow> Inr v)"

lemma map_at_Some [simp]: "m k = Some v \<Longrightarrow> map_at m k = Inr v"
  by (simp add: map_at_def)

lemma map_at_None [simp]: "m k = None \<Longrightarrow> map_at m k = Inl Out_of_range"
  by (simp add: map_at_def)

lemma map_at_eq_Inr: "map_at m k = Inr v \<longleftrightarrow> m k = Some v"
  by (simp add: map_at_def split: option.splits)

section \<open>Messages\<close>

text \<open>
  The interface of a pair of conversions to and from a message's field: decoding gives back every
  valid value. Lists, tables and unordered collections of such fields then come back, too.
\<close>

locale codec =
  fixes encode :: "'a \<Rightarrow> 'b"
    and decode :: "'b \<Rightarrow> 'a"
    and valid :: "'a \<Rightarrow> bool"
  assumes decode_encode: "valid x \<Longrightarrow> decode (encode x) = x"
begin

lemma decode_map: "\<forall>x \<in> set xs. valid x \<Longrightarrow> map decode (map encode xs) = xs"
  by (induction xs) (simp_all add: decode_encode)

lemma decode_maps: "\<forall>xs \<in> set xss. \<forall>x \<in> set xs. valid x \<Longrightarrow> map (map decode) (map (map encode) xss) = xss"
  using decode_map by (induction xss) simp_all

lemma decode_option: "pred_option valid x \<Longrightarrow> map_option decode (map_option encode x) = x"
  by (cases x) (simp_all add: decode_encode)

lemma encode_inj: "valid x \<Longrightarrow> valid y \<Longrightarrow> encode x = encode y \<Longrightarrow> x = y"
  using decode_encode by metis

lemma decode_mset:
  assumes "\<forall>x \<in> set xs. valid x" and "mset ys = mset (map encode xs)"
  shows "mset (map decode ys) = mset xs"
proof -
  have "mset (map decode ys) = image_mset decode (mset ys)" by simp
  also have "\<dots> = image_mset decode (mset (map encode xs))" by (simp only: assms(2))
  also have "\<dots> = mset (map decode (map encode xs))" by (simp only: mset_map)
  finally show ?thesis by (simp only: decode_map [OF assms(1)])
qed

end

section \<open>Associative containers\<close>

text \<open>
  The interface the code uses of both containers. \<open>put\<close> is \<^verbatim>\<open>m[k] = v\<close>; \<open>emplace\<close> is
  \<^verbatim>\<open>m.emplace(k, v)\<close> or \<^verbatim>\<open>m.insert({k, v})\<close>, which keeps the value already there.
\<close>

locale finite_map =
  fixes lookup :: "'m \<Rightarrow> 'k \<Rightarrow> 'v option"
    and put :: "'k \<Rightarrow> 'v \<Rightarrow> 'm \<Rightarrow> 'm"
    and emplace :: "'k \<Rightarrow> 'v \<Rightarrow> 'm \<Rightarrow> 'm"
    and emp :: "'m"
    and ok :: "'m \<Rightarrow> bool"
  assumes ok_emp: "ok emp"
    and ok_put: "ok m \<Longrightarrow> ok (put k v m)"
    and ok_emplace: "ok m \<Longrightarrow> ok (emplace k v m)"
    and lookup_emp: "lookup emp k = None"
    and lookup_put: "ok m \<Longrightarrow> lookup (put k v m) = (lookup m)(k \<mapsto> v)"
    and lookup_emplace: "ok m \<Longrightarrow> lookup (emplace k v m) =
      (case lookup m k of None \<Rightarrow> (lookup m)(k \<mapsto> v) | Some _ \<Rightarrow> lookup m)"
begin

lemma ok_emplace_all: "ok m \<Longrightarrow> ok (foldl (\<lambda>m (k, v). emplace k v m) m ps)"
  by (induction ps arbitrary: m) (auto intro: ok_emplace)

lemma ok_put_all: "ok m \<Longrightarrow> ok (foldl (\<lambda>m (k, v). put k v m) m ps)"
  by (induction ps arbitrary: m) (auto intro: ok_put)

text \<open>Emplacing a list: what was there stays, and the first entry of each key wins.\<close>

lemma lookup_emplace_all:
  "ok m \<Longrightarrow> lookup (foldl (\<lambda>m (k, v). emplace k v m) m ps) = map_of ps ++ lookup m"
proof (induction ps arbitrary: m)
  case Nil
  then show ?case by simp
next
  case (Cons p ps)
  obtain k v where p: "p = (k, v)" by (cases p)
  have "map_of ps ++ lookup (emplace k v m) = map_of (p # ps) ++ lookup m"
    using Cons.prems by (auto simp: p fun_eq_iff map_add_def lookup_emplace split: option.splits)
  moreover have "lookup (foldl (\<lambda>m (k, v). emplace k v m) m (p # ps)) =
      map_of ps ++ lookup (emplace k v m)"
    using Cons.IH [of "emplace k v m"] Cons.prems by (simp add: p ok_emplace)
  ultimately show ?case by (simp only:)
qed

text \<open>Assigning a list of entries with distinct keys stores all of them.\<close>

lemma lookup_put_all:
  "ok m \<Longrightarrow> distinct (map fst ps) \<Longrightarrow>
     lookup (foldl (\<lambda>m (k, v). put k v m) m ps) = lookup m ++ map_of ps"
proof (induction ps arbitrary: m)
  case Nil
  then show ?case by simp
next
  case (Cons p ps)
  obtain k v where p: "p = (k, v)" by (cases p)
  have "map_of ps k = None" using Cons.prems p by (auto simp: map_of_eq_None_iff)
  then have "lookup (put k v m) ++ map_of ps = lookup m ++ map_of (p # ps)"
    using Cons.prems by (auto simp: fun_eq_iff map_add_def lookup_put p split: option.splits)
  moreover have "lookup (foldl (\<lambda>m (k, v). put k v m) m (p # ps)) =
      lookup (put k v m) ++ map_of ps"
    using Cons.IH [of "put k v m"] Cons.prems by (simp add: p ok_put)
  ultimately show ?case by (simp only:)
qed

end

subsection \<open>std::map: sorted by key\<close>

type_synonym ('k, 'v) smap = "('k \<times> 'v) list"

fun sm_put :: "'k::linorder \<Rightarrow> 'v \<Rightarrow> ('k, 'v) smap \<Rightarrow> ('k, 'v) smap" where
  "sm_put k v [] = [(k, v)]"
| "sm_put k v ((a, b) # ps) =
     (if k < a then (k, v) # (a, b) # ps
      else if k = a then (a, v) # ps
      else (a, b) # sm_put k v ps)"

fun sm_emplace :: "'k::linorder \<Rightarrow> 'v \<Rightarrow> ('k, 'v) smap \<Rightarrow> ('k, 'v) smap" where
  "sm_emplace k v [] = [(k, v)]"
| "sm_emplace k v ((a, b) # ps) =
     (if k < a then (k, v) # (a, b) # ps
      else if k = a then (a, b) # ps
      else (a, b) # sm_emplace k v ps)"

definition sm_ok :: "('k::linorder, 'v) smap \<Rightarrow> bool" where
  "sm_ok ps \<longleftrightarrow> sorted_wrt (<) (map fst ps)"

lemma sm_ok_Nil [simp]: "sm_ok []"
  by (simp add: sm_ok_def)

lemma sm_ok_Cons: "sm_ok (p # ps) \<longleftrightarrow> (\<forall>q \<in> set ps. fst p < fst q) \<and> sm_ok ps"
  by (simp add: sm_ok_def)

lemma sm_ok_distinct: "sm_ok ps \<Longrightarrow> distinct (map fst ps)"
  by (auto simp: sm_ok_def strict_sorted_iff)

lemma keys_sm_put: "fst ` set (sm_put k v ps) = insert k (fst ` set ps)"
  by (induction k v ps rule: sm_put.induct) auto

lemma keys_sm_emplace: "fst ` set (sm_emplace k v ps) = insert k (fst ` set ps)"
  by (induction k v ps rule: sm_emplace.induct) auto

lemma sm_ok_Cons_keys: "sm_ok (p # ps) \<longleftrightarrow> (\<forall>a \<in> fst ` set ps. fst p < a) \<and> sm_ok ps"
  by (auto simp: sm_ok_Cons)

lemma sm_ok_put: "sm_ok ps \<Longrightarrow> sm_ok (sm_put k v ps)"
  by (induction k v ps rule: sm_put.induct) (auto simp: sm_ok_Cons_keys keys_sm_put)

lemma sm_ok_emplace: "sm_ok ps \<Longrightarrow> sm_ok (sm_emplace k v ps)"
  by (induction k v ps rule: sm_emplace.induct) (auto simp: sm_ok_Cons_keys keys_sm_emplace)

lemma map_of_sm_below: "\<forall>(a::'k::linorder) \<in> fst ` set ps. k < a \<Longrightarrow> map_of ps k = None"
  by (force simp: map_of_eq_None_iff)

lemma map_of_sm_put: "sm_ok ps \<Longrightarrow> map_of (sm_put k v ps) = (map_of ps)(k \<mapsto> v)"
  by (induction k v ps rule: sm_put.induct) (auto simp: sm_ok_Cons_keys fun_eq_iff)

lemma map_of_sm_emplace:
  "sm_ok ps \<Longrightarrow> map_of (sm_emplace k v ps) =
     (case map_of ps k of None \<Rightarrow> (map_of ps)(k \<mapsto> v) | Some _ \<Rightarrow> map_of ps)"
proof (induction k v ps rule: sm_emplace.induct)
  case (1 k v)
  then show ?case by simp
next
  case (2 k v a b ps)
  then show ?case
    using map_of_sm_below [of ps k]
    by (fastforce simp: sm_ok_Cons_keys fun_eq_iff split: option.splits)
qed

interpretation sm: finite_map map_of sm_put sm_emplace "[]" sm_ok
  by unfold_locales (auto simp: sm_ok_put sm_ok_emplace map_of_sm_put map_of_sm_emplace)

text \<open>A new largest key goes to the end: how a sorted input is read back unchanged.\<close>

lemma sm_emplace_last:
  "sm_ok ps \<Longrightarrow> \<forall>a \<in> fst ` set ps. a < k \<Longrightarrow> sm_emplace k v ps = ps @ [(k, v)]"
  by (induction k v ps rule: sm_emplace.induct) (auto simp: sm_ok_Cons_keys)

subsection \<open>std::unordered_map: distinct keys\<close>

text \<open>
  An unordered map is an association list in insertion order with distinct keys. The order in
  which the code iterates over one is not specified by the standard; where the code iterates, the
  model takes the order as a parameter.
\<close>

type_synonym ('k, 'v) umap = "('k \<times> 'v) list"

fun um_put :: "'k \<Rightarrow> 'v \<Rightarrow> ('k, 'v) umap \<Rightarrow> ('k, 'v) umap" where
  "um_put k v [] = [(k, v)]"
| "um_put k v ((a, b) # ps) = (if k = a then (a, v) # ps else (a, b) # um_put k v ps)"

fun um_emplace :: "'k \<Rightarrow> 'v \<Rightarrow> ('k, 'v) umap \<Rightarrow> ('k, 'v) umap" where
  "um_emplace k v [] = [(k, v)]"
| "um_emplace k v ((a, b) # ps) = (if k = a then (a, b) # ps else (a, b) # um_emplace k v ps)"

definition um_ok :: "('k, 'v) umap \<Rightarrow> bool" where
  "um_ok ps \<longleftrightarrow> distinct (map fst ps)"

lemma keys_um_put: "fst ` set (um_put k v ps) = insert k (fst ` set ps)"
  by (induction k v ps rule: um_put.induct) auto

lemma keys_um_emplace: "fst ` set (um_emplace k v ps) = insert k (fst ` set ps)"
  by (induction k v ps rule: um_emplace.induct) auto

lemma um_ok_Cons: "um_ok (p # ps) \<longleftrightarrow> fst p \<notin> fst ` set ps \<and> um_ok ps"
  by (auto simp: um_ok_def)

lemma um_ok_Nil [simp]: "um_ok []"
  by (simp add: um_ok_def)

lemma um_ok_put: "um_ok ps \<Longrightarrow> um_ok (um_put k v ps)"
  by (induction k v ps rule: um_put.induct) (auto simp: um_ok_Cons keys_um_put)

lemma um_ok_emplace: "um_ok ps \<Longrightarrow> um_ok (um_emplace k v ps)"
  by (induction k v ps rule: um_emplace.induct) (auto simp: um_ok_Cons keys_um_emplace)

lemma map_of_um_put: "map_of (um_put k v ps) = (map_of ps)(k \<mapsto> v)"
  by (induction k v ps rule: um_put.induct) (auto simp: fun_eq_iff)

lemma map_of_um_emplace:
  "map_of (um_emplace k v ps) =
     (case map_of ps k of None \<Rightarrow> (map_of ps)(k \<mapsto> v) | Some _ \<Rightarrow> map_of ps)"
  by (induction k v ps rule: um_emplace.induct) (auto simp: fun_eq_iff split: option.splits)

interpretation um: finite_map map_of um_put um_emplace "[]" um_ok
  by unfold_locales (auto simp: um_ok_put um_ok_emplace map_of_um_put map_of_um_emplace)

text \<open>A new key goes to the end.\<close>

lemma um_emplace_last: "k \<notin> fst ` set ps \<Longrightarrow> um_emplace k v ps = ps @ [(k, v)]"
  by (induction k v ps rule: um_emplace.induct) auto

lemma um_put_last: "k \<notin> fst ` set ps \<Longrightarrow> um_put k v ps = ps @ [(k, v)]"
  by (induction k v ps rule: um_put.induct) auto

text \<open>The content of an unordered map does not depend on the iteration order.\<close>

lemma um_ok_reorder: "um_ok ps \<Longrightarrow> mset qs = mset ps \<Longrightarrow> um_ok qs"
  by (metis mset_eq_imp_distinct_iff mset_map um_ok_def)

lemma map_of_reorder:
  assumes "um_ok ps" and "mset qs = mset ps"
  shows "map_of qs = map_of ps"
  using assms um_ok_reorder [OF assms] map_of_inject_set [of qs ps]
  by (metis mset_eq_setD um_ok_def)

end
