(* ===== verification/Ranges.thy ===== *)
theory Ranges
  imports Prelude
begin

text \<open>
  \<^verbatim>\<open>ranges.h\<close>: a pair of iterators. An iterator into a vector is the vector and a position in it;
  the two iterators of a range point into the same vector. \<open>range_elems\<close> is what the range-based
  \<^verbatim>\<open>for\<close> visits: the loop ends when the iterator equals the end of the range.
\<close>

type_synonym 'a iterator = "'a list \<times> nat"

record 'a range =
  range_begin :: "'a iterator"
  range_end :: "'a iterator"

definition range_new :: "'a iterator \<Rightarrow> 'a iterator \<Rightarrow> 'a range" where
  "range_new b e = \<lparr>range_begin = b, range_end = e\<rparr>"

definition as_range :: "'a list \<Rightarrow> 'a range" where
  "as_range container = range_new (container, 0) (container, length container)"

function range_from :: "'a iterator \<Rightarrow> nat \<Rightarrow> 'a list" where
  "range_from (c, i) e = (if i < e then c ! i # range_from (c, Suc i) e else [])"
  by pat_completeness auto
termination by (relation "measure (\<lambda>((c, i), e). e - i)") auto

declare range_from.simps [simp del]

definition range_elems :: "'a range \<Rightarrow> 'a list" where
  "range_elems r = range_from (range_begin r) (snd (range_end r))"

lemma range_from_drop: "e \<le> length c \<Longrightarrow> range_from (c, i) e = drop i (take e c)"
proof (induction "(c, i)" e arbitrary: i rule: range_from.induct)
  case (1 i e)
  show ?case
  proof (cases "i < e")
    case True
    then have "drop i (take e c) = take e c ! i # drop (Suc i) (take e c)"
      using 1(2) by (intro Cons_nth_drop_Suc [symmetric]) simp
    then show ?thesis using 1 True by (subst range_from.simps) simp
  qed (simp add: range_from.simps)
qed

lemma range_elems_as_range [simp]: "range_elems (as_range xs) = xs"
  by (simp add: range_elems_def as_range_def range_new_def range_from_drop)

end
