(* ===== verification/Graph.thy ===== *)
theory Graph
  imports Ranges
begin

text \<open>
  \<^verbatim>\<open>graph.h\<close>: the directed weighted graph, an edge vector and one incidence list per vertex.
  Vertex and edge ids are \<^verbatim>\<open>size_t\<close>; a vector of \<open>2^64\<close> elements does not fit into memory, so
  they are natural numbers. \<open>graph_wf\<close> is the invariant \<^verbatim>\<open>AddEdge\<close> keeps: the incidence list of a
  vertex is exactly the list of ids of its outgoing edges, in the order they were added.
\<close>

record 'w edge =
  edge_from :: nat
  edge_to :: nat
  edge_weight :: 'w

record 'w graph =
  edges :: "'w edge list"
  incidence_lists :: "nat list list"

definition graph_default :: "'w graph" where
  "graph_default = \<lparr>edges = [], incidence_lists = []\<rparr>"

definition graph_of_lists :: "'w edge list \<Rightarrow> nat list list \<Rightarrow> 'w graph" where
  "graph_of_lists es ils = \<lparr>edges = es, incidence_lists = ils\<rparr>"

definition graph_new :: "nat \<Rightarrow> 'w graph" where
  "graph_new vertex_count = \<lparr>edges = [], incidence_lists = replicate vertex_count []\<rparr>"

definition get_vertex_count :: "'w graph \<Rightarrow> nat" where
  "get_vertex_count g = length (incidence_lists g)"

definition get_edge_count :: "'w graph \<Rightarrow> nat" where
  "get_edge_count g = length (edges g)"

definition get_edge :: "'w graph \<Rightarrow> nat \<Rightarrow> 'w edge result" where
  "get_edge g edge_id = vec_at (edges g) edge_id"

definition get_incident_edges :: "'w graph \<Rightarrow> nat \<Rightarrow> nat range result" where
  "get_incident_edges g vertex = bindR (vec_at (incidence_lists g) vertex) (\<lambda>l. Inr (as_range l))"

definition add_edge :: "'w graph \<Rightarrow> 'w edge \<Rightarrow> ('w graph \<times> nat) result" where
  "add_edge g e =
     (let es = edges g @ [e]; eid = length es - 1
      in bindR (vec_at (incidence_lists g) (edge_from e)) (\<lambda>l.
           Inr (g\<lparr>edges := es,
                  incidence_lists := (incidence_lists g)[edge_from e := l @ [eid]]\<rparr>, eid)))"

section \<open>The incidence invariant\<close>

definition outgoing :: "'w graph \<Rightarrow> nat \<Rightarrow> nat list" where
  "outgoing g v = filter (\<lambda>eid. edge_from (edges g ! eid) = v) [0..<length (edges g)]"

definition graph_wf :: "'w graph \<Rightarrow> bool" where
  "graph_wf g \<longleftrightarrow>
     (\<forall>e \<in> set (edges g). edge_from e < get_vertex_count g \<and> edge_to e < get_vertex_count g) \<and>
     (\<forall>v < get_vertex_count g. incidence_lists g ! v = outgoing g v)"

lemma graph_wf_new [simp]: "graph_wf (graph_new n)"
  by (simp add: graph_wf_def graph_new_def outgoing_def get_vertex_count_def)

lemma add_edge_throws:
  "get_vertex_count g \<le> edge_from e \<Longrightarrow> add_edge g e = Inl Out_of_range"
  by (simp add: add_edge_def vec_at_def get_vertex_count_def)

lemma add_edge_Inr:
  assumes "edge_from e < get_vertex_count g"
  shows "add_edge g e = Inr (g\<lparr>edges := edges g @ [e],
     incidence_lists := (incidence_lists g)[edge_from e :=
       incidence_lists g ! edge_from e @ [get_edge_count g]]\<rparr>, get_edge_count g)"
  using assms by (simp add: add_edge_def get_vertex_count_def get_edge_count_def Let_def)

lemma outgoing_snoc:
  assumes "edges g' = edges g @ [e]"
  shows "outgoing g' v = outgoing g v @ (if edge_from e = v then [get_edge_count g] else [])"
proof -
  have "filter (\<lambda>eid. edge_from ((edges g @ [e]) ! eid) = v) [0..<length (edges g)] = outgoing g v"
    unfolding outgoing_def by (rule filter_cong) (auto simp: nth_append)
  then show ?thesis using assms by (simp add: outgoing_def get_edge_count_def)
qed

lemma add_edge_wf:
  assumes "graph_wf g" and "edge_to e < get_vertex_count g" and "add_edge g e = Inr (g', eid)"
  shows "graph_wf g' \<and> get_vertex_count g' = get_vertex_count g"
proof -
  have lt: "edge_from e < get_vertex_count g"
    using assms(3) add_edge_throws by (metis not_less sum.distinct(1))
  then have g': "edges g' = edges g @ [e]"
    "incidence_lists g' = (incidence_lists g)[edge_from e :=
       incidence_lists g ! edge_from e @ [get_edge_count g]]"
    using assms(3) by (auto simp: add_edge_Inr)
  then have "incidence_lists g' ! v = outgoing g' v" if "v < get_vertex_count g" for v
    using that assms(1) by (auto simp: graph_wf_def outgoing_snoc [OF g'(1)] nth_list_update
        get_vertex_count_def)
  with g' lt assms(1,2) show ?thesis by (auto simp: graph_wf_def get_vertex_count_def)
qed

lemma add_edge_count:
  "add_edge g e = Inr (g', eid) \<Longrightarrow> eid = get_edge_count g \<and> edges g' = edges g @ [e]"
  by (auto simp: add_edge_def get_edge_count_def Let_def bindR_eq_Inr)

lemma graph_wf_edge:
  assumes "graph_wf g" and "eid < length (edges g)"
  shows "edge_from (edges g ! eid) < get_vertex_count g"
    and "edge_to (edges g ! eid) < get_vertex_count g"
  using assms by (auto simp: graph_wf_def)

lemma set_outgoing: "eid \<in> set (outgoing g v) \<longleftrightarrow> eid < length (edges g) \<and> edge_from (edges g ! eid) = v"
  by (auto simp: outgoing_def)

section \<open>Paths\<close>

text \<open>A list of edge ids that leads from \<open>u\<close> to \<open>v\<close>, and its weight.\<close>

fun path :: "'w graph \<Rightarrow> nat \<Rightarrow> nat list \<Rightarrow> nat \<Rightarrow> bool" where
  "path g u [] v \<longleftrightarrow> u = v"
| "path g u (eid # ids) v \<longleftrightarrow> eid < length (edges g) \<and> edge_from (edges g ! eid) = u \<and>
     path g (edge_to (edges g ! eid)) ids v"

fun path_weight :: "('w::{zero, plus}) graph \<Rightarrow> nat list \<Rightarrow> 'w" where
  "path_weight g [] = 0"
| "path_weight g (eid # ids) = edge_weight (edges g ! eid) + path_weight g ids"

lemma path_append: "path g u (xs @ ys) v \<longleftrightarrow> (\<exists>m. path g u xs m \<and> path g m ys v)"
  by (induction xs arbitrary: u) auto

lemma path_weight_append:
  "path_weight g (xs @ ys) = path_weight g xs + (path_weight g ys :: 'w::comm_monoid_add)"
  by (induction xs) (auto simp: add.assoc)

lemma path_end:
  "path g u ids v \<Longrightarrow> graph_wf g \<Longrightarrow> u < get_vertex_count g \<Longrightarrow> v < get_vertex_count g"
  by (induction ids arbitrary: u) (auto simp: graph_wf_edge)

end
