(* ===== verification/Weight.thy ===== *)
theory Weight
  imports Prelude
begin

text \<open>
  The contract of the template parameter \<open>Weight\<close> of \<^verbatim>\<open>graph.h\<close> and \<^verbatim>\<open>router.h\<close>. The code
  uses three things of a weight: \<^verbatim>\<open>Weight{}\<close>, \<open>+\<close> and \<open><\<close>. The locale states the laws on the
  values \<open>ok\<close> accepts: \<open><\<close> is a strict weak order with least element \<open>0\<close>, addition is
  monotone, and \<open>0\<close> is neutral up to the order. Associativity is not among them, because
  rounded addition of doubles does not have it. \<^verbatim>\<open>Ieee_Laws\<close> interprets the locale for
  \<open>double\<close>; exact weights (any linearly ordered cancellative monoid) are interpreted here.
\<close>

text \<open>\<open>wle a b\<close>: the code's test \<open>b < a\<close> fails.\<close>

definition wle :: "'w::ord \<Rightarrow> 'w \<Rightarrow> bool" where
  "wle a b \<longleftrightarrow> \<not> b < a"

locale weight_laws =
  fixes ok :: "'w::{zero, plus, ord} \<Rightarrow> bool"
  assumes ok_zero: "ok 0"
    and ok_plus: "ok a \<Longrightarrow> ok b \<Longrightarrow> ok (a + b)"
    and zero_least: "ok a \<Longrightarrow> wle 0 a"
    and less_imp_wle: "ok a \<Longrightarrow> ok b \<Longrightarrow> a < b \<Longrightarrow> wle a b"
    and wle_trans: "ok a \<Longrightarrow> ok b \<Longrightarrow> ok c \<Longrightarrow> wle a b \<Longrightarrow> wle b c \<Longrightarrow> wle a c"
    and plus_mono: "ok a \<Longrightarrow> ok b \<Longrightarrow> ok c \<Longrightarrow> ok d \<Longrightarrow> wle a b \<Longrightarrow> wle c d \<Longrightarrow> wle (a + c) (b + d)"
    and plus_zero: "ok a \<Longrightarrow> wle (a + 0) a" "ok a \<Longrightarrow> wle a (a + 0)"
    and zero_plus: "ok a \<Longrightarrow> wle (0 + a) a" "ok a \<Longrightarrow> wle a (0 + a)"
begin

lemma wle_refl: "ok a \<Longrightarrow> wle a a"
  using wle_trans [of a "a + 0" a] plus_zero ok_plus ok_zero by blast

lemma wle_total: "ok a \<Longrightarrow> ok b \<Longrightarrow> wle a b \<or> wle b a"
  using less_imp_wle [of b a] by (auto simp: wle_def)

lemma not_wle: "\<not> wle a b \<longleftrightarrow> b < a"
  by (simp add: wle_def)

lemma wle_less_trans: "ok a \<Longrightarrow> ok b \<Longrightarrow> ok c \<Longrightarrow> wle a b \<Longrightarrow> b < c \<Longrightarrow> a < c"
  using wle_trans [of c a b] by (auto simp: wle_def)

lemma less_wle_trans: "ok a \<Longrightarrow> ok b \<Longrightarrow> ok c \<Longrightarrow> a < b \<Longrightarrow> wle b c \<Longrightarrow> a < c"
  using wle_trans [of b c a] by (auto simp: wle_def)

lemma less_irrefl_ok: "ok a \<Longrightarrow> \<not> a < a"
  using wle_refl by (simp add: wle_def)

lemma wle_plus_right: "ok a \<Longrightarrow> ok b \<Longrightarrow> wle a (a + b)"
  using wle_trans [of a "a + 0" "a + b"] plus_mono [of a a 0 b]
  by (simp add: wle_refl zero_least ok_plus ok_zero plus_zero)

lemma wle_plus_left: "ok a \<Longrightarrow> ok b \<Longrightarrow> wle b (a + b)"
  using wle_trans [of b "0 + b" "a + b"] plus_mono [of 0 a b b]
  by (simp add: wle_refl zero_least ok_plus ok_zero zero_plus)

end

interpretation exact: weight_laws
  "\<lambda>w::'w::{linorder, ordered_cancel_comm_monoid_add}. 0 \<le> w"
  by unfold_locales (auto simp: wle_def not_less intro: add_mono add_nonneg_nonneg)

lemma wle_exact [simp]: "wle (a::'w::linorder) b \<longleftrightarrow> a \<le> b"
  by (simp add: wle_def not_less)

end
