(* ===== verification/Router.thy ===== *)
theory Router
  imports Graph Weight
begin

text \<open>
  \<^verbatim>\<open>router.h\<close>: all-pairs routes by Floyd and Warshall's algorithm, with the last edge of
  every route, and the reconstruction of a route from these edges. The weights are those of
  the template: any type with \<open>0\<close>, \<open>+\<close> and \<open><\<close>.

  The table is updated in place and the loops of \<^verbatim>\<open>RelaxRoutesInternalDataThroughVertex\<close> hold
  references into it, so every step of the model reads the current table. Proofs are in
  \<^verbatim>\<open>Router_Correct\<close> (any lawful weight, \<^verbatim>\<open>double\<close> included) and \<^verbatim>\<open>Router_Exact\<close>
  (weights with associative addition).
\<close>

record 'w route_internal_data =
  rid_weight :: 'w
  prev_edge :: "nat option"

type_synonym 'w routes_internal_data = "'w route_internal_data option list list"

record 'w route_info =
  ri_weight :: 'w
  ri_edges :: "nat list"

section \<open>The table\<close>

definition tbl_get :: "'a list list \<Rightarrow> nat \<Rightarrow> nat \<Rightarrow> 'a result" where
  "tbl_get t i j = bindR (vec_idx t i) (\<lambda>row. vec_idx row j)"

definition tbl_set :: "'a list list \<Rightarrow> nat \<Rightarrow> nat \<Rightarrow> 'a \<Rightarrow> 'a list list result" where
  "tbl_set t i j x = bindR (vec_idx t i) (\<lambda>row. bindR (vec_idx row j) (\<lambda>_.
     Inr (t[i := row[j := x]])))"

section \<open>InitializeRoutesInternalData\<close>

definition init_edge :: "('w::{zero, ord}) graph \<Rightarrow> nat \<Rightarrow> 'w routes_internal_data \<Rightarrow> nat \<Rightarrow>
    'w routes_internal_data result" where
  "init_edge g vertex t edge_id =
     bindR (get_edge g edge_id) (\<lambda>e.
       if edge_weight e < 0 then Inl (Domain_error ''Edges' weights should be non-negative'')
       else bindR (tbl_get t vertex (edge_to e)) (\<lambda>r.
         let d = \<lparr>rid_weight = edge_weight e, prev_edge = Some edge_id\<rparr>
         in case r of
              None \<Rightarrow> tbl_set t vertex (edge_to e) (Some d)
            | Some old \<Rightarrow>
                if edge_weight e < rid_weight old then tbl_set t vertex (edge_to e) (Some d)
                else Inr t))"

definition init_vertex :: "('w::{zero, ord}) graph \<Rightarrow> 'w routes_internal_data \<Rightarrow> nat \<Rightarrow>
    'w routes_internal_data result" where
  "init_vertex g t vertex =
     bindR (tbl_set t vertex vertex (Some \<lparr>rid_weight = 0, prev_edge = None\<rparr>)) (\<lambda>t.
       bindR (get_incident_edges g vertex) (\<lambda>r. foldR (init_edge g vertex) t (range_elems r)))"

definition initialize_routes :: "('w::{zero, ord}) graph \<Rightarrow> 'w routes_internal_data \<Rightarrow>
    'w routes_internal_data result" where
  "initialize_routes g t = foldR (init_vertex g) t [0..<get_vertex_count g]"

section \<open>Relaxation\<close>

definition relax_route :: "nat \<Rightarrow> nat \<Rightarrow> 'w route_internal_data \<Rightarrow> 'w route_internal_data \<Rightarrow>
    ('w::{plus, ord}) routes_internal_data \<Rightarrow> 'w routes_internal_data result" where
  "relax_route vertex_from vertex_to route_from route_to t =
     bindR (tbl_get t vertex_from vertex_to) (\<lambda>relaxing.
       let candidate = rid_weight route_from + rid_weight route_to;
           d = \<lparr>rid_weight = candidate,
                prev_edge = (if prev_edge route_to \<noteq> None then prev_edge route_to
                             else prev_edge route_from)\<rparr>
       in case relaxing of
            None \<Rightarrow> tbl_set t vertex_from vertex_to (Some d)
          | Some old \<Rightarrow>
              if candidate < rid_weight old then tbl_set t vertex_from vertex_to (Some d)
              else Inr t)"

text \<open>One iteration of the inner loop; \<^verbatim>\<open>*route_from\<close> is the table's current entry.\<close>

definition relax_to :: "nat \<Rightarrow> nat \<Rightarrow> ('w::{plus, ord}) routes_internal_data \<Rightarrow> nat \<Rightarrow>
    'w routes_internal_data result" where
  "relax_to vertex_through vertex_from t vertex_to =
     bindR (tbl_get t vertex_through vertex_to) (\<lambda>route_to.
       case route_to of
         None \<Rightarrow> Inr t
       | Some rt \<Rightarrow> bindR (tbl_get t vertex_from vertex_through) (\<lambda>route_from.
           case route_from of
             None \<Rightarrow> Inl Undefined_behaviour
           | Some rf \<Rightarrow> relax_route vertex_from vertex_to rf rt t))"

definition relax_from :: "nat \<Rightarrow> nat \<Rightarrow> ('w::{plus, ord}) routes_internal_data \<Rightarrow> nat \<Rightarrow>
    'w routes_internal_data result" where
  "relax_from vertex_count vertex_through t vertex_from =
     bindR (tbl_get t vertex_from vertex_through) (\<lambda>route_from.
       case route_from of
         None \<Rightarrow> Inr t
       | Some _ \<Rightarrow> foldR (relax_to vertex_through vertex_from) t [0..<vertex_count])"

definition relax_through :: "nat \<Rightarrow> ('w::{plus, ord}) routes_internal_data \<Rightarrow> nat \<Rightarrow>
    'w routes_internal_data result" where
  "relax_through vertex_count t vertex_through =
     foldR (relax_from vertex_count vertex_through) t [0..<vertex_count]"

text \<open>The constructor \<^verbatim>\<open>Router(const Graph&)\<close>.\<close>

definition router_new :: "('w::{zero, plus, ord}) graph \<Rightarrow> 'w routes_internal_data result" where
  "router_new g =
     (let n = get_vertex_count g
      in bindR (initialize_routes g (replicate n (replicate n None)))
           (\<lambda>t. foldR (relax_through n) t [0..<n]))"

section \<open>BuildRoute\<close>

text \<open>One step of the loop: the edge before \<open>edge_id\<close> on the route.\<close>

definition prev_step :: "'w graph \<Rightarrow> 'w routes_internal_data \<Rightarrow> nat \<Rightarrow> nat \<Rightarrow> nat option result" where
  "prev_step g t from_v edge_id =
     bindR (get_edge g edge_id) (\<lambda>e. bindR (tbl_get t from_v (edge_from e)) (\<lambda>r.
       case r of None \<Rightarrow> Inl Undefined_behaviour | Some d \<Rightarrow> Inr (prev_edge d)))"

partial_function (option) collect_edges :: "'w graph \<Rightarrow> 'w routes_internal_data \<Rightarrow> nat \<Rightarrow>
    nat option \<Rightarrow> nat list \<Rightarrow> nat list result option" where
  "collect_edges g t from_v edge_id acc =
     (case edge_id of
        None \<Rightarrow> Some (Inr acc)
      | Some eid \<Rightarrow>
          (case prev_step g t from_v eid of
             Inl e \<Rightarrow> Some (Inl e)
           | Inr next_id \<Rightarrow> collect_edges g t from_v next_id (acc @ [eid])))"

definition build_route :: "'w graph \<Rightarrow> 'w routes_internal_data \<Rightarrow> nat \<Rightarrow> nat \<Rightarrow>
    'w route_info option result" where
  "build_route g t from_v to_v =
     bindR (vec_at t from_v) (\<lambda>row. bindR (vec_at row to_v) (\<lambda>r.
       case r of
         None \<Rightarrow> Inr None
       | Some d \<Rightarrow>
           bindR (returned (collect_edges g t from_v (prev_edge d) [])) (\<lambda>ids.
             Inr (Some \<lparr>ri_weight = rid_weight d, ri_edges = rev ids\<rparr>))))"

end
