(* ===== verification/Ieee_Laws.thy ===== *)
theory Ieee_Laws
  imports Ieee_Double Weight
begin

text \<open>
  What holds of rounded arithmetic: rounding is monotone and exact on representable values
  (\<open>rnd_mono\<close>, \<open>rnd_mval\<close>), so on non-negative doubles addition is monotone in both arguments
  and zero is neutral, while comparisons form a total preorder. The bundle \<open>dbl_eval\<close> evaluates
  closed arithmetic.
\<close>

lemmas dbl_eval = double_of_int_def double_of_decimal_def mag_of_decimal_def round_mag_def
  flog2_def bit_len.simps Let_def pack_def inf_mag_def round_half_even_def
  plus_double_def times_double_def divide_double_def uminus_double_def minus_double_def
  zero_double_def one_double_def less_double_def less_eq_double_def eq_double_def skey_def
  smant_def is_nan_def is_inf_def mag_of_def mant_def expo_def sign_of_def

section \<open>Packing\<close>

lemma bits_pack:
  assumes "n < 2 ^ 63"
  shows "unat (bits (pack s n)) = (if s then 2 ^ 63 else 0) + n"
proof -
  have "(if s then 2 ^ 63 else 0) + n < 2 ^ LENGTH(64)" using assms by simp
  then show ?thesis by (simp only: pack_def double.sel unsigned_of_nat take_bit_nat_eq_self of_nat_id)
qed

lemma mag_of_pack [simp]: "n < 2 ^ 63 \<Longrightarrow> mag_of (pack s n) = n"
  unfolding mag_of_def by (simp only: bits_pack) auto

lemma sign_of_pack [simp]: "n < 2 ^ 63 \<Longrightarrow> sign_of (pack s n) = s"
  unfolding sign_of_def by (simp only: bits_pack) auto

lemma mag_of_less: "mag_of d < 2 ^ 63"
  by (simp add: mag_of_def)

lemma pack_sign_mag [simp]: "pack (sign_of d) (mag_of d) = d"
proof -
  define u where "u = unat (bits d)"
  have "u < 2 ^ LENGTH(64)" unfolding u_def by (rule unsigned_less)
  then have "(if 2 ^ 63 \<le> u then 2 ^ 63 else 0) + u mod 2 ^ 63 = u"
    by (auto simp: mod_if)
  then have "pack (sign_of d) (mag_of d) = Double (word_of_nat u)"
    by (simp only: pack_def sign_of_def mag_of_def flip: u_def)
  then show ?thesis by (simp add: u_def)
qed

lemma double_eqI:
  assumes "sign_of a = sign_of b" and "mag_of a = mag_of b"
  shows "a = b"
proof -
  have "a = pack (sign_of a) (mag_of a)" by simp
  also have "\<dots> = b" by (simp only: assms pack_sign_mag)
  finally show ?thesis .
qed

lemma round_mag_le_inf: "round_mag p q e \<le> inf_mag"
  by (simp add: round_mag_def Let_def)

lemma inf_mag_less: "inf_mag < 2 ^ 63"
  by (simp add: inf_mag_def)

lemma round_mag_less: "round_mag p q e < 2 ^ 63"
  using round_mag_le_inf [of p q e] inf_mag_less by linarith

section \<open>Values\<close>

definition mval :: "nat \<Rightarrow> real" where
  "mval n = real (mant n) * 2 ^ expo n / 2 ^ 1074"

text \<open>Rounding over the reals, which \<open>round_mag\<close> computes.\<close>

definition rhe :: "real \<Rightarrow> int" where
  "rhe y = (let f = \<lfloor>y\<rfloor>
     in if 1 / 2 < y - of_int f \<or> (y - of_int f = 1 / 2 \<and> odd f) then f + 1 else f)"

definition unit_exp :: "real \<Rightarrow> int" where
  "unit_exp x = max (-1074) (\<lfloor>log 2 x\<rfloor> - 52)"

definition rnd :: "real \<Rightarrow> nat" where
  "rnd x = (if x \<le> 0 then 0
     else min inf_mag (nat (rhe (x / 2 powi unit_exp x)) + nat (unit_exp x + 1074) * 2 ^ 52))"

lemma rhe_of_int [simp]: "rhe (of_int i) = i"
  by (simp add: rhe_def)

lemma rhe_bounds: "\<lfloor>y\<rfloor> \<le> rhe y" "rhe y \<le> \<lfloor>y\<rfloor> + 1"
  by (auto simp: rhe_def Let_def)

lemma rhe_mono: "y \<le> z \<Longrightarrow> rhe y \<le> rhe z"
proof -
  assume yz: "y \<le> z"
  then have "\<lfloor>y\<rfloor> \<le> \<lfloor>z\<rfloor>" by (rule floor_mono)
  then consider "\<lfloor>y\<rfloor> = \<lfloor>z\<rfloor>" | "\<lfloor>y\<rfloor> + 1 \<le> \<lfloor>z\<rfloor>" by linarith
  then show ?thesis
  proof cases
    case 1
    with yz show ?thesis by (auto simp: rhe_def Let_def)
  next
    case 2
    with rhe_bounds [of y] rhe_bounds [of z] show ?thesis by linarith
  qed
qed

lemma rhe_ratio:
  assumes "0 < d"
  shows "int (round_half_even n d) = rhe (real n / real d)"
proof -
  have fl: "\<lfloor>real n / real d\<rfloor> = int (n div d)"
    by (rule floor_divide_of_nat_eq)
  have "real n = real (n div d) * real d + real (n mod d)"
    by (metis div_mult_mod_eq of_nat_add of_nat_mult)
  then have fr: "real n / real d - real (n div d) = real (n mod d) / real d"
    using assms by (simp add: field_simps)
  have gt: "1 / 2 < real (n mod d) / real d \<longleftrightarrow> d < 2 * (n mod d)"
    using assms by (simp add: field_simps) linarith
  have eq: "real (n mod d) / real d = 1 / 2 \<longleftrightarrow> 2 * (n mod d) = d"
    using assms by (simp add: field_simps) linarith
  show ?thesis
    by (simp only: rhe_def round_half_even_def Let_def fl of_int_of_nat_eq fr gt eq) auto
qed

subsection \<open>Binary logarithms\<close>

lemma floor_log2_iff:
  "0 < x \<Longrightarrow> \<lfloor>log 2 x\<rfloor> = k \<longleftrightarrow> 2 powi k \<le> x \<and> x < 2 powi (k + 1)"
  using floor_log_eq_powr_iff [of x 2 k] powr_real_of_int' [of 2 k] powr_real_of_int' [of 2 "k + 1"]
  by simp

lemma bit_len_bounds: "0 < n \<Longrightarrow> 2 ^ (bit_len n - 1) \<le> n \<and> n < 2 ^ bit_len n \<and> 0 < bit_len n"
proof (induction n rule: bit_len.induct)
  case (1 n)
  show ?case
  proof (cases "n div 2 = 0")
    case True
    with "1.prems" have "n = 1" by simp
    then show ?thesis by (simp add: bit_len.simps [of "Suc 0"] bit_len.simps [of 0])
  next
    case False
    then obtain k where k: "bit_len (n div 2) = Suc k" and "2 ^ k \<le> n div 2" "n div 2 < 2 ^ Suc k"
      using "1.IH" "1.prems" by (cases "bit_len (n div 2)") auto
    then have "2 ^ Suc k \<le> n" "n < 2 ^ Suc (Suc k)" by auto
    with k "1.prems" show ?thesis by (simp add: bit_len.simps [of n])
  qed
qed

lemma bit_len_eqI:
  assumes n: "2 ^ k \<le> n" "n < 2 ^ Suc k"
  shows "bit_len n = Suc k"
proof -
  have "0 < n" using n(1) order.strict_trans2 [of 0 "2 ^ k" n] by simp
  note b = bit_len_bounds [OF this]
  have "(2::nat) ^ (bit_len n - 1) < 2 ^ Suc k" using b n(2) order.strict_trans1 by blast
  moreover have "(2::nat) ^ k < 2 ^ bit_len n" using b n(1) order.strict_trans1 by blast
  ultimately have "bit_len n - 1 < Suc k" "k < bit_len n" by (simp_all only: power_strict_increasing_iff)
  then show ?thesis using b by simp
qed

lemma bit_len_mant: "2 ^ 52 \<le> n \<Longrightarrow> n < 2 ^ 53 \<Longrightarrow> bit_len n = 53"
  using bit_len_eqI [of 52 n] by simp

lemma powi_nonneg_split: "(2::real) powi k = 2 ^ nat k / 2 ^ nat (- k)"
  by (cases "0 \<le> k") (simp_all add: power_int_def power_one_over inverse_eq_divide)

lemma powi_below: "2 ^ m \<le> n \<Longrightarrow> 2 powi int m \<le> real n"
  by (metis of_nat_le_iff of_nat_numeral of_nat_power power_int_of_nat)

lemma powi_above: "n < 2 ^ m \<Longrightarrow> real n < 2 powi int m"
  by (metis of_nat_less_iff of_nat_numeral of_nat_power power_int_of_nat)

lemma flog2_eq:
  assumes "0 < p" "0 < q"
  shows "flog2 p q = \<lfloor>log 2 (real p / real q)\<rfloor>"
proof -
  define a b where "a = bit_len p" and "b = bit_len q"
  define k where "k = int a - int b"
  have p: "2 ^ (a - 1) \<le> p" "p < 2 ^ a" "0 < a" and q: "2 ^ (b - 1) \<le> q" "q < 2 ^ b" "0 < b"
    using bit_len_bounds assms by (auto simp: a_def b_def)
  have rp: "2 powi (int a - 1) \<le> real p" "real p < 2 powi int a"
    using powi_below [OF p(1)] powi_above [OF p(2)] p(3) by simp_all
  have rq: "2 powi (int b - 1) \<le> real q" "real q < 2 powi int b"
    using powi_below [OF q(1)] powi_above [OF q(2)] q(3) by simp_all
  have lo: "2 powi (k - 1) \<le> real p / real q"
  proof -
    have "2 powi (k - 1) * real q \<le> 2 powi (k - 1) * 2 powi int b"
      using rq by (intro mult_left_mono) auto
    also have "\<dots> = 2 powi (k - 1 + int b)" by (rule power_int_add [symmetric]) simp
    also have "k - 1 + int b = int a - 1" by (simp add: k_def)
    finally show ?thesis using rp assms by (simp add: field_simps)
  qed
  have hi: "real p / real q < 2 powi (k + 1)"
  proof -
    have "real p < 2 powi int a" by (rule rp)
    also have "int a = (k + 1) + (int b - 1)" by (simp add: k_def)
    also have "(2::real) powi \<dots> = 2 powi (k + 1) * 2 powi (int b - 1)" by (rule power_int_add) simp
    also have "\<dots> \<le> 2 powi (k + 1) * real q" using rq by (intro mult_left_mono) auto
    finally show ?thesis using assms by (simp add: field_simps)
  qed
  have test: "q * 2 ^ nat k \<le> p * 2 ^ nat (- k) \<longleftrightarrow> 2 powi k \<le> real p / real q"
  proof -
    have "q * 2 ^ nat k \<le> p * 2 ^ nat (- k) \<longleftrightarrow>
        real q * 2 ^ nat k \<le> real p * 2 ^ nat (- k)"
      using of_nat_le_iff [where ?'a = real, of "q * 2 ^ nat k" "p * 2 ^ nat (- k)"] by simp
    also have "\<dots> \<longleftrightarrow> 2 powi k \<le> real p / real q"
      using assms by (simp add: powi_nonneg_split field_simps)
    finally show ?thesis .
  qed
  have pos: "0 < real p / real q" using assms by simp
  show ?thesis
  proof (cases "2 powi k \<le> real p / real q")
    case True
    then have "\<lfloor>log 2 (real p / real q)\<rfloor> = k" using hi pos by (simp add: floor_log2_iff)
    with True test show ?thesis by (simp add: flog2_def Let_def flip: a_def b_def k_def)
  next
    case False
    then have "\<lfloor>log 2 (real p / real q)\<rfloor> = k - 1" using lo pos by (simp add: floor_log2_iff)
    with False test show ?thesis by (simp add: flog2_def Let_def flip: a_def b_def k_def)
  qed
qed

lemma log2_powi: "log 2 (2 powi k) = of_int k"
  using powr_real_of_int' [of 2 k] by (metis log_powr_cancel num.distinct(1) numeral_eq_one_iff
      one_less_numeral_iff semiring_norm(76) verit_comp_simplify(28) zero_less_numeral less_numeral_extra(1)
      zero_neq_numeral order_less_imp_le)

lemma flog2_shift:
  assumes "0 < p" "0 < q"
  shows "flog2 p q + e = \<lfloor>log 2 (real p / real q * 2 powi e)\<rfloor>"
proof -
  define r where "r = real p / real q"
  have r: "0 < r" using assms by (simp add: r_def)
  have "log 2 (r * 2 powi e) = log 2 r + of_int e"
    using r by (subst log_mult) (simp add: log2_powi)
  then show ?thesis using assms by (simp add: flog2_eq flip: r_def)
qed

theorem round_mag_rnd:
  assumes "0 < q"
  shows "round_mag p q e = rnd (real p / real q * 2 powi e)"
proof (cases "p = 0")
  case True
  then show ?thesis by (simp add: round_mag_def rnd_def)
next
  case False
  define x where "x = real p / real q * 2 powi e"
  have x: "0 < x" using False assms by (simp add: x_def)
  define t where "t = unit_exp x"
  define s where "s = e - t"
  have t: "t = max (-1074) (flog2 p q + e - 52)"
    using False assms by (simp add: t_def unit_exp_def x_def flog2_shift)
  have "x / 2 powi t = real p / real q * 2 powi s"
    by (simp add: x_def s_def power_int_diff)
  also have "\<dots> = real (p * 2 ^ nat s) / real (q * 2 ^ nat (- s))"
    by (simp add: powi_nonneg_split)
  finally have "rhe (x / 2 powi t) = int (round_half_even (p * 2 ^ nat s) (q * 2 ^ nat (- s)))"
    using assms by (simp add: rhe_ratio)
  then have m: "nat (rhe (x / 2 powi t)) = round_half_even (p * 2 ^ nat s) (q * 2 ^ nat (- s))"
    by simp
  have "round_mag p q e = min inf_mag (round_half_even (p * 2 ^ nat s) (q * 2 ^ nat (- s))
      + nat (t + 1074) * 2 ^ 52)"
    using False by (simp only: round_mag_def Let_def s_def t if_False)
  also have "\<dots> = rnd x"
    using x by (simp only: rnd_def m [symmetric] not_le [symmetric] if_False flip: t_def)
  finally show ?thesis by (simp only: x_def)
qed

subsection \<open>Rounding is monotone\<close>

lemma powi2_mono: "i \<le> j \<Longrightarrow> (2::real) powi i \<le> 2 powi j"
  by (simp add: power_int_increasing)

lemma powi2_add: "(2::real) powi (i + j) = 2 powi i * 2 powi j"
  by (rule power_int_add) simp

lemma unit_exp_ge: "-1074 \<le> unit_exp x"
  by (simp add: unit_exp_def)

lemma unit_exp_mono: "0 < x \<Longrightarrow> x \<le> y \<Longrightarrow> unit_exp x \<le> unit_exp y"
  unfolding unit_exp_def by (intro max.mono diff_right_mono floor_mono) auto

lemma rhe_unit_upper:
  assumes "0 < x"
  shows "rhe (x / 2 powi unit_exp x) \<le> 2 ^ 53"
proof -
  define k where "k = \<lfloor>log 2 x\<rfloor>"
  have "x < 2 powi (k + 1)" using floor_log2_iff [OF assms, of k] k_def by simp
  also have "\<dots> \<le> 2 powi (53 + unit_exp x)"
    by (rule powi2_mono) (simp add: unit_exp_def k_def)
  also have "\<dots> = 2 powi 53 * 2 powi unit_exp x" by (rule powi2_add)
  finally have "x / 2 powi unit_exp x \<le> of_int (2 ^ 53)"
    by (simp add: field_simps)
  then show ?thesis using rhe_mono rhe_of_int by metis
qed

lemma rhe_unit_lower:
  assumes "0 < y" and "-1074 < unit_exp y"
  shows "2 ^ 52 \<le> rhe (y / 2 powi unit_exp y)"
proof -
  define k where "k = \<lfloor>log 2 y\<rfloor>"
  have "(2::real) powi (52 + unit_exp y) \<le> 2 powi k"
    using assms(2) by (intro powi2_mono) (simp add: unit_exp_def k_def)
  also have "\<dots> \<le> y" using floor_log2_iff [OF assms(1), of k] k_def by simp
  finally have "2 powi 52 * 2 powi unit_exp y \<le> y" by (simp only: powi2_add)
  then have "of_int (2 ^ 52) \<le> y / 2 powi unit_exp y"
    by (simp add: field_simps)
  then show ?thesis using rhe_mono rhe_of_int by metis
qed

lemma rhe_nonneg: "0 \<le> y \<Longrightarrow> 0 \<le> rhe y"
  using rhe_mono [of 0 y] rhe_of_int [of 0] by simp

theorem rnd_mono: "x \<le> y \<Longrightarrow> rnd x \<le> rnd y"
proof (cases "0 < x")
  case False
  then show ?thesis by (simp add: rnd_def)
next
  case True
  assume xy: "x \<le> y"
  with True have y: "0 < y" by simp
  define s t where "s = unit_exp x" and "t = unit_exp y"
  define m n where "m = rhe (x / 2 powi s)" and "n = rhe (y / 2 powi t)"
  have st: "s \<le> t" "-1074 \<le> s" using unit_exp_mono [OF True xy] unit_exp_ge by (simp_all add: s_def t_def)
  have mn: "0 \<le> m" "0 \<le> n" using True y by (auto simp: m_def n_def intro!: rhe_nonneg)
  have "nat m + nat (s + 1074) * 2 ^ 52 \<le> nat n + nat (t + 1074) * 2 ^ 52"
  proof (cases "s = t")
    case True
    have "m \<le> n" unfolding m_def n_def True
      using xy by (intro rhe_mono divide_right_mono) auto
    then show ?thesis using True by simp
  next
    case False
    then have "m \<le> 2 ^ 53" "2 ^ 52 \<le> n"
      using st rhe_unit_upper [OF \<open>0 < x\<close>] rhe_unit_lower [OF y]
      by (simp_all add: m_def n_def s_def t_def)
    moreover have "nat (s + 1074) + 1 \<le> nat (t + 1074)" using False st by simp
    ultimately show ?thesis using mn by simp
  qed
  then show ?thesis using True y
    by (simp only: rnd_def not_le [symmetric] if_False flip: s_def t_def m_def n_def) simp
qed

lemma rnd_le_inf: "rnd x \<le> inf_mag"
  by (simp add: rnd_def)

subsection \<open>Rounding is exact on doubles\<close>

lemma mval_powi: "mval n = real (mant n) * 2 powi (int (expo n) - 1074)"
proof -
  have "(2::real) powi (int (expo n) - 1074) = 2 powi int (expo n) / 2 powi 1074"
    by (rule power_int_diff) simp
  then show ?thesis by (simp add: mval_def)
qed

lemma mval_pos: "0 < n \<Longrightarrow> 0 < mval n"
  by (auto simp: mval_def mant_def)

lemma mval_0 [simp]: "mval 0 = 0"
  by (simp add: mval_def mant_def)

lemma mant_less: "mant n < 2 ^ 53"
  by (simp add: mant_def)

lemma unit_exp_mval:
  assumes "0 < n"
  shows "unit_exp (mval n) = int (expo n) - 1074"
proof (cases "n < 2 ^ 52")
  case True
  define k where "k = \<lfloor>log 2 (mval n)\<rfloor>"
  have "mval n < 2 powi (- 1022)"
    using True by (simp add: mval_powi mant_def expo_def power_int_minus field_simps)
  moreover have "2 powi k \<le> mval n"
    using floor_log2_iff [OF mval_pos [OF assms], of k] by (simp add: k_def)
  ultimately have "(2::real) powi k < 2 powi (- 1022)" by simp
  then have "k < -1022" using powi2_mono [of "-1022" k] by (cases "k < -1022") auto
  with True show ?thesis by (simp add: unit_exp_def expo_def flip: k_def)
next
  case False
  define e where "e = int (expo n) - 1074"
  have m: "2 ^ 52 \<le> mant n" using False by (simp add: mant_def)
  have "2 powi (52 + e) = 2 ^ 52 * (2::real) powi e" by (simp add: powi2_add)
  also have "\<dots> \<le> mval n" using m by (simp add: mval_powi flip: e_def)
  finally have lo: "2 powi (52 + e) \<le> mval n" .
  have "mval n < 2 ^ 53 * 2 powi e" using mant_less [of n] by (simp add: mval_powi flip: e_def)
  also have "\<dots> = 2 powi (52 + e + 1)" by (simp add: powi2_add)
  finally have "\<lfloor>log 2 (mval n)\<rfloor> = 52 + e"
    using lo mval_pos [OF assms] by (simp add: floor_log2_iff)
  then show ?thesis by (simp add: unit_exp_def e_def)
qed

lemma mant_expo: "mant n + expo n * 2 ^ 52 = n"
proof (cases "n < 2 ^ 52")
  case False
  then have "0 < n div 2 ^ 52" by (simp add: div_greater_zero_iff)
  then have "2 ^ 52 + (n div 2 ^ 52 - 1) * 2 ^ 52 = n div 2 ^ 52 * 2 ^ 52"
    by (simp add: diff_mult_distrib)
  moreover have "n div 2 ^ 52 * 2 ^ 52 + n mod 2 ^ 52 = n" by (rule div_mult_mod_eq)
  moreover have "mant n + expo n * 2 ^ 52 =
      2 ^ 52 + n mod 2 ^ 52 + (n div 2 ^ 52 - 1) * 2 ^ 52"
    using False by (simp add: mant_def expo_def)
  ultimately show ?thesis by linarith
qed (simp add: mant_def expo_def)

theorem rnd_mval:
  assumes "n \<le> inf_mag"
  shows "rnd (mval n) = n"
proof (cases "n = 0")
  case True
  then show ?thesis by (simp add: rnd_def)
next
  case False
  define e where "e = int (expo n) - 1074"
  have "mval n / 2 powi e = real (mant n)"
    by (simp add: mval_powi flip: e_def)
  then have "rhe (mval n / 2 powi e) = int (mant n)"
    using rhe_of_int [of "int (mant n)"] by simp
  moreover have "unit_exp (mval n) = e" using False by (simp add: unit_exp_mval e_def)
  moreover have "nat (e + 1074) = expo n" by (simp add: e_def)
  ultimately have "rnd (mval n) = min inf_mag (mant n + expo n * 2 ^ 52)"
    using mval_pos [of n] False by (simp add: rnd_def)
  with assms show ?thesis by (simp only: mant_expo min.absorb2)
qed

lemma mval_Suc: "mval n < mval (Suc n)"
proof -
  have "n < 2 ^ 52 - 1 \<or> n = 2 ^ 52 - 1 \<or> 2 ^ 52 \<le> n" by linarith
  then have "mant n * 2 ^ expo n < mant (Suc n) * 2 ^ expo (Suc n)"
  proof (elim disjE)
    assume n: "2 ^ 52 \<le> n"
    define q r where "q = n div 2 ^ 52" and "r = n mod 2 ^ 52"
    have q: "0 < q" using n by (simp add: q_def div_greater_zero_iff)
    then obtain p where p: "q = Suc p" by (cases q) auto
    have r: "r < 2 ^ 52" by (simp add: r_def)
    have now: "mant n = 2 ^ 52 + r" "expo n = p" using n p by (simp_all add: mant_def expo_def q_def r_def)
    show ?thesis
    proof (cases "Suc r = 2 ^ 52")
      case True
      then have "Suc n div 2 ^ 52 = Suc q" "Suc n mod 2 ^ 52 = 0"
        by (simp_all add: q_def r_def mod_Suc div_Suc)
      then have "mant (Suc n) = 2 ^ 52" "expo (Suc n) = Suc p"
        using n p by (simp_all add: mant_def expo_def)
      with now r show ?thesis by simp
    next
      case False
      then have "Suc n div 2 ^ 52 = q" "Suc n mod 2 ^ 52 = Suc r"
        by (simp_all add: q_def r_def mod_Suc div_Suc)
      then have "mant (Suc n) = 2 ^ 52 + Suc r" "expo (Suc n) = p"
        using n p by (simp_all add: mant_def expo_def)
      with now r show ?thesis by simp
    qed
  qed (simp_all add: mant_def expo_def)
  then have "real (mant n * 2 ^ expo n) < real (mant (Suc n) * 2 ^ expo (Suc n))"
    by (simp only: of_nat_less_iff)
  then show ?thesis by (simp add: mval_def divide_strict_right_mono)
qed

lemma mval_strict_mono: "m < n \<Longrightarrow> mval m < mval n"
  using mval_Suc by (rule lift_Suc_mono_less)

lemma mval_mono: "m \<le> n \<Longrightarrow> mval m \<le> mval n"
  using mval_strict_mono [of m n] by (cases "m = n") auto

section \<open>Integers are exact\<close>

definition dval :: "double \<Rightarrow> real" where
  "dval d = (if sign_of d then - mval (mag_of d) else mval (mag_of d))"

lemma mant_expo_join:
  assumes "m < 2 ^ 53" and "E = 0 \<or> 2 ^ 52 \<le> m"
  shows "mant (m + E * 2 ^ 52) = m \<and> expo (m + E * 2 ^ 52) = E"
proof (cases "m < 2 ^ 52")
  case True
  then show ?thesis using assms by (auto simp: mant_def expo_def)
next
  case False
  then obtain r where r: "m = 2 ^ 52 + r" by (metis le_Suc_ex not_less)
  with assms have "r < 2 ^ 52" by simp
  then have "(m + E * 2 ^ 52) div 2 ^ 52 = Suc E" "(m + E * 2 ^ 52) mod 2 ^ 52 = r"
    by (simp_all add: r)
  then show ?thesis by (simp add: mant_def expo_def r)
qed

lemma nat_representable:
  assumes "n < 2 ^ 53"
  shows "\<exists>k \<le> inf_mag. mval k = real n"
proof (cases "n = 0")
  case True
  then show ?thesis by (intro exI [of _ 0]) simp
next
  case False
  define s where "s = 53 - bit_len n"
  have bl: "2 ^ (bit_len n - 1) \<le> n" "n < 2 ^ bit_len n" "0 < bit_len n"
    using False bit_len_bounds by auto
  have "(2::nat) ^ (bit_len n - 1) < 2 ^ 53" using bl(1) assms by (rule le_less_trans)
  then have le: "bit_len n \<le> 53" using power_strict_increasing_iff [of "2::nat" "bit_len n - 1" 53] by simp
  define m where "m = n * 2 ^ s"
  have "m < 2 ^ bit_len n * 2 ^ s" using bl by (simp add: m_def)
  also have "\<dots> = 2 ^ 53" using le by (simp add: s_def flip: power_add)
  finally have m1: "m < 2 ^ 53" .
  have "2 ^ (bit_len n - 1) * 2 ^ s \<le> m" using bl by (simp add: m_def)
  moreover have "2 ^ (bit_len n - 1) * 2 ^ s = (2::nat) ^ 52"
    using le bl(3) by (simp add: s_def flip: power_add)
  ultimately have m2: "2 ^ 52 \<le> m" by simp
  define k where "k = m + (1074 - s) * 2 ^ 52"
  have "mant k = m" "expo k = 1074 - s"
    using mant_expo_join [of m "1074 - s"] m1 m2 by (auto simp: k_def)
  then have "mval k = real n * (2 ^ s * 2 ^ (1074 - s)) / 2 ^ 1074" by (simp add: mval_def m_def)
  also have "(2::real) ^ s * 2 ^ (1074 - s) = 2 ^ 1074" by (simp add: s_def flip: power_add)
  finally have "mval k = real n" by simp
  moreover have "k \<le> inf_mag" using m1 by (simp add: k_def inf_mag_def)
  ultimately show ?thesis by blast
qed

theorem double_of_int_exact:
  assumes "\<bar>i\<bar> < 2 ^ 53"
  shows "dval (double_of_int i) = of_int i"
proof -
  have "nat \<bar>i\<bar> < 2 ^ 53" using assms by simp
  then obtain k where k: "k \<le> inf_mag" "mval k = real (nat \<bar>i\<bar>)"
    using nat_representable by blast
  have "round_mag (nat \<bar>i\<bar>) 1 0 = k"
    using round_mag_rnd [of 1 "nat \<bar>i\<bar>" 0] rnd_mval [OF k(1)] k(2) by simp
  moreover have "k < 2 ^ 63" using k(1) inf_mag_less by simp
  ultimately show ?thesis using k(2) by (auto simp: dval_def double_of_int_def)
qed

section \<open>Order and addition on non-negative doubles\<close>

definition nonneg_double :: "double \<Rightarrow> bool" where
  "nonneg_double d \<longleftrightarrow> \<not> is_nan d \<and> (sign_of d \<longrightarrow> mag_of d = 0)"

lemma skey_nonneg: "nonneg_double d \<Longrightarrow> skey d = int (mag_of d)"
  by (auto simp: nonneg_double_def skey_def)

lemma wle_nonneg:
  "nonneg_double a \<Longrightarrow> nonneg_double b \<Longrightarrow> wle a b \<longleftrightarrow> mag_of a \<le> mag_of b"
  by (auto simp: wle_def less_double_def skey_nonneg nonneg_double_def)

lemma less_nonneg:
  "nonneg_double a \<Longrightarrow> nonneg_double b \<Longrightarrow> a < b \<longleftrightarrow> mag_of a < mag_of b"
  by (auto simp: less_double_def skey_nonneg nonneg_double_def)

lemma nonneg_mag_le: "nonneg_double d \<Longrightarrow> mag_of d \<le> inf_mag"
  by (simp add: nonneg_double_def is_nan_def)

lemma nonneg_pack: "n \<le> inf_mag \<Longrightarrow> s \<longrightarrow> n = 0 \<Longrightarrow> nonneg_double (pack s n)"
  using inf_mag_less by (simp add: nonneg_double_def is_nan_def)

lemma rnd_inf: "0 \<le> x \<Longrightarrow> rnd (mval inf_mag + x) = inf_mag"
  using rnd_mono [of "mval inf_mag" "mval inf_mag + x"] rnd_mval [of inf_mag] rnd_le_inf
  by (simp add: order.antisym)

lemma mval_nonneg: "0 \<le> mval n"
  by (simp add: mval_def)

lemma mant_0_iff [simp]: "mant n = 0 \<longleftrightarrow> n = 0"
  by (auto simp: mant_def)

lemma smant_nonneg: "nonneg_double d \<Longrightarrow> smant d = int (mant (mag_of d))"
  by (auto simp: smant_def nonneg_double_def)

lemma mval_scaled: "e \<le> expo n \<Longrightarrow>
  real (mant n * 2 ^ (expo n - e)) * 2 powi (int e - 1074) = mval n"
  by (simp add: mval_powi mult.assoc flip: powi2_add power_int_of_nat)

theorem plus_nonneg:
  assumes a: "nonneg_double a" and b: "nonneg_double b"
  shows "nonneg_double (a + b)"
    and "mag_of (a + b) = rnd (mval (mag_of a) + mval (mag_of b))"
proof -
  let ?m = "rnd (mval (mag_of a) + mval (mag_of b))"
  have nn: "\<not> is_nan a" "\<not> is_nan b" using a b by (auto simp: nonneg_double_def)
  have inf0: "inf_mag \<noteq> 0" by (simp add: inf_mag_def)
  have "nonneg_double (a + b) \<and> mag_of (a + b) = ?m"
  proof (cases "is_inf a \<or> is_inf b")
    case True
    then have "mag_of a = inf_mag \<or> mag_of b = inf_mag" by (simp add: is_inf_def)
    then have "?m = inf_mag"
      using rnd_inf [OF mval_nonneg] add.commute by metis
    moreover have "a + b = a \<and> is_inf a \<or> a + b = b \<and> is_inf b"
      using True nn inf0 a b by (auto simp: plus_double_def is_inf_def nonneg_double_def)
    ultimately show ?thesis using a b by (auto simp: is_inf_def)
  next
    case False
    define ea eb e where "ea = expo (mag_of a)" and "eb = expo (mag_of b)" and "e = min ea eb"
    define m n where "m = mant (mag_of a) * 2 ^ (ea - e)" and "n = mant (mag_of b) * 2 ^ (eb - e)"
    have sum: "real (m + n) * 2 powi (int e - 1074) = mval (mag_of a) + mval (mag_of b)"
      using mval_scaled [of e "mag_of a"] mval_scaled [of e "mag_of b"]
      by (simp add: m_def n_def ea_def eb_def e_def distrib_right)
    have s: "smant a * 2 ^ (ea - e) + smant b * 2 ^ (eb - e) = int (m + n)"
      using a b by (simp add: smant_nonneg m_def n_def)
    have ab: "a + b = (if int (m + n) = 0 then pack (sign_of a \<and> sign_of b) 0
        else pack (int (m + n) < 0) (round_mag (nat \<bar>int (m + n)\<bar>) 1 (int e - 1074)))"
      using False nn by (simp only: plus_double_def Let_def s ea_def [symmetric]
          eb_def [symmetric] e_def [symmetric]) simp
    show ?thesis
    proof (cases "m + n = 0")
      case True
      then have "mag_of a = 0" "mag_of b = 0" by (simp_all add: m_def n_def)
      with True ab show ?thesis by (simp add: nonneg_pack rnd_def)
    next
      case False
      then have "int (m + n) \<noteq> 0" "\<not> int (m + n) < 0" "nat \<bar>int (m + n)\<bar> = m + n"
        by linarith+
      then have "a + b = pack False (round_mag (m + n) 1 (int e - 1074))"
        by (simp only: ab if_False)
      moreover have "round_mag (m + n) 1 (int e - 1074) = ?m"
        using round_mag_rnd [of 1 "m + n"] sum by simp
      ultimately have "a + b = pack False ?m" by simp
      moreover have "?m < 2 ^ 63" using rnd_le_inf inf_mag_less by (rule le_less_trans)
      ultimately show ?thesis by (simp add: nonneg_pack rnd_le_inf)
    qed
  qed
  then show "nonneg_double (a + b)" "mag_of (a + b) = ?m" by auto
qed

lemma nonneg_zero [simp]: "nonneg_double 0" and mag_of_zero [simp]: "mag_of 0 = 0"
  by (simp_all add: zero_double_def nonneg_pack)

lemma nonneg_of_int: "0 \<le> i \<Longrightarrow> nonneg_double (double_of_int i)"
  using nonneg_pack [OF round_mag_le_inf] by (simp add: double_of_int_def)

lemma zero_plus_pos:
  assumes d: "nonneg_double d" and pos: "mag_of d \<noteq> 0"
  shows "0 + d = d"
proof (rule double_eqI)
  show mag: "mag_of (0 + d) = mag_of d"
    using plus_nonneg(2) [OF nonneg_zero d] by (simp add: rnd_mval nonneg_mag_le [OF d])
  show "sign_of (0 + d) = sign_of d"
    using plus_nonneg(1) [OF nonneg_zero d] d pos mag unfolding nonneg_double_def by simp
qed

text \<open>The doubles a travel time can be satisfy the contract of the router's weights.\<close>

interpretation dbl: weight_laws nonneg_double
proof unfold_locales
  fix a b c d :: double
  assume "nonneg_double a" "nonneg_double b" "nonneg_double c" "nonneg_double d"
    and "wle a b" "wle c d"
  then show "wle (a + c) (b + d)"
    by (auto simp: wle_nonneg plus_nonneg intro!: rnd_mono add_mono mval_mono)
qed (auto simp: wle_nonneg less_nonneg plus_nonneg rnd_mval nonneg_mag_le)

end
