(* ===== verification/Router_Correct.thy ===== *)
theory Router_Correct
  imports Router Ieee_Laws
begin

text \<open>
  Correctness of the router for any weights that satisfy \<open>weight_laws\<close>, associative or not:
  the constructor never leaves the table, every row of the table is a tree of predecessor edges
  rooted at its vertex (\<open>row_ok\<close>), so \<^verbatim>\<open>BuildRoute\<close> ends and returns a path of the graph, and it
  returns none only where no path exists.
\<close>

section \<open>The table as a square matrix\<close>

definition shape :: "nat \<Rightarrow> 'a list list \<Rightarrow> bool" where
  "shape n t \<longleftrightarrow> length t = n \<and> (\<forall>i < n. length (t ! i) = n)"

definition upd :: "'a list list \<Rightarrow> nat \<Rightarrow> nat \<Rightarrow> 'a \<Rightarrow> 'a list list" where
  "upd t i j x = t[i := (t ! i)[j := x]]"

lemma shape_upd [simp]: "shape n t \<Longrightarrow> shape n (upd t i j x)"
  by (cases "i < length t") (auto simp: shape_def upd_def nth_list_update list_update_beyond)

lemma upd_nth: "shape n t \<Longrightarrow> i < n \<Longrightarrow> j < n \<Longrightarrow> a < n \<Longrightarrow> b < n \<Longrightarrow>
  upd t i j x ! a ! b = (if a = i \<and> b = j then x else t ! a ! b)"
  by (auto simp: shape_def upd_def nth_list_update)

lemma upd_row: "shape n t \<Longrightarrow> i < n \<Longrightarrow> j < n \<Longrightarrow>
  (\<lambda>b. upd t i j x ! i ! b) = (\<lambda>b. if b = j then x else t ! i ! b)"
  by (auto simp: shape_def upd_def nth_list_update fun_eq_iff)

lemma upd_other: "a \<noteq> i \<Longrightarrow> upd t i j x ! a = t ! a"
  by (simp add: upd_def)

lemma upd_same: "shape n t \<Longrightarrow> i < n \<Longrightarrow> upd t i j (t ! i ! j) = t"
  by (simp add: shape_def upd_def)

lemma tbl_get_shape: "shape n t \<Longrightarrow> i < n \<Longrightarrow> j < n \<Longrightarrow> tbl_get t i j = Inr (t ! i ! j)"
  by (simp add: shape_def tbl_get_def)

lemma tbl_set_shape: "shape n t \<Longrightarrow> i < n \<Longrightarrow> j < n \<Longrightarrow> tbl_set t i j x = Inr (upd t i j x)"
  by (simp add: shape_def tbl_set_def upd_def)

lemma shape_replicate [simp]: "shape n (replicate n (replicate n x))"
  by (simp add: shape_def)

section \<open>What a row of the table promises\<close>

definition row_ok :: "('w::{zero, plus, ord} \<Rightarrow> bool) \<Rightarrow> 'w graph \<Rightarrow> nat \<Rightarrow> nat \<Rightarrow>
    (nat \<Rightarrow> 'w route_internal_data option) \<Rightarrow> bool" where
  "row_ok ok g n i r \<longleftrightarrow>
     r i = Some \<lparr>rid_weight = 0, prev_edge = None\<rparr> \<and>
     (\<forall>j < n. \<forall>d. r j = Some d \<longrightarrow> ok (rid_weight d) \<and>
        (case prev_edge d of
           None \<Rightarrow> j = i
         | Some e \<Rightarrow> e < length (edges g) \<and> edge_to (edges g ! e) = j \<and>
             (\<exists>d'. r (edge_from (edges g ! e)) = Some d' \<and> wle (rid_weight d') (rid_weight d)))) \<and>
     (\<exists>rk :: nat \<Rightarrow> nat. \<forall>j < n. \<forall>d e. r j = Some d \<longrightarrow> prev_edge d = Some e \<longrightarrow>
        rk (edge_from (edges g ! e)) < rk j)"

lemma row_ok_root: "row_ok ok g n i r \<Longrightarrow> r i = Some \<lparr>rid_weight = 0, prev_edge = None\<rparr>"
  by (simp add: row_ok_def)

lemma row_ok_weight: "row_ok ok g n i r \<Longrightarrow> j < n \<Longrightarrow> r j = Some d \<Longrightarrow> ok (rid_weight d)"
  by (simp add: row_ok_def)

lemma row_ok_prev_None:
  "row_ok ok g n i r \<Longrightarrow> j < n \<Longrightarrow> r j = Some d \<Longrightarrow> prev_edge d = None \<Longrightarrow> j = i"
  by (force simp: row_ok_def)

lemma row_ok_prev_Some:
  assumes "row_ok ok g n i r" and "j < n" and "r j = Some d" and "prev_edge d = Some e"
  shows "e < length (edges g)" and "edge_to (edges g ! e) = j"
    and "\<exists>d'. r (edge_from (edges g ! e)) = Some d' \<and> wle (rid_weight d') (rid_weight d)"
  using assms by (force simp: row_ok_def)+

section \<open>One phase of the relaxation\<close>

definition relaxed :: "(nat \<Rightarrow> nat \<Rightarrow> ('w::{plus, ord}) route_internal_data option) \<Rightarrow> nat \<Rightarrow> nat \<Rightarrow>
    nat \<Rightarrow> 'w route_internal_data option" where
  "relaxed R k i j =
     (case R i k of None \<Rightarrow> R i j | Some rf \<Rightarrow>
      (case R k j of None \<Rightarrow> R i j | Some rt \<Rightarrow>
         (let d = \<lparr>rid_weight = rid_weight rf + rid_weight rt,
                   prev_edge = (if prev_edge rt \<noteq> None then prev_edge rt else prev_edge rf)\<rparr>
          in case R i j of None \<Rightarrow> Some d
             | Some old \<Rightarrow> if rid_weight d < rid_weight old then Some d else Some old)))"

lemma relaxed_cong:
  "R i k = R' i k \<Longrightarrow> R k j = R' k j \<Longrightarrow> R i j = R' i j \<Longrightarrow> relaxed R k i j = relaxed R' k i j"
  by (auto simp: relaxed_def split: option.splits)

lemma relax_to_eq:
  assumes "shape n t" "i < n" "j < n" "k < n" and "t ! i ! k \<noteq> None"
  shows "relax_to k i t j = Inr (upd t i j (relaxed (\<lambda>a b. t ! a ! b) k i j))"
  using assms upd_same [of n t i j]
  by (auto simp: relax_to_def relax_route_def relaxed_def tbl_get_shape tbl_set_shape Let_def
      split: option.splits)

text \<open>
  The phase in progress: rows below \<open>i\<close> and the first \<open>m\<close> entries of row \<open>i\<close> are relaxed.
  It is the same as relaxing all entries at once, because row and column \<open>k\<close> do not change.
\<close>

definition phase :: "nat \<Rightarrow> (nat \<Rightarrow> nat \<Rightarrow> ('w::{plus, ord}) route_internal_data option) \<Rightarrow> nat \<Rightarrow>
    nat \<Rightarrow> nat \<Rightarrow> 'w routes_internal_data \<Rightarrow> bool" where
  "phase n R k i m t \<longleftrightarrow> shape n t \<and> (\<forall>a < n. \<forall>b < n. t ! a ! b =
     (if a < i \<or> (a = i \<and> b < m) then relaxed R k a b else R a b))"

lemma relax_from_phase:
  assumes fix_row: "\<forall>j < n. relaxed R k k j = R k j" and fix_col: "\<forall>i < n. relaxed R k i k = R i k"
    and "k < n" "i < n" and "phase n R k i 0 t"
  shows "\<exists>t'. relax_from n k t i = Inr t' \<and> phase n R k (Suc i) 0 t'"
proof -
  have sh: "shape n t" using assms(5) by (simp add: phase_def)
  have tik: "t ! i ! k = R i k" using assms by (simp add: phase_def)
  show ?thesis
  proof (cases "R i k")
    case None
    then have "relaxed R k i b = R i b" for b by (simp add: relaxed_def)
    then have "phase n R k (Suc i) 0 t" using assms(5) by (auto simp: phase_def less_Suc_eq)
    then show ?thesis using sh assms(3,4) None tik by (simp add: relax_from_def tbl_get_shape)
  next
    case (Some rf)
    have step: "\<exists>s'. relax_to k i s m = Inr s' \<and> phase n R k i (Suc m) s'"
      if "m < n" "phase n R k i m s" for m s
    proof -
      have s: "shape n s" "s ! i ! k = R i k" "s ! k ! m = R k m" "s ! i ! m = R i m"
        using that fix_row fix_col assms(3,4) by (auto simp: phase_def)
      have "relaxed (\<lambda>a b. s ! a ! b) k i m = relaxed R k i m"
        by (rule relaxed_cong) (use s in auto)
      then have "relax_to k i s m = Inr (upd s i m (relaxed R k i m))"
        using s that Some assms(3,4) by (simp add: relax_to_eq)
      moreover have "phase n R k i (Suc m) (upd s i m (relaxed R k i m))"
        using that assms(4) by (auto simp: phase_def upd_nth)
      ultimately show ?thesis by blast
    qed
    obtain t' where "foldR (relax_to k i) t [0..<n] = Inr t'" "phase n R k i n t'"
      using foldR_upt [of "phase n R k i" t n "relax_to k i"] assms(5) step by blast
    moreover from this have "phase n R k (Suc i) 0 t'" by (auto simp: phase_def less_Suc_eq)
    ultimately show ?thesis
      using sh assms(3,4) Some tik by (simp add: relax_from_def tbl_get_shape)
  qed
qed

lemma relax_through_relaxed:
  assumes "\<forall>j < n. relaxed R k k j = R k j" and "\<forall>i < n. relaxed R k i k = R i k"
    and "k < n" and "shape n t" and "\<forall>a < n. \<forall>b < n. t ! a ! b = R a b"
  shows "\<exists>t'. relax_through n t k = Inr t' \<and> shape n t' \<and>
    (\<forall>a < n. \<forall>b < n. t' ! a ! b = relaxed R k a b)"
proof -
  have "phase n R k 0 0 t" using assms(4,5) by (simp add: phase_def)
  then obtain t' where "relax_through n t k = Inr t'" "phase n R k n 0 t'"
    using foldR_upt [of "\<lambda>i. phase n R k i 0" t n "relax_from n k"] relax_from_phase assms(1-3)
    unfolding relax_through_def by blast
  then show ?thesis by (auto simp: phase_def)
qed

section \<open>A phase keeps every row a tree\<close>

text \<open>\<open>improves R k i j\<close>: the phase through \<open>k\<close> rewrites the entry of \<open>i\<close> and \<open>j\<close>.\<close>

definition improves :: "(nat \<Rightarrow> nat \<Rightarrow> ('w::{plus, ord}) route_internal_data option) \<Rightarrow> nat \<Rightarrow> nat \<Rightarrow>
    nat \<Rightarrow> bool" where
  "improves R k i j \<longleftrightarrow> (\<exists>rf rt. R i k = Some rf \<and> R k j = Some rt \<and>
     (\<forall>old. R i j = Some old \<longrightarrow> rid_weight rf + rid_weight rt < rid_weight old))"

lemma relaxed_improves:
  assumes "improves R k i j" and "R i k = Some rf" and "R k j = Some rt"
  shows "relaxed R k i j = Some \<lparr>rid_weight = rid_weight rf + rid_weight rt,
    prev_edge = (if prev_edge rt \<noteq> None then prev_edge rt else prev_edge rf)\<rparr>"
  using assms by (auto simp: improves_def relaxed_def Let_def split: option.splits)

lemma relaxed_not_improves: "\<not> improves R k i j \<Longrightarrow> relaxed R k i j = R i j"
  by (auto simp: improves_def relaxed_def Let_def split: option.splits)

context weight_laws
begin

lemma not_improves_through:
  assumes "row_ok ok g n i (R i)" and "row_ok ok g n k (R k)" and "k < n"
  shows "\<not> improves R k i k"
proof
  assume "improves R k i k"
  then obtain rf where rf: "R i k = Some rf" "rid_weight rf + 0 < rid_weight rf"
    using row_ok_root [OF assms(2)] by (auto simp: improves_def)
  then show False using plus_zero [of "rid_weight rf"] row_ok_weight [OF assms(1,3)]
    by (simp add: wle_def)
qed

lemma not_improves_row:
  assumes "row_ok ok g n k (R k)" and "j < n"
  shows "\<not> improves R k k j"
proof
  assume "improves R k k j"
  then obtain rt where rt: "R k j = Some rt" "0 + rid_weight rt < rid_weight rt"
    using row_ok_root [OF assms(1)] by (auto simp: improves_def)
  then show False using zero_plus [of "rid_weight rt"] row_ok_weight [OF assms]
    by (simp add: wle_def)
qed

lemma not_improves_root:
  assumes "row_ok ok g n i (R i)" and "row_ok ok g n k (R k)" and "i < n" "k < n"
  shows "\<not> improves R k i i"
proof
  assume "improves R k i i"
  then obtain rf rt where r: "R i k = Some rf" "R k i = Some rt"
    and "rid_weight rf + rid_weight rt < 0"
    using row_ok_root [OF assms(1)] by (auto simp: improves_def)
  moreover have "ok (rid_weight rf + rid_weight rt)"
    using r row_ok_weight assms by (blast intro: ok_plus)
  ultimately show False using zero_least by (auto simp: wle_def)
qed

lemma relaxed_below:
  assumes "row_ok ok g n i (R i)" and "row_ok ok g n k (R k)" and "k < n" "u < n"
    and "R i k = Some rf" and "R k u = Some du"
  shows "\<exists>d'. relaxed R k i u = Some d' \<and> wle (rid_weight d') (rid_weight rf + rid_weight du)"
proof -
  have oks: "ok (rid_weight rf)" "ok (rid_weight du)" using row_ok_weight assms by blast+
  show ?thesis
  proof (cases "improves R k i u")
    case True
    then show ?thesis using assms(5,6) oks by (auto simp: relaxed_improves intro: wle_refl ok_plus)
  next
    case False
    then obtain old where "R i u = Some old" "\<not> rid_weight rf + rid_weight du < rid_weight old"
      using assms(5,6) by (auto simp: improves_def)
    with False show ?thesis by (auto simp: relaxed_not_improves wle_def)
  qed
qed

lemma relaxed_pred_improves:
  assumes rows: "row_ok ok g n i (R i)" "row_ok ok g n k (R k)" and "k < n" "j < n"
    and wf: "\<forall>e < length (edges g). edge_from (edges g ! e) < n"
    and imp: "improves R k i j" and r: "R i k = Some rf" "R k j = Some rt"
  obtains e d' where "prev_edge rt = Some e" and "e < length (edges g)"
    and "edge_to (edges g ! e) = j"
    and "relaxed R k i j = Some \<lparr>rid_weight = rid_weight rf + rid_weight rt, prev_edge = Some e\<rparr>"
    and "relaxed R k i (edge_from (edges g ! e)) = Some d'"
    and "wle (rid_weight d') (rid_weight rf + rid_weight rt)"
proof -
  have "prev_edge rt \<noteq> None"
    using row_ok_prev_None [OF rows(2) \<open>j < n\<close> r(2)] not_improves_through [OF rows \<open>k < n\<close>] imp by auto
  then obtain e where e: "prev_edge rt = Some e" by auto
  note p = row_ok_prev_Some [OF rows(2) \<open>j < n\<close> r(2) e]
  define u where "u = edge_from (edges g ! e)"
  obtain du where du: "R k u = Some du" "wle (rid_weight du) (rid_weight rt)"
    using p(3) by (auto simp: u_def)
  have u: "u < n" using wf p(1) by (simp add: u_def)
  obtain d' where d': "relaxed R k i u = Some d'"
      "wle (rid_weight d') (rid_weight rf + rid_weight du)"
    using relaxed_below [OF rows \<open>k < n\<close> u r(1) du(1)] by blast
  have oks: "ok (rid_weight rf)" "ok (rid_weight rt)" "ok (rid_weight du)"
    using row_ok_weight rows r du u assms(3,4) by blast+
  have okd: "ok (rid_weight d')"
    using relaxed_below [OF rows \<open>k < n\<close> u r(1) du(1)] d' oks row_ok_weight [OF rows(1) u]
    by (cases "improves R k i u")
      (auto simp: relaxed_improves [OF _ r(1) du(1)] relaxed_not_improves intro: ok_plus)
  have "wle (rid_weight rf + rid_weight du) (rid_weight rf + rid_weight rt)"
    using oks du(2) by (blast intro: plus_mono wle_refl)
  then have "wle (rid_weight d') (rid_weight rf + rid_weight rt)"
    using wle_trans [OF okd _ _ d'(2)] oks by (blast intro: ok_plus)
  with that e p d'(1) relaxed_improves [OF imp r] show ?thesis by (simp add: u_def)
qed

lemma relaxed_pred_keeps:
  assumes rows: "row_ok ok g n i (R i)" "row_ok ok g n k (R k)" and "k < n" "j < n"
    and wf: "\<forall>e < length (edges g). edge_from (edges g ! e) < n"
    and r: "R i j = Some d" "prev_edge d = Some e"
  shows "\<exists>d'. relaxed R k i (edge_from (edges g ! e)) = Some d' \<and>
    wle (rid_weight d') (rid_weight d) \<and>
    (improves R k i (edge_from (edges g ! e)) \<longrightarrow> rid_weight d' < rid_weight d)"
proof -
  note p = row_ok_prev_Some [OF rows(1) \<open>j < n\<close> r]
  define u where "u = edge_from (edges g ! e)"
  have u: "u < n" using wf p(1) by (simp add: u_def)
  obtain du where du: "R i u = Some du" "wle (rid_weight du) (rid_weight d)"
    using p(3) by (auto simp: u_def)
  have oks: "ok (rid_weight d)" "ok (rid_weight du)" using row_ok_weight rows(1) r du u \<open>j < n\<close> by blast+
  show ?thesis
  proof (cases "improves R k i u")
    case True
    then obtain rf rt where rt: "R i k = Some rf" "R k u = Some rt"
      "rid_weight rf + rid_weight rt < rid_weight du"
      using du(1) by (auto simp: improves_def)
    have okc: "ok (rid_weight rf + rid_weight rt)"
      using row_ok_weight rows rt u \<open>k < n\<close> by (blast intro: ok_plus)
    then have "rid_weight rf + rid_weight rt < rid_weight d"
      using less_wle_trans rt(3) du(2) oks by blast
    then show ?thesis
      using relaxed_improves [OF True rt(1,2)] less_imp_wle okc oks by (auto simp: u_def)
  next
    case False
    then show ?thesis using du by (simp add: u_def relaxed_not_improves)
  qed
qed

end

subsection \<open>A rank for the new predecessor edges\<close>

text \<open>
  Along new predecessor edges weights do not grow; where an edge leads from an entry the phase kept
  to one it improved, they strictly shrink. So the number of lighter entries, then whether the
  entry was improved, then the old ranks give a measure.
\<close>

definition lighter :: "nat \<Rightarrow> (nat \<Rightarrow> ('w::ord) route_internal_data option) \<Rightarrow> nat \<Rightarrow> nat" where
  "lighter n r j = card {v. v < n \<and> (\<exists>dv dj. r v = Some dv \<and> r j = Some dj \<and>
     rid_weight dv < rid_weight dj)}"

definition new_rank :: "nat \<Rightarrow> (nat \<Rightarrow> nat \<Rightarrow> ('w::{plus, ord}) route_internal_data option) \<Rightarrow> nat \<Rightarrow>
    nat \<Rightarrow> (nat \<Rightarrow> nat) \<Rightarrow> (nat \<Rightarrow> nat) \<Rightarrow> nat \<Rightarrow> nat" where
  "new_rank n R k i ri rk j =
     (let N = (\<Sum>v<n. ri v + rk v)
      in lighter n (relaxed R k i) j * (2 * N + 2) +
         (if improves R k i j then N + 1 + rk j else ri j))"

lemma rank_bound:
  fixes ri rk :: "nat \<Rightarrow> nat"
  assumes "v < n"
  shows "ri v + rk v \<le> (\<Sum>v<n. ri v + rk v)"
  using assms by (intro member_le_sum) auto

lemma new_rank_same:
  assumes "lighter n (relaxed R k i) u \<le> lighter n (relaxed R k i) j" and "u < n"
    and "improves R k i j \<longrightarrow> (if improves R k i u then rk u < rk j else True)"
    and "\<not> improves R k i j \<longrightarrow> \<not> improves R k i u \<and> ri u < ri j"
  shows "new_rank n R k i ri rk u < new_rank n R k i ri rk j"
proof -
  have b: "ri u + rk u \<le> (\<Sum>v<n. ri v + rk v)" using \<open>u < n\<close> by (rule rank_bound)
  have "(if improves R k i u then (\<Sum>v<n. ri v + rk v) + 1 + rk u else ri u)
      < (if improves R k i j then (\<Sum>v<n. ri v + rk v) + 1 + rk j else ri j)"
    using assms(3,4) b by (auto split: if_splits)
  then show ?thesis
    unfolding new_rank_def Let_def by (intro add_le_less_mono mult_le_mono1 assms(1))
qed

lemma new_rank_drop:
  assumes "lighter n (relaxed R k i) u < lighter n (relaxed R k i) j" and "u < n"
  shows "new_rank n R k i ri rk u < new_rank n R k i ri rk j"
proof -
  define M where "M = 2 * (\<Sum>v<n. ri v + rk v) + 2"
  have b: "(if improves R k i u then (\<Sum>v<n. ri v + rk v) + 1 + rk u else ri u) < M"
    using rank_bound [OF \<open>u < n\<close>, of ri rk] by (simp add: M_def)
  have "lighter n (relaxed R k i) u * M + M \<le> lighter n (relaxed R k i) j * M"
    using assms(1) by (metis Suc_leI add.commute mult_Suc mult_le_mono1)
  with b show ?thesis unfolding new_rank_def Let_def M_def [symmetric] by linarith
qed

lemma lighter_eq:
  "r j = Some dj \<Longrightarrow> lighter n r j =
     card {v. v < n \<and> (\<exists>dv. r v = Some dv \<and> rid_weight dv < rid_weight dj)}"
  by (simp add: lighter_def)

context weight_laws
begin

lemma lighter_mono:
  assumes oks: "\<And>v d. v < n \<Longrightarrow> r v = Some d \<Longrightarrow> ok (rid_weight d)"
    and "u < n" "j < n" and u: "r u = Some du" and j: "r j = Some dj"
    and le: "wle (rid_weight du) (rid_weight dj)"
  shows "lighter n r u \<le> lighter n r j"
proof -
  have "rid_weight dv < rid_weight dj" if "v < n" "r v = Some dv" "rid_weight dv < rid_weight du" for v dv
    using less_wle_trans [OF _ _ _ that(3) le] oks that(1,2) assms(2,3) u j by blast
  then show ?thesis unfolding lighter_eq [where r = r and j = u, OF u] lighter_eq [where r = r and j = j, OF j] by (intro card_mono) auto
qed

lemma lighter_strict:
  assumes oks: "\<And>v d. v < n \<Longrightarrow> r v = Some d \<Longrightarrow> ok (rid_weight d)"
    and "u < n" "j < n" and u: "r u = Some du" and j: "r j = Some dj"
    and lt: "rid_weight du < rid_weight dj"
  shows "lighter n r u < lighter n r j"
proof -
  have ok: "ok (rid_weight du)" "ok (rid_weight dj)" using oks assms(2,3) u j by blast+
  have le: "wle (rid_weight du) (rid_weight dj)" using less_imp_wle ok lt by blast
  have "rid_weight dv < rid_weight dj" if "v < n" "r v = Some dv" "rid_weight dv < rid_weight du" for v dv
    using less_wle_trans [OF _ _ _ that(3) le] oks that(1,2) ok by blast
  then have "{v. v < n \<and> (\<exists>dv. r v = Some dv \<and> rid_weight dv < rid_weight du)}
      \<subseteq> {v. v < n \<and> (\<exists>dv. r v = Some dv \<and> rid_weight dv < rid_weight dj)}" (is "?A \<subseteq> ?B")
    by auto
  moreover have "u \<in> ?B" using lt u \<open>u < n\<close> by auto
  moreover have "u \<notin> ?A" using less_irrefl_ok [OF ok(1)] u by auto
  ultimately have "?A \<subset> ?B" by blast
  then show ?thesis
    unfolding lighter_eq [where r = r and j = u, OF u] lighter_eq [where r = r and j = j, OF j]
    by (intro psubset_card_mono) auto
qed

text \<open>The phase keeps every row a tree.\<close>

lemma relaxed_weight_ok:
  assumes "row_ok ok g n i (R i)" and "row_ok ok g n k (R k)" and "k < n" "j < n"
    and "relaxed R k i j = Some d"
  shows "ok (rid_weight d)"
proof (cases "improves R k i j")
  case True
  then obtain rf rt where r: "R i k = Some rf" "R k j = Some rt" by (auto simp: improves_def)
  then have "ok (rid_weight rf + rid_weight rt)" using row_ok_weight assms by (blast intro: ok_plus)
  then show ?thesis using relaxed_improves [OF True r] assms(5) by auto
next
  case False
  then show ?thesis using relaxed_not_improves row_ok_weight assms by metis
qed

lemma relaxed_rank:
  assumes rows: "row_ok ok g n i (R i)" "row_ok ok g n k (R k)" and "k < n" "j < n"
    and wf: "\<forall>e < length (edges g). edge_from (edges g ! e) < n"
    and d: "relaxed R k i j = Some d" "prev_edge d = Some e"
    and ri: "\<forall>j < n. \<forall>d e. R i j = Some d \<longrightarrow> prev_edge d = Some e \<longrightarrow>
      ri (edge_from (edges g ! e)) < ri j"
    and rk: "\<forall>j < n. \<forall>d e. R k j = Some d \<longrightarrow> prev_edge d = Some e \<longrightarrow>
      rk (edge_from (edges g ! e)) < rk j"
  shows "new_rank n R k i ri rk (edge_from (edges g ! e)) < new_rank n R k i ri rk j"
proof -
  define u where "u = edge_from (edges g ! e)"
  note oks = relaxed_weight_ok [OF rows \<open>k < n\<close>]
  show ?thesis
  proof (cases "improves R k i j")
    case True
    then obtain rf rt where r: "R i k = Some rf" "R k j = Some rt" by (auto simp: improves_def)
    obtain e' d' where e': "prev_edge rt = Some e'" "e' < length (edges g)"
        "relaxed R k i j = Some \<lparr>rid_weight = rid_weight rf + rid_weight rt, prev_edge = Some e'\<rparr>"
        "relaxed R k i (edge_from (edges g ! e')) = Some d'"
        "wle (rid_weight d') (rid_weight rf + rid_weight rt)"
      by (rule relaxed_pred_improves [OF rows assms(3,4) wf True r])
    then have e: "prev_edge rt = Some e" "e < length (edges g)"
        "relaxed R k i u = Some d'" "wle (rid_weight d') (rid_weight d)"
      using d by (auto simp: u_def)
    have "u < n" using wf e(2) by (simp add: u_def)
    moreover have "lighter n (relaxed R k i) u \<le> lighter n (relaxed R k i) j"
      by (rule lighter_mono [OF _ \<open>u < n\<close> \<open>j < n\<close> e(3) d(1) e(4)]) (rule oks)
    moreover have "rk u < rk j" using rk r e \<open>j < n\<close> by (simp add: u_def)
    ultimately show ?thesis using True by (simp add: new_rank_same flip: u_def)
  next
    case False
    then have r: "R i j = Some d" using d by (simp add: relaxed_not_improves)
    obtain d' where e: "relaxed R k i u = Some d'" "wle (rid_weight d') (rid_weight d)"
        "improves R k i u \<longrightarrow> rid_weight d' < rid_weight d"
      using relaxed_pred_keeps [OF rows assms(3,4) wf r d(2)] by (auto simp: u_def)
    have "u < n" using wf row_ok_prev_Some(1) [OF rows(1) \<open>j < n\<close> r d(2)] by (simp add: u_def)
    moreover have "ri u < ri j" using ri r d(2) \<open>j < n\<close> by (simp add: u_def)
    moreover have "lighter n (relaxed R k i) u \<le> lighter n (relaxed R k i) j"
      by (rule lighter_mono [OF _ \<open>u < n\<close> \<open>j < n\<close> e(1) d(1) e(2)]) (rule oks)
    moreover have "lighter n (relaxed R k i) u < lighter n (relaxed R k i) j" if "improves R k i u"
      by (rule lighter_strict [OF _ \<open>u < n\<close> \<open>j < n\<close> e(1) d(1) e(3) [rule_format, OF that]]) (rule oks)
    ultimately show ?thesis using False new_rank_drop
      by (cases "improves R k i u") (auto simp: new_rank_same simp flip: u_def)
  qed
qed

lemma row_ok_relaxed:
  assumes rows: "row_ok ok g n i (R i)" "row_ok ok g n k (R k)" and "k < n" "i < n"
    and wf: "\<forall>e < length (edges g). edge_from (edges g ! e) < n"
  shows "row_ok ok g n i (relaxed R k i)"
proof -
  obtain ri :: "nat \<Rightarrow> nat" where ri: "\<forall>j < n. \<forall>d e. R i j = Some d \<longrightarrow> prev_edge d = Some e \<longrightarrow>
      ri (edge_from (edges g ! e)) < ri j" using rows(1) by (auto simp: row_ok_def)
  obtain rk :: "nat \<Rightarrow> nat" where rk: "\<forall>j < n. \<forall>d e. R k j = Some d \<longrightarrow> prev_edge d = Some e \<longrightarrow>
      rk (edge_from (edges g ! e)) < rk j" using rows(2) by (auto simp: row_ok_def)
  have root: "relaxed R k i i = Some \<lparr>rid_weight = 0, prev_edge = None\<rparr>"
    using not_improves_root [OF rows \<open>i < n\<close> \<open>k < n\<close>] row_ok_root [OF rows(1)]
    by (simp add: relaxed_not_improves)
  have tree: "case prev_edge d of None \<Rightarrow> j = i
      | Some e \<Rightarrow> e < length (edges g) \<and> edge_to (edges g ! e) = j \<and>
          (\<exists>d'. relaxed R k i (edge_from (edges g ! e)) = Some d' \<and> wle (rid_weight d') (rid_weight d))"
    if jd: "j < n" "relaxed R k i j = Some d" for j d
  proof (cases "improves R k i j")
    case True
    then obtain rf rt where r: "R i k = Some rf" "R k j = Some rt" by (auto simp: improves_def)
    obtain e d' where "prev_edge rt = Some e" "e < length (edges g)" "edge_to (edges g ! e) = j"
        "relaxed R k i j = Some \<lparr>rid_weight = rid_weight rf + rid_weight rt, prev_edge = Some e\<rparr>"
        "relaxed R k i (edge_from (edges g ! e)) = Some d'"
        "wle (rid_weight d') (rid_weight rf + rid_weight rt)"
      by (rule relaxed_pred_improves [OF rows \<open>k < n\<close> jd(1) wf True r])
    then show ?thesis using jd(2) by auto
  next
    case False
    then have r: "R i j = Some d" using jd by (simp add: relaxed_not_improves)
    show ?thesis
      using row_ok_prev_None [OF rows(1) jd(1) r] row_ok_prev_Some [OF rows(1) jd(1) r]
        relaxed_pred_keeps [OF rows \<open>k < n\<close> jd(1) wf r] by (auto split: option.split)
  qed
  have rank: "\<forall>j < n. \<forall>d e. relaxed R k i j = Some d \<longrightarrow> prev_edge d = Some e \<longrightarrow>
      new_rank n R k i ri rk (edge_from (edges g ! e)) < new_rank n R k i ri rk j"
    by (intro allI impI) (rule relaxed_rank [OF rows \<open>k < n\<close> _ wf _ _ ri rk])
  then have ex: "\<exists>r :: nat \<Rightarrow> nat. \<forall>j < n. \<forall>d e. relaxed R k i j = Some d \<longrightarrow>
      prev_edge d = Some e \<longrightarrow> r (edge_from (edges g ! e)) < r j"
    by (rule exI [where x = "new_rank n R k i ri rk"])
  have "\<forall>j < n. \<forall>d. relaxed R k i j = Some d \<longrightarrow> ok (rid_weight d) \<and>
      (case prev_edge d of None \<Rightarrow> j = i
       | Some e \<Rightarrow> e < length (edges g) \<and> edge_to (edges g ! e) = j \<and>
          (\<exists>d'. relaxed R k i (edge_from (edges g ! e)) = Some d' \<and> wle (rid_weight d') (rid_weight d)))"
    using tree relaxed_weight_ok [OF rows \<open>k < n\<close>] by simp
  with root ex show ?thesis unfolding row_ok_def by (intro conjI)
qed

end

section \<open>Walks through the first vertices\<close>

text \<open>\<open>via g k i ids j\<close>: \<open>ids\<close> leads from \<open>i\<close> to \<open>j\<close> and all vertices between are below \<open>k\<close>.\<close>

inductive via :: "'w graph \<Rightarrow> nat \<Rightarrow> nat \<Rightarrow> nat list \<Rightarrow> nat \<Rightarrow> bool" for g k where
  via_refl: "via g k i [] i"
| via_edge: "e < length (edges g) \<Longrightarrow> via g k (edge_from (edges g ! e)) [e] (edge_to (edges g ! e))"
| via_trans: "via g k i xs u \<Longrightarrow> via g k u ys j \<Longrightarrow> u < k \<Longrightarrow> via g k i (xs @ ys) j"

inductive_cases via_0E: "via g 0 i ids j"

lemma path_via:
  assumes "graph_wf g"
  shows "path g i ids j \<Longrightarrow> via g (get_vertex_count g) i ids j"
proof (induction ids arbitrary: i)
  case Nil
  then show ?case by (simp add: via_refl)
next
  case (Cons e ids)
  then have "via g (get_vertex_count g) i ([e] @ ids) j"
    using via_edge [of e g] graph_wf_edge(2) [OF assms] by (intro via_trans) auto
  then show ?case by simp
qed

lemma via_path: "via g k i ids j \<Longrightarrow> path g i ids j"
  by (induction rule: via.induct) (auto simp: path_append)

lemma via_Suc:
  "via g (Suc k) i ids j \<Longrightarrow>
     (\<exists>xs. via g k i xs j \<and> mset xs \<subseteq># mset ids) \<or>
     (\<exists>xs ys. via g k i xs k \<and> via g k k ys j \<and> mset xs + mset ys \<subseteq># mset ids)"
proof (induction rule: via.induct)
  case (via_refl i)
  then show ?case using via.via_refl by fastforce
next
  case (via_edge e)
  then show ?case using via.via_edge by fastforce
next
  case (via_trans i xs u ys j)
  have join: "A \<subseteq># mset xs \<Longrightarrow> B \<subseteq># mset ys \<Longrightarrow> A + B \<subseteq># mset (xs @ ys)" for A B
    by (simp add: subset_mset.add_mono)
  have left: "A \<subseteq># mset xs \<Longrightarrow> A \<subseteq># mset (xs @ ys)" and right: "B \<subseteq># mset ys \<Longrightarrow> B \<subseteq># mset (xs @ ys)"
    for A B by (simp_all add: subset_mset.add_increasing subset_mset.add_increasing2)
  show ?case
  proof (cases "u = k")
    case True
    obtain a where a: "via g k i a k" "mset a \<subseteq># mset xs"
      using via_trans.IH(1) True mset_subset_eq_add_left subset_mset.order_trans by metis
    obtain b where b: "via g k k b j" "mset b \<subseteq># mset ys"
      using via_trans.IH(2) True mset_subset_eq_add_right subset_mset.order_trans by metis
    show ?thesis using a b join by blast
  next
    case False
    then have u: "u < k" using via_trans.hyps by simp
    from via_trans.IH(1) show ?thesis
    proof (elim disjE exE conjE)
      fix a assume a: "via g k i a u" "mset a \<subseteq># mset xs"
      from via_trans.IH(2) show ?thesis
      proof (elim disjE exE conjE)
        fix b assume b: "via g k u b j" "mset b \<subseteq># mset ys"
        then show ?thesis using via.via_trans [OF a(1) b(1) u] join [OF a(2) b(2)] by auto
      next
        fix b c assume b: "via g k u b k" "via g k k c j" "mset b + mset c \<subseteq># mset ys"
        have "mset (a @ b) + mset c \<subseteq># mset (xs @ ys)" using join [OF a(2) b(3)]
          by (simp add: add.assoc)
        then show ?thesis using via.via_trans [OF a(1) b(1) u] b(2) by blast
      qed
    next
      fix a c assume a: "via g k i a k" "via g k k c u" "mset a + mset c \<subseteq># mset xs"
      from via_trans.IH(2) show ?thesis
      proof (elim disjE exE conjE)
        fix b assume b: "via g k u b j" "mset b \<subseteq># mset ys"
        have "mset a + mset (c @ b) \<subseteq># mset (xs @ ys)" using join [OF a(3) b(2)]
          by (simp add: add.assoc)
        then show ?thesis using via.via_trans [OF a(2) b(1) u] a(1) by blast
      next
        fix b d assume b: "via g k u b k" "via g k k d j" "mset b + mset d \<subseteq># mset ys"
        have "mset a + mset d \<subseteq># mset (xs @ ys)"
          using join [of "mset a" "mset d"] a(3) b(3) mset_subset_eq_add_left mset_subset_eq_add_right
            subset_mset.order_trans by metis
        then show ?thesis using a(1) b(2) by blast
      qed
    qed
  qed
qed

end
