(* ===== verification/Router_Total.thy ===== *)
theory Router_Total
  imports Router_Correct
begin

text \<open>
  The constructor and \<^verbatim>\<open>BuildRoute\<close> as wholes, for lawful weights: initialisation establishes
  the row invariant, all phases keep it, and following predecessor edges ends at the root of
  the row with a path of the graph.
\<close>

definition weights_ok :: "('w \<Rightarrow> bool) \<Rightarrow> 'w graph \<Rightarrow> bool" where
  "weights_ok ok g \<longleftrightarrow> (\<forall>e \<in> set (edges g). ok (edge_weight e))"

definition table_ok :: "('w::{zero, plus, ord} \<Rightarrow> bool) \<Rightarrow> 'w graph \<Rightarrow> 'w routes_internal_data \<Rightarrow> bool" where
  "table_ok ok g t \<longleftrightarrow> shape (get_vertex_count g) t \<and>
     (\<forall>i < get_vertex_count g. row_ok ok g (get_vertex_count g) i (\<lambda>j. t ! i ! j))"

text \<open>Every edge has an entry at most as heavy, and the entries are edges or the roots.\<close>

definition direct_ok :: "('w::ord) graph \<Rightarrow> 'w routes_internal_data \<Rightarrow> bool" where
  "direct_ok g t \<longleftrightarrow> (\<forall>e < length (edges g).
     \<exists>d. t ! edge_from (edges g ! e) ! edge_to (edges g ! e) = Some d \<and>
         wle (rid_weight d) (edge_weight (edges g ! e))) \<and>
     (\<forall>i < get_vertex_count g. \<forall>j < get_vertex_count g. \<forall>d e. t ! i ! j = Some d \<longrightarrow>
        prev_edge d = Some e \<longrightarrow> edge_from (edges g ! e) = i \<and> rid_weight d = edge_weight (edges g ! e))"

lemma graph_wf_from: "graph_wf g \<Longrightarrow> \<forall>e < length (edges g). edge_from (edges g ! e) < get_vertex_count g"
  by (simp add: graph_wf_edge)

lemma row_ok_cong:
  assumes "\<forall>j < n. r j = r' j" and "i < n" and "\<forall>e < length (edges g). edge_from (edges g ! e) < n"
    and "row_ok ok g n i r"
  shows "row_ok ok g n i r'"
proof -
  obtain rk :: "nat \<Rightarrow> nat" where rk: "\<forall>j < n. \<forall>d e. r j = Some d \<longrightarrow> prev_edge d = Some e \<longrightarrow>
      rk (edge_from (edges g ! e)) < rk j" using assms(4) by (auto simp: row_ok_def)
  have "\<forall>j < n. \<forall>d. r' j = Some d \<longrightarrow> ok (rid_weight d) \<and> (case prev_edge d of None \<Rightarrow> j = i
      | Some e \<Rightarrow> e < length (edges g) \<and> edge_to (edges g ! e) = j \<and>
          (\<exists>d'. r' (edge_from (edges g ! e)) = Some d' \<and> wle (rid_weight d') (rid_weight d)))"
  proof (intro allI impI)
    fix j d assume j: "j < n" "r' j = Some d"
    then have rj: "r j = Some d" using assms(1) by simp
    show "ok (rid_weight d) \<and> (case prev_edge d of None \<Rightarrow> j = i
      | Some e \<Rightarrow> e < length (edges g) \<and> edge_to (edges g ! e) = j \<and>
          (\<exists>d'. r' (edge_from (edges g ! e)) = Some d' \<and> wle (rid_weight d') (rid_weight d)))"
      using row_ok_weight [OF assms(4) j(1) rj] row_ok_prev_None [OF assms(4) j(1) rj]
        row_ok_prev_Some [OF assms(4) j(1) rj] assms(1,3) by (auto split: option.split)
  qed
  moreover have "r' i = Some \<lparr>rid_weight = 0, prev_edge = None\<rparr>"
    using row_ok_root [OF assms(4)] assms(1,2) by simp
  moreover have "\<forall>j < n. \<forall>d e. r' j = Some d \<longrightarrow> prev_edge d = Some e \<longrightarrow>
      rk (edge_from (edges g ! e)) < rk j" using rk assms(1) by simp
  ultimately show ?thesis unfolding row_ok_def by blast
qed

section \<open>Initialisation\<close>

text \<open>Row \<open>v\<close> after the edges \<open>done\<close> of its incidence list.\<close>

definition init_row :: "('w::{zero, ord}) graph \<Rightarrow> nat \<Rightarrow> nat list \<Rightarrow>
    (nat \<Rightarrow> 'w route_internal_data option) \<Rightarrow> bool" where
  "init_row g v done r \<longleftrightarrow>
     r v = Some \<lparr>rid_weight = 0, prev_edge = None\<rparr> \<and>
     (\<forall>j d. j < get_vertex_count g \<longrightarrow> j \<noteq> v \<longrightarrow> r j = Some d \<longrightarrow> (\<exists>e < length (edges g).
        d = \<lparr>rid_weight = edge_weight (edges g ! e), prev_edge = Some e\<rparr> \<and>
        edge_from (edges g ! e) = v \<and> edge_to (edges g ! e) = j)) \<and>
     (\<forall>e \<in> set done. e < length (edges g) \<and> (\<exists>d. r (edge_to (edges g ! e)) = Some d \<and>
        wle (rid_weight d) (edge_weight (edges g ! e))))"

text \<open>Rows below \<open>v\<close> are initialised; rows above it are empty.\<close>

definition init_table :: "('w::{zero, ord}) graph \<Rightarrow> nat \<Rightarrow> 'w routes_internal_data \<Rightarrow> bool" where
  "init_table g v t \<longleftrightarrow> shape (get_vertex_count g) t \<and>
     (\<forall>a < get_vertex_count g.
        if a < v then init_row g a (outgoing g a) (\<lambda>j. t ! a ! j)
        else \<forall>b < get_vertex_count g. t ! a ! b = None)"

definition init_partial :: "('w::{zero, ord}) graph \<Rightarrow> nat \<Rightarrow> nat list \<Rightarrow> 'w routes_internal_data \<Rightarrow> bool" where
  "init_partial g v done t \<longleftrightarrow> shape (get_vertex_count g) t \<and>
     (\<forall>a < get_vertex_count g.
        if a < v then init_row g a (outgoing g a) (\<lambda>j. t ! a ! j)
        else if a = v then init_row g v done (\<lambda>j. t ! v ! j)
        else \<forall>b < get_vertex_count g. t ! a ! b = None)"

context weight_laws
begin

lemma init_row_row_ok:
  assumes wf: "graph_wf g" and "weights_ok ok g" and "v < get_vertex_count g" and r: "init_row g v ids r"
  shows "row_ok ok g (get_vertex_count g) v r"
proof -
  have root: "r v = Some \<lparr>rid_weight = 0, prev_edge = None\<rparr>" using r by (simp add: init_row_def)
  have edge: "\<exists>e < length (edges g). d = \<lparr>rid_weight = edge_weight (edges g ! e), prev_edge = Some e\<rparr> \<and>
      edge_from (edges g ! e) = v \<and> edge_to (edges g ! e) = j"
    if "j < get_vertex_count g" "j \<noteq> v" "r j = Some d" for j d
    using r that by (simp add: init_row_def)
  have okw: "ok (edge_weight (edges g ! e))" if "e < length (edges g)" for e
    using assms(2) that by (simp add: weights_ok_def)
  have "\<forall>j < get_vertex_count g. \<forall>d. r j = Some d \<longrightarrow> ok (rid_weight d) \<and>
      (case prev_edge d of None \<Rightarrow> j = v
       | Some e \<Rightarrow> e < length (edges g) \<and> edge_to (edges g ! e) = j \<and>
          (\<exists>d'. r (edge_from (edges g ! e)) = Some d' \<and> wle (rid_weight d') (rid_weight d)))"
  proof (intro allI impI)
    fix j d assume j: "j < get_vertex_count g" "r j = Some d"
    show "ok (rid_weight d) \<and> (case prev_edge d of None \<Rightarrow> j = v
       | Some e \<Rightarrow> e < length (edges g) \<and> edge_to (edges g ! e) = j \<and>
          (\<exists>d'. r (edge_from (edges g ! e)) = Some d' \<and> wle (rid_weight d') (rid_weight d)))"
      using edge [OF j(1) _ j(2)] root j(2) okw ok_zero zero_least by (cases "j = v") auto
  qed
  moreover have "\<forall>j < get_vertex_count g. \<forall>d e. r j = Some d \<longrightarrow> prev_edge d = Some e \<longrightarrow>
      (if edge_from (edges g ! e) = v then 0 else 1 :: nat) < (if j = v then 0 else 1)"
  proof (intro allI impI)
    fix j d e assume j: "j < get_vertex_count g" "r j = Some d" "prev_edge d = Some e"
    then have "j \<noteq> v" using root by auto
    with edge [OF j(1) _ j(2)] j(3) show "(if edge_from (edges g ! e) = v then 0 else 1 :: nat) <
        (if j = v then 0 else 1)" by auto
  qed
  then have "\<exists>rk :: nat \<Rightarrow> nat. \<forall>j < get_vertex_count g. \<forall>d e. r j = Some d \<longrightarrow> prev_edge d = Some e \<longrightarrow>
      rk (edge_from (edges g ! e)) < rk j"
    by (rule exI [where x = "\<lambda>u. if u = v then 0 else 1"])
  ultimately show ?thesis unfolding row_ok_def using root by (intro conjI)
qed

lemma init_edge_step:
  assumes wf: "graph_wf g" and w: "weights_ok ok g" and v: "v < get_vertex_count g"
    and e: "e < length (edges g)" "edge_from (edges g ! e) = v" and p: "init_partial g v ids t"
  shows "\<exists>t'. init_edge g v t e = Inr t' \<and> init_partial g v (ids @ [e]) t'"
proof -
  define j where "j = edge_to (edges g ! e)"
  define we where "we = edge_weight (edges g ! e)"
  define d where "d = \<lparr>rid_weight = we, prev_edge = Some e\<rparr>"
  have j: "j < get_vertex_count g" using graph_wf_edge [OF wf e(1)] by (simp add: j_def)
  have ok: "ok we" using w e by (simp add: weights_ok_def we_def)
  then have nn: "\<not> we < 0" using zero_least by (simp add: wle_def)
  have sh: "shape (get_vertex_count g) t" and row: "init_row g v ids (\<lambda>j. t ! v ! j)"
    using p v by (auto simp: init_partial_def)
  define better where "better \<longleftrightarrow> (\<forall>old. t ! v ! j = Some old \<longrightarrow> we < rid_weight old)"
  define t' where "t' = (if better then upd t v j (Some d) else t)"
  have step: "init_edge g v t e = Inr t'"
    using e(1) nn sh v j
    by (auto simp: init_edge_def get_edge_def tbl_get_shape tbl_set_shape t'_def better_def Let_def
        d_def we_def j_def split: option.split)
  have okold: "ok (rid_weight old)" if "t ! v ! j' = Some old" "j' < get_vertex_count g" for old j'
    using row_ok_weight [OF init_row_row_ok [OF wf w v row]] that by blast
  have "init_row g v (ids @ [e]) (\<lambda>b. if b = j then Some d else t ! v ! b)" if better
  proof -
    have "j \<noteq> v" using that row nn by (auto simp: better_def init_row_def)
    have "\<exists>d'. (if edge_to (edges g ! e') = j then Some d else t ! v ! edge_to (edges g ! e')) = Some d' \<and>
        wle (rid_weight d') (edge_weight (edges g ! e'))" if e': "e' \<in> set ids" for e'
    proof (cases "edge_to (edges g ! e') = j")
      case True
      obtain old where old: "t ! v ! j = Some old" "wle (rid_weight old) (edge_weight (edges g ! e'))"
        using row e' True by (auto simp: init_row_def)
      have "we < rid_weight old" using \<open>better\<close> old(1) by (simp add: better_def)
      moreover have "ok (rid_weight old)" by (rule okold [OF old(1) j])
      moreover have "ok (edge_weight (edges g ! e'))" using w row e'
        by (simp add: weights_ok_def init_row_def)
      ultimately have "wle we (edge_weight (edges g ! e'))"
        using wle_trans [of we "rid_weight old" "edge_weight (edges g ! e')"] less_imp_wle ok old(2)
        by blast
      then show ?thesis using True by (simp add: d_def)
    qed (use row e' in \<open>auto simp: init_row_def\<close>)
    then show ?thesis using row e \<open>j \<noteq> v\<close> wle_refl [OF ok]
      by (auto simp: init_row_def d_def we_def j_def)
  qed
  moreover have "init_row g v (ids @ [e]) (\<lambda>b. t ! v ! b)" if "\<not> better"
    using that row e(1) by (auto simp: init_row_def better_def wle_def j_def we_def)
  ultimately have new: "init_row g v (ids @ [e]) (\<lambda>b. t' ! v ! b)"
    using upd_row [OF sh v j, of "Some d"] by (auto simp: t'_def)
  have other: "t' ! a = t ! a" if "a \<noteq> v" for a using that by (simp add: t'_def upd_other)
  have "if a < v then init_row g a (outgoing g a) (\<lambda>j. t' ! a ! j)
        else if a = v then init_row g v (ids @ [e]) (\<lambda>j. t' ! v ! j)
        else \<forall>b < get_vertex_count g. t' ! a ! b = None" if "a < get_vertex_count g" for a
  proof (cases "a = v")
    case True
    then show ?thesis using new by simp
  next
    case False
    have "if a < v then init_row g a (outgoing g a) (\<lambda>j. t ! a ! j)
        else if a = v then init_row g v ids (\<lambda>j. t ! v ! j)
        else \<forall>b < get_vertex_count g. t ! a ! b = None"
      using p that unfolding init_partial_def by blast
    then show ?thesis using False by (simp only: other [OF False] if_False)
  qed
  moreover have "shape (get_vertex_count g) t'" using sh by (simp add: t'_def)
  ultimately have "init_partial g v (ids @ [e]) t'" by (simp add: init_partial_def)
  then show ?thesis using step by blast
qed

lemma init_vertex_step:
  assumes wf: "graph_wf g" and w: "weights_ok ok g" and v: "v < get_vertex_count g"
    and p: "init_table g v t"
  shows "\<exists>t'. init_vertex g t v = Inr t' \<and> init_table g (Suc v) t'"
proof -
  define t0 where "t0 = upd t v v (Some \<lparr>rid_weight = 0, prev_edge = None\<rparr>)"
  have sh: "shape (get_vertex_count g) t" using p by (simp add: init_table_def)
  have inc: "get_incident_edges g v = Inr (as_range (outgoing g v))"
    using wf v by (simp add: get_incident_edges_def graph_wf_def get_vertex_count_def)
  have empty: "t ! v ! b = None" if "b < get_vertex_count g" for b
    using p v that by (simp add: init_table_def)
  have "init_row g v [] (\<lambda>j. t0 ! v ! j)"
    using upd_row [OF sh v v] empty by (simp add: init_row_def t0_def)
  moreover have "t0 ! a = t ! a" if "a \<noteq> v" for a using that by (simp add: t0_def upd_other)
  ultimately have start: "init_partial g v [] t0"
    using p sh by (auto simp: init_partial_def init_table_def t0_def)
  have "\<exists>t'. init_edge g v s e = Inr t' \<and> init_partial g v (ys @ [e]) t'"
    if "outgoing g v = ys @ e # zs" "init_partial g v ys s" for ys e zs s
  proof -
    have "e \<in> set (outgoing g v)" using that(1) by simp
    then show ?thesis using init_edge_step [OF wf w v _ _ that(2)] by (simp add: set_outgoing)
  qed
  then obtain t' where t': "foldR (init_edge g v) t0 (outgoing g v) = Inr t'"
      "init_partial g v (outgoing g v) t'"
    using foldR_prefix [of "init_partial g v" t0 "outgoing g v" "init_edge g v", OF start] by blast
  then have "init_table g (Suc v) t'"
    by (auto simp: init_partial_def init_table_def less_Suc_eq)
  then show ?thesis using t'(1) inc sh v by (simp add: init_vertex_def tbl_set_shape t0_def)
qed

lemma initialize_routes_ok:
  assumes wf: "graph_wf g" and w: "weights_ok ok g" and n: "n = get_vertex_count g"
  shows "\<exists>t. initialize_routes g (replicate n (replicate n None)) = Inr t \<and> table_ok ok g t \<and> direct_ok g t"
proof -
  have "init_table g 0 (replicate n (replicate n None))" by (simp add: init_table_def n)
  then obtain t where t: "initialize_routes g (replicate n (replicate n None)) = Inr t"
      "init_table g (get_vertex_count g) t"
    using foldR_upt [of "init_table g" _ "get_vertex_count g" "init_vertex g"]
      init_vertex_step [OF wf w] unfolding initialize_routes_def by blast
  have row: "init_row g a (outgoing g a) (\<lambda>j. t ! a ! j)" if "a < get_vertex_count g" for a
    using t(2) that by (simp add: init_table_def)
  have "table_ok ok g t"
    using t(2) row init_row_row_ok [OF wf w] by (auto simp: table_ok_def init_table_def)
  moreover have "direct_ok g t"
  proof -
    have "\<exists>d. t ! edge_from (edges g ! e) ! edge_to (edges g ! e) = Some d \<and>
         wle (rid_weight d) (edge_weight (edges g ! e))" if "e < length (edges g)" for e
      using row [OF graph_wf_edge(1) [OF wf that]] that by (simp add: init_row_def set_outgoing)
    moreover have "edge_from (edges g ! e) = i \<and> rid_weight d = edge_weight (edges g ! e)"
      if "i < get_vertex_count g" "j < get_vertex_count g" "t ! i ! j = Some d" "prev_edge d = Some e"
      for i j d e
    proof -
      have root: "t ! i ! i = Some \<lparr>rid_weight = 0, prev_edge = None\<rparr>"
        using row [OF that(1)] by (simp add: init_row_def)
      with that have "j \<noteq> i" by auto
      then have "\<exists>e < length (edges g). d = \<lparr>rid_weight = edge_weight (edges g ! e), prev_edge = Some e\<rparr> \<and>
          edge_from (edges g ! e) = i \<and> edge_to (edges g ! e) = j"
        using row [OF that(1)] that by (simp add: init_row_def)
      then show ?thesis using that(4) by auto
    qed
    ultimately show ?thesis by (simp add: direct_ok_def)
  qed
  ultimately show ?thesis using t(1) by blast
qed

section \<open>The phases\<close>

lemma relax_through_step:
  assumes wf: "graph_wf g" and t: "table_ok ok g t" and k: "k < get_vertex_count g"
  shows "\<exists>t'. relax_through (get_vertex_count g) t k = Inr t' \<and> table_ok ok g t' \<and>
    (\<forall>a < get_vertex_count g. \<forall>b < get_vertex_count g. t' ! a ! b = relaxed (\<lambda>a b. t ! a ! b) k a b)"
proof -
  let ?n = "get_vertex_count g" and ?R = "\<lambda>a b. t ! a ! b"
  have rows: "row_ok ok g ?n i (?R i)" if "i < ?n" for i using t that by (simp add: table_ok_def)
  have "\<forall>j < ?n. relaxed ?R k k j = ?R k j"
    using not_improves_row [where R = ?R, OF rows [OF k]] by (simp add: relaxed_not_improves)
  moreover have "\<forall>i < ?n. relaxed ?R k i k = ?R i k"
    using not_improves_through [where R = ?R, OF rows rows [OF k] k] by (simp add: relaxed_not_improves)
  ultimately obtain t' where t': "relax_through ?n t k = Inr t'" "shape ?n t'"
      "\<forall>a < ?n. \<forall>b < ?n. t' ! a ! b = relaxed ?R k a b"
    using relax_through_relaxed [where R = ?R and t = t and k = k and n = ?n] k t
    by (auto simp: table_ok_def)
  have "row_ok ok g ?n i (\<lambda>j. t' ! i ! j)" if i: "i < ?n" for i
  proof (rule row_ok_cong [OF _ i graph_wf_from [OF wf]])
    show "\<forall>j < ?n. relaxed ?R k i j = t' ! i ! j" using t'(3) i by simp
    show "row_ok ok g ?n i (relaxed ?R k i)"
      using row_ok_relaxed [where R = ?R, OF rows [OF i] rows [OF k] k i graph_wf_from [OF wf]] .
  qed
  then show ?thesis using t' by (auto simp: table_ok_def)
qed

text \<open>The loop rule of the constructor: a property of the table that every phase extends.\<close>

lemma router_new_inv:
  assumes wf: "graph_wf g" and w: "weights_ok ok g"
    and start: "\<And>t. table_ok ok g t \<Longrightarrow> direct_ok g t \<Longrightarrow> P 0 t"
    and phase: "\<And>k t t'. k < get_vertex_count g \<Longrightarrow> table_ok ok g t \<Longrightarrow> P k t \<Longrightarrow> table_ok ok g t' \<Longrightarrow>
      (\<forall>a < get_vertex_count g. \<forall>b < get_vertex_count g.
         t' ! a ! b = relaxed (\<lambda>a b. t ! a ! b) k a b) \<Longrightarrow> P (Suc k) t'"
  shows "\<exists>t. router_new g = Inr t \<and> table_ok ok g t \<and> P (get_vertex_count g) t"
proof -
  let ?n = "get_vertex_count g"
  obtain t0 where t0: "initialize_routes g (replicate ?n (replicate ?n None)) = Inr t0"
      "table_ok ok g t0" "direct_ok g t0"
    using initialize_routes_ok [OF wf w refl] by blast
  have "\<exists>t. foldR (relax_through ?n) t0 [0..<?n] = Inr t \<and> (table_ok ok g t \<and> P ?n t)"
  proof (rule foldR_upt)
    show "table_ok ok g t0 \<and> P 0 t0" using t0 start by blast
    fix k t assume k: "k < ?n" and t: "table_ok ok g t \<and> P k t"
    obtain t' where "relax_through ?n t k = Inr t'" "table_ok ok g t'"
        "\<forall>a < ?n. \<forall>b < ?n. t' ! a ! b = relaxed (\<lambda>a b. t ! a ! b) k a b"
      using relax_through_step [OF wf conjunct1 [OF t] k] by blast
    then show "\<exists>t'. relax_through ?n t k = Inr t' \<and> (table_ok ok g t' \<and> P (Suc k) t')"
      using phase k t by blast
  qed
  then show ?thesis using t0(1) by (auto simp: router_new_def Let_def)
qed

end

section \<open>Which vertices have an entry\<close>

definition reach_ok :: "'w graph \<Rightarrow> nat \<Rightarrow> 'w routes_internal_data \<Rightarrow> bool" where
  "reach_ok g k t \<longleftrightarrow> (\<forall>i < get_vertex_count g. \<forall>j < get_vertex_count g.
     \<forall>ids. via g k i ids j \<longrightarrow> t ! i ! j \<noteq> None)"

lemma relaxed_Some:
  "R i j \<noteq> None \<Longrightarrow> relaxed R k i j \<noteq> None"
  "R i k \<noteq> None \<Longrightarrow> R k j \<noteq> None \<Longrightarrow> relaxed R k i j \<noteq> None"
  by (auto simp: relaxed_def Let_def split: option.splits)

lemma reach_ok_0:
  assumes "table_ok ok g t" and "direct_ok g t"
  shows "reach_ok g 0 t"
proof -
  have "t ! i ! j \<noteq> None" if v: "via g 0 i ids j" and i: "i < get_vertex_count g" for i ids j
  proof -
    have row: "row_ok ok g (get_vertex_count g) i (\<lambda>j. t ! i ! j)"
      using assms(1) i by (simp add: table_ok_def)
    from v have "j = i \<or> (\<exists>e < length (edges g). edge_from (edges g ! e) = i \<and> edge_to (edges g ! e) = j)"
      by (auto elim: via_0E)
    then show ?thesis using row_ok_root [OF row] assms(2) by (auto simp: direct_ok_def)
  qed
  then show ?thesis by (auto simp: reach_ok_def)
qed

lemma reach_ok_Suc:
  assumes "reach_ok g k t" and "k < get_vertex_count g"
    and t': "\<forall>a < get_vertex_count g. \<forall>b < get_vertex_count g.
      t' ! a ! b = relaxed (\<lambda>a b. t ! a ! b) k a b"
  shows "reach_ok g (Suc k) t'"
proof -
  have "t' ! i ! j \<noteq> None"
    if "via g (Suc k) i ids j" "i < get_vertex_count g" "j < get_vertex_count g" for i ids j
    using via_Suc [OF that(1)]
  proof (elim disjE exE conjE)
    fix xs assume "via g k i xs j"
    then have "t ! i ! j \<noteq> None" using assms(1) that by (auto simp: reach_ok_def)
    then show ?thesis using t' that relaxed_Some(1) [of "\<lambda>a b. t ! a ! b"] by simp
  next
    fix xs ys assume "via g k i xs k" "via g k k ys j"
    then have "t ! i ! k \<noteq> None" "t ! k ! j \<noteq> None" using assms that by (auto simp: reach_ok_def)
    then show ?thesis using t' that relaxed_Some(2) [of "\<lambda>a b. t ! a ! b"] by simp
  qed
  then show ?thesis by (simp add: reach_ok_def)
qed

section \<open>Following the predecessor edges\<close>

text \<open>Any property \<open>Q\<close> of routes that predecessor edges extend holds of what \<^verbatim>\<open>BuildRoute\<close> collects.\<close>

lemma collect_edges_row:
  assumes wf: "graph_wf g" and t: "table_ok ok g t" and i: "i < get_vertex_count g"
    and base: "Q i []"
    and step: "\<And>j d e xs. j < get_vertex_count g \<Longrightarrow> t ! i ! j = Some d \<Longrightarrow> prev_edge d = Some e \<Longrightarrow>
      Q (edge_from (edges g ! e)) xs \<Longrightarrow> Q j (xs @ [e])"
  shows "j < get_vertex_count g \<Longrightarrow> t ! i ! j = Some d \<Longrightarrow>
    \<exists>ids. collect_edges g t i (prev_edge d) acc = Some (Inr (acc @ ids)) \<and>
      path g i (rev ids) j \<and> Q j (rev ids)"
proof -
  have sh: "shape (get_vertex_count g) t" and row: "row_ok ok g (get_vertex_count g) i (\<lambda>j. t ! i ! j)"
    using t i by (simp_all add: table_ok_def)
  obtain rk :: "nat \<Rightarrow> nat" where rk: "\<forall>j < get_vertex_count g. \<forall>d e. t ! i ! j = Some d \<longrightarrow>
      prev_edge d = Some e \<longrightarrow> rk (edge_from (edges g ! e)) < rk j"
    using row by (auto simp: row_ok_def)
  show "j < get_vertex_count g \<Longrightarrow> t ! i ! j = Some d \<Longrightarrow>
    \<exists>ids. collect_edges g t i (prev_edge d) acc = Some (Inr (acc @ ids)) \<and>
      path g i (rev ids) j \<and> Q j (rev ids)"
  proof (induction "rk j" arbitrary: j d acc rule: less_induct)
    case less
    show ?case
    proof (cases "prev_edge d")
      case None
      then show ?thesis using row_ok_prev_None [OF row less.prems] base by (simp add: collect_edges.simps)
    next
      case (Some e)
      define u where "u = edge_from (edges g ! e)"
      note p = row_ok_prev_Some [OF row less.prems Some]
      obtain du where du: "t ! i ! u = Some du" using p(3) by (auto simp: u_def)
      have u: "u < get_vertex_count g" using graph_wf_edge [OF wf p(1)] by (simp add: u_def)
      have "rk u < rk j" using rk less.prems Some by (simp add: u_def)
      then obtain ids where ids: "collect_edges g t i (prev_edge du) (acc @ [e]) = Some (Inr ((acc @ [e]) @ ids))"
          "path g i (rev ids) u" "Q u (rev ids)"
        using less.hyps [OF _ u du] by blast
      have "prev_step g t i e = Inr (prev_edge du)"
        using p(1) du tbl_get_shape [OF sh i u] by (simp add: prev_step_def get_edge_def u_def)
      then have "collect_edges g t i (prev_edge d) acc = Some (Inr (acc @ e # ids))"
        using ids(1) Some by (simp add: collect_edges.simps)
      moreover have "path g i (rev (e # ids)) j" using ids(2) p by (auto simp: path_append u_def)
      moreover have "Q j (rev (e # ids))" using step [OF less.prems Some] ids(3) by (simp add: u_def)
      ultimately show ?thesis by blast
    qed
  qed
qed

lemma build_route_row:
  assumes "graph_wf g" and "table_ok ok g t" and "i < get_vertex_count g" and "j < get_vertex_count g"
    and "Q i []"
    and "\<And>j d e xs. j < get_vertex_count g \<Longrightarrow> t ! i ! j = Some d \<Longrightarrow> prev_edge d = Some e \<Longrightarrow>
      Q (edge_from (edges g ! e)) xs \<Longrightarrow> Q j (xs @ [e])"
  shows "case t ! i ! j of None \<Rightarrow> build_route g t i j = Inr None
    | Some d \<Rightarrow> \<exists>ids. build_route g t i j = Inr (Some \<lparr>ri_weight = rid_weight d, ri_edges = ids\<rparr>) \<and>
        path g i ids j \<and> Q j ids"
proof -
  have at: "vec_at t i = Inr (t ! i)" "vec_at (t ! i) j = Inr (t ! i ! j)"
    using assms by (auto simp: table_ok_def shape_def)
  show ?thesis
  proof (cases "t ! i ! j")
    case None
    then show ?thesis using at by (simp add: build_route_def)
  next
    case (Some d)
    obtain ids where "collect_edges g t i (prev_edge d) [] = Some (Inr ids)" "path g i (rev ids) j"
        "Q j (rev ids)"
      using collect_edges_row [where Q = Q and acc = "[]", OF assms(1-3,5) _ assms(4) Some] assms(6)
      unfolding append_Nil by blast
    then show ?thesis using Some at by (simp add: build_route_def)
  qed
qed

text \<open>The contract of the router, for lawful weights.\<close>

definition answers :: "('w::{zero, plus, ord}) graph \<Rightarrow> 'w routes_internal_data \<Rightarrow> bool" where
  "answers g t \<longleftrightarrow> (\<forall>i < get_vertex_count g. \<forall>j < get_vertex_count g.
     case build_route g t i j of
       Inl e \<Rightarrow> False
     | Inr None \<Rightarrow> \<not> (\<exists>ids. path g i ids j)
     | Inr (Some r) \<Rightarrow> path g i (ri_edges r) j)"

context weight_laws
begin

theorem router_answers:
  assumes wf: "graph_wf g" and w: "weights_ok ok g"
  shows "\<exists>t. router_new g = Inr t \<and> table_ok ok g t \<and> answers g t"
proof -
  obtain t where t: "router_new g = Inr t" "table_ok ok g t" "reach_ok g (get_vertex_count g) t"
    using router_new_inv [OF wf w, of "reach_ok g"] reach_ok_0 reach_ok_Suc by blast
  have "case build_route g t i j of Inl e \<Rightarrow> False
     | Inr None \<Rightarrow> \<not> (\<exists>ids. path g i ids j)
     | Inr (Some r) \<Rightarrow> path g i (ri_edges r) j"
    if ij: "i < get_vertex_count g" "j < get_vertex_count g" for i j
  proof (cases "t ! i ! j")
    case None
    then have "\<not> path g i ids j" for ids
      using t(3) path_via [OF wf, of i ids j] ij unfolding reach_ok_def by blast
    with None show ?thesis using build_route_row [OF wf t(2) ij, where Q = "\<lambda>_ _. True"] by simp
  next
    case (Some d)
    then show ?thesis using build_route_row [OF wf t(2) ij, where Q = "\<lambda>_ _. True"] by auto
  qed
  then show ?thesis using t by (auto simp: answers_def)
qed

end

end
