(* ===== verification/Router_Exact.thy ===== *)
theory Router_Exact
  imports Router_Total
begin

text \<open>
  The router over weights with exact addition (integers, rationals, reals): the weight
  \<^verbatim>\<open>BuildRoute\<close> reports is the weight of the route it returns, and no path is lighter.
  Two invariants of the phases give it: an entry is at most the weight of any walk through the
  vertices already relaxed, and the last edge of an entry is tight.
\<close>

lemma path_weight_mset:
  fixes g :: "('w::comm_monoid_add) graph"
  shows "path_weight g ids = sum_mset (image_mset (\<lambda>e. edge_weight (edges g ! e)) (mset ids))"
  by (induction ids) auto

lemma sum_mset_nonneg:
  fixes M :: "('w::ordered_comm_monoid_add) multiset"
  shows "(\<And>x. x \<in># M \<Longrightarrow> 0 \<le> x) \<Longrightarrow> 0 \<le> sum_mset M"
  by (induction M) (auto intro: add_nonneg_nonneg)

lemma path_valid: "path g i ids j \<Longrightarrow> set ids \<subseteq> {..<length (edges g)}"
  by (induction ids arbitrary: i) auto

lemma sum_mset_image_mono:
  fixes f :: "'a \<Rightarrow> 'w::{linorder, ordered_cancel_comm_monoid_add}"
  assumes "M \<subseteq># N" and "\<And>x. x \<in># N \<Longrightarrow> 0 \<le> f x"
  shows "sum_mset (image_mset f M) \<le> sum_mset (image_mset f N)"
proof -
  obtain L where L: "N = M + L" using assms(1) mset_subset_eq_exists_conv by metis
  have "0 \<le> sum_mset (image_mset f L)" using assms(2) L by (intro sum_mset_nonneg) auto
  then have "sum_mset (image_mset f M) + 0 \<le> sum_mset (image_mset f M) + sum_mset (image_mset f L)"
    by (rule add_left_mono)
  then show ?thesis by (simp add: L)
qed

lemma path_weight_sub:
  fixes g :: "('w::{linorder, ordered_cancel_comm_monoid_add}) graph"
  assumes "weights_ok (\<lambda>w. 0 \<le> w) g" and "set ids \<subseteq> {..<length (edges g)}" and "M \<subseteq># mset ids"
  shows "sum_mset (image_mset (\<lambda>e. edge_weight (edges g ! e)) M) \<le> path_weight g ids"
  unfolding path_weight_mset using assms by (intro sum_mset_image_mono) (auto simp: weights_ok_def)

definition lower_ok :: "('w::{zero, plus, ord}) graph \<Rightarrow> nat \<Rightarrow> 'w routes_internal_data \<Rightarrow> bool" where
  "lower_ok g k t \<longleftrightarrow> (\<forall>i < get_vertex_count g. \<forall>j < get_vertex_count g. \<forall>ids.
     via g k i ids j \<longrightarrow> (\<exists>d. t ! i ! j = Some d \<and> rid_weight d \<le> path_weight g ids))"

definition tight_ok :: "('w::{plus, ord}) graph \<Rightarrow> 'w routes_internal_data \<Rightarrow> bool" where
  "tight_ok g t \<longleftrightarrow> (\<forall>i < get_vertex_count g. \<forall>j < get_vertex_count g. \<forall>d e.
     t ! i ! j = Some d \<longrightarrow> prev_edge d = Some e \<longrightarrow>
     (\<exists>d'. t ! i ! edge_from (edges g ! e) = Some d' \<and>
        rid_weight d' + edge_weight (edges g ! e) \<le> rid_weight d))"

lemma lower_okD:
  "lower_ok g k t \<Longrightarrow> via g k i ids j \<Longrightarrow> i < get_vertex_count g \<Longrightarrow> j < get_vertex_count g \<Longrightarrow>
     \<exists>d. t ! i ! j = Some d \<and> rid_weight d \<le> path_weight g ids"
  unfolding lower_ok_def by blast

lemma tight_okD:
  "tight_ok g t \<Longrightarrow> i < get_vertex_count g \<Longrightarrow> j < get_vertex_count g \<Longrightarrow>
     t ! i ! j = Some d \<Longrightarrow> prev_edge d = Some e \<Longrightarrow>
     \<exists>d'. t ! i ! edge_from (edges g ! e) = Some d' \<and>
        rid_weight d' + edge_weight (edges g ! e) \<le> rid_weight d"
  unfolding tight_ok_def by blast

lemma relaxed_le:
  fixes R :: "nat \<Rightarrow> nat \<Rightarrow> ('w::{linorder, plus}) route_internal_data option"
  shows "R i j = Some d \<Longrightarrow> \<exists>d'. relaxed R k i j = Some d' \<and> rid_weight d' \<le> rid_weight d"
    and "R i k = Some rf \<Longrightarrow> R k j = Some rt \<Longrightarrow>
      \<exists>d'. relaxed R k i j = Some d' \<and> rid_weight d' \<le> rid_weight rf + rid_weight rt"
  by (auto simp: relaxed_def Let_def not_less split: option.splits)

lemma lower_ok_0:
  fixes g :: "('w::{linorder, ordered_cancel_comm_monoid_add}) graph"
  assumes "table_ok (\<lambda>w. 0 \<le> w) g t" and "direct_ok g t"
  shows "lower_ok g 0 t"
proof -
  have "\<exists>d. t ! i ! j = Some d \<and> rid_weight d \<le> path_weight g ids"
    if v: "via g 0 i ids j" and i: "i < get_vertex_count g" for i ids j
  proof -
    have row: "row_ok (\<lambda>w. 0 \<le> w) g (get_vertex_count g) i (\<lambda>j. t ! i ! j)"
      using assms(1) i by (simp add: table_ok_def)
    from v have "j = i \<and> ids = [] \<or>
        (\<exists>e < length (edges g). ids = [e] \<and> edge_from (edges g ! e) = i \<and> edge_to (edges g ! e) = j)"
      by (auto elim: via_0E)
    then show ?thesis using row_ok_root [OF row] assms(2) by (auto simp: direct_ok_def)
  qed
  then show ?thesis by (simp add: lower_ok_def)
qed

lemma lower_ok_Suc:
  fixes g :: "('w::{linorder, ordered_cancel_comm_monoid_add}) graph"
  assumes w: "weights_ok (\<lambda>w. 0 \<le> w) g" and low: "lower_ok g k t" and k: "k < get_vertex_count g"
    and t': "\<forall>a < get_vertex_count g. \<forall>b < get_vertex_count g.
      t' ! a ! b = relaxed (\<lambda>a b. t ! a ! b) k a b"
  shows "lower_ok g (Suc k) t'"
proof -
  have "\<exists>d. t' ! i ! j = Some d \<and> rid_weight d \<le> path_weight g ids"
    if v: "via g (Suc k) i ids j" and ij: "i < get_vertex_count g" "j < get_vertex_count g" for i ids j
    using via_Suc [OF v]
  proof (elim disjE exE conjE)
    have ids: "set ids \<subseteq> {..<length (edges g)}" using path_valid [OF via_path [OF v]] .
    note sub = path_weight_sub [OF w ids]
    fix xs assume xs: "via g k i xs j" "mset xs \<subseteq># mset ids"
    obtain d where d: "t ! i ! j = Some d" "rid_weight d \<le> path_weight g xs"
      using lower_okD [OF low xs(1) ij] by blast
    obtain d' where "t' ! i ! j = Some d'" "rid_weight d' \<le> rid_weight d"
      using relaxed_le(1) [where R = "\<lambda>a b. t ! a ! b" and k = k, OF d(1)] t' ij by auto
    moreover have "path_weight g xs \<le> path_weight g ids"
      using sub [OF xs(2)] by (simp add: path_weight_mset)
    ultimately show ?thesis using d(2) by (meson order_trans)
  next
    have ids: "set ids \<subseteq> {..<length (edges g)}" using path_valid [OF via_path [OF v]] .
    note sub = path_weight_sub [OF w ids]
    fix xs ys assume xs: "via g k i xs k" "via g k k ys j" "mset xs + mset ys \<subseteq># mset ids"
    obtain rf where rf: "t ! i ! k = Some rf" "rid_weight rf \<le> path_weight g xs"
      using lower_okD [OF low xs(1) ij(1) k] by blast
    obtain rt where rt: "t ! k ! j = Some rt" "rid_weight rt \<le> path_weight g ys"
      using lower_okD [OF low xs(2) k ij(2)] by blast
    obtain d' where "t' ! i ! j = Some d'" "rid_weight d' \<le> rid_weight rf + rid_weight rt"
      using relaxed_le(2) [where R = "\<lambda>a b. t ! a ! b" and k = k, OF rf(1) rt(1)] t' ij by auto
    moreover have "path_weight g xs + path_weight g ys \<le> path_weight g ids"
      using sub [OF xs(3)] by (simp add: path_weight_mset)
    ultimately show ?thesis using add_mono [OF rf(2) rt(2)] by (meson order_trans)
  qed
  then show ?thesis by (simp add: lower_ok_def)
qed

lemma tight_ok_0:
  fixes g :: "('w::{linorder, ordered_cancel_comm_monoid_add}) graph"
  assumes "table_ok (\<lambda>w. 0 \<le> w) g t" and "direct_ok g t"
  shows "tight_ok g t"
proof -
  have root: "t ! i ! i = Some \<lparr>rid_weight = 0, prev_edge = None\<rparr>" if "i < get_vertex_count g" for i
  proof -
    have "row_ok (\<lambda>w. 0 \<le> w) g (get_vertex_count g) i (\<lambda>j. t ! i ! j)"
      using assms(1) that by (simp add: table_ok_def)
    then show ?thesis by (rule row_ok_root)
  qed
  show ?thesis
    unfolding tight_ok_def
  proof (intro allI impI)
    fix i j d e
    assume h: "i < get_vertex_count g" "j < get_vertex_count g" "t ! i ! j = Some d" "prev_edge d = Some e"
    then have "edge_from (edges g ! e) = i \<and> rid_weight d = edge_weight (edges g ! e)"
      using assms(2) unfolding direct_ok_def by blast
    then show "\<exists>d'. t ! i ! edge_from (edges g ! e) = Some d' \<and>
        rid_weight d' + edge_weight (edges g ! e) \<le> rid_weight d"
      using root [OF h(1)] by simp
  qed
qed

lemma tight_ok_Suc:
  fixes g :: "('w::{linorder, ordered_cancel_comm_monoid_add}) graph"
  assumes wf: "graph_wf g" and tab: "table_ok (\<lambda>w. 0 \<le> w) g t" and tight: "tight_ok g t"
    and k: "k < get_vertex_count g"
    and t': "\<forall>a < get_vertex_count g. \<forall>b < get_vertex_count g.
      t' ! a ! b = relaxed (\<lambda>a b. t ! a ! b) k a b"
  shows "tight_ok g t'"
proof -
  let ?n = "get_vertex_count g" and ?R = "\<lambda>a b. t ! a ! b"
  have rows: "row_ok (\<lambda>w. 0 \<le> w) g ?n i (?R i)" if "i < ?n" for i
    using tab that by (simp add: table_ok_def)
  have "\<exists>d'. t' ! i ! edge_from (edges g ! e) = Some d' \<and>
      rid_weight d' + edge_weight (edges g ! e) \<le> rid_weight d"
    if ij: "i < ?n" "j < ?n" and d: "t' ! i ! j = Some d" "prev_edge d = Some e" for i j d e
  proof -
    define u where "u = edge_from (edges g ! e)"
    have dr: "relaxed ?R k i j = Some d" using t' ij d(1) by simp
    note mono = order_trans [OF add_right_mono]
    show ?thesis
    proof (cases "improves ?R k i j")
      case True
      then obtain rf rt where r: "t ! i ! k = Some rf" "t ! k ! j = Some rt" by (auto simp: improves_def)
      then have p: "prev_edge rt = Some e"
        using exact.relaxed_pred_improves [where R = ?R, OF rows [OF ij(1)] rows [OF k] k ij(2)
            graph_wf_from [OF wf] True r] dr d(2) by (metis option.inject route_internal_data.select_convs(2))
      have dw: "rid_weight d = rid_weight rf + rid_weight rt"
        using relaxed_improves [of ?R, OF True r] dr by auto
      have u: "u < ?n"
        using graph_wf_edge [OF wf row_ok_prev_Some(1) [OF rows [OF k] ij(2) r(2) p]] by (simp add: u_def)
      obtain du where du: "t ! k ! u = Some du" "rid_weight du + edge_weight (edges g ! e) \<le> rid_weight rt"
        using tight_okD [OF tight k ij(2) r(2) p] by (auto simp: u_def)
      obtain d' where d': "t' ! i ! u = Some d'" "rid_weight d' \<le> rid_weight rf + rid_weight du"
        using relaxed_le(2) [of ?R, OF r(1) du(1)] t' ij u by auto
      have "rid_weight d' + edge_weight (edges g ! e) \<le> rid_weight d"
        using mono [OF d'(2)] add_left_mono [OF du(2), of "rid_weight rf"]
        by (simp add: dw add.assoc)
      then show ?thesis using d'(1) by (simp add: u_def)
    next
      case False
      then have r: "t ! i ! j = Some d" using dr by (simp add: relaxed_not_improves)
      have u: "u < ?n"
        using graph_wf_edge [OF wf row_ok_prev_Some(1) [OF rows [OF ij(1)] ij(2) r d(2)]] by (simp add: u_def)
      obtain du where du: "t ! i ! u = Some du" "rid_weight du + edge_weight (edges g ! e) \<le> rid_weight d"
        using tight_okD [OF tight ij r d(2)] by (auto simp: u_def)
      obtain d' where d': "t' ! i ! u = Some d'" "rid_weight d' \<le> rid_weight du"
        using relaxed_le(1) [where R = ?R and k = k, OF du(1)] t' ij u by auto
      show ?thesis using mono [OF d'(2) du(2)] d'(1) by (auto simp: u_def)
    qed
  qed
  then show ?thesis by (simp add: tight_ok_def)
qed

definition shortest :: "('w::{zero, plus, ord}) graph \<Rightarrow> 'w routes_internal_data \<Rightarrow> bool" where
  "shortest g t \<longleftrightarrow> (\<forall>i < get_vertex_count g. \<forall>j < get_vertex_count g. \<forall>r.
     build_route g t i j = Inr (Some r) \<longrightarrow>
       ri_weight r = path_weight g (ri_edges r) \<and>
       (\<forall>ids. path g i ids j \<longrightarrow> ri_weight r \<le> path_weight g ids))"

lemma build_route_shortest:
  fixes g :: "('w::{linorder, ordered_cancel_comm_monoid_add}) graph"
  assumes wf: "graph_wf g" and tab: "table_ok (\<lambda>w. 0 \<le> w) g t"
    and low: "lower_ok g (get_vertex_count g) t" and tight: "tight_ok g t"
    and ij: "i < get_vertex_count g" "j < get_vertex_count g"
    and r: "build_route g t i j = Inr (Some r)"
  shows "ri_weight r = path_weight g (ri_edges r) \<and>
    (\<forall>ids. path g i ids j \<longrightarrow> ri_weight r \<le> path_weight g ids)"
proof -
  define Q where "Q v xs \<longleftrightarrow> (\<forall>d. t ! i ! v = Some d \<longrightarrow> path_weight g xs \<le> rid_weight d)" for v xs
  have row: "row_ok (\<lambda>w. 0 \<le> w) g (get_vertex_count g) i (\<lambda>j. t ! i ! j)"
    using tab ij by (simp add: table_ok_def)
  have "Q i []" using row_ok_root [OF row] by (simp add: Q_def)
  moreover have "Q v (xs @ [e])"
    if v: "v < get_vertex_count g" "t ! i ! v = Some d" "prev_edge d = Some e"
      "Q (edge_from (edges g ! e)) xs" for v d e xs
  proof -
    obtain d' where d': "t ! i ! edge_from (edges g ! e) = Some d'"
        "rid_weight d' + edge_weight (edges g ! e) \<le> rid_weight d"
      using tight_okD [OF tight ij(1) v(1-3)] by blast
    then have "path_weight g xs \<le> rid_weight d'" using v(4) by (simp add: Q_def)
    then have "path_weight g xs + edge_weight (edges g ! e) \<le> rid_weight d"
      using order_trans [OF add_right_mono d'(2)] by blast
    then show ?thesis using v(2) by (simp add: Q_def path_weight_append)
  qed
  ultimately have row: "case t ! i ! j of None \<Rightarrow> build_route g t i j = Inr None
    | Some d \<Rightarrow> \<exists>ids. build_route g t i j = Inr (Some \<lparr>ri_weight = rid_weight d, ri_edges = ids\<rparr>) \<and>
        path g i ids j \<and> Q j ids"
    using build_route_row [OF wf tab ij, where Q = Q] by blast
  then obtain d where d: "t ! i ! j = Some d" using r by (cases "t ! i ! j") auto
  then have b: "ri_weight r = rid_weight d" "path g i (ri_edges r) j" "Q j (ri_edges r)"
    using row r by auto
  have le: "ri_weight r \<le> path_weight g ids" if "path g i ids j" for ids
    using lower_okD [OF low path_via [OF wf that] ij] d b(1) by auto
  moreover have "path_weight g (ri_edges r) \<le> ri_weight r" using b d by (simp add: Q_def)
  ultimately show ?thesis using le [OF b(2)] by (simp add: order_antisym)
qed

theorem router_shortest:
  fixes g :: "('w::{linorder, ordered_cancel_comm_monoid_add}) graph"
  assumes wf: "graph_wf g" and w: "weights_ok (\<lambda>w. 0 \<le> w) g"
  shows "\<exists>t. router_new g = Inr t \<and> shortest g t"
proof -
  have "\<exists>t. router_new g = Inr t \<and> table_ok (\<lambda>w. 0 \<le> w) g t \<and>
      (lower_ok g (get_vertex_count g) t \<and> tight_ok g t)"
  proof (rule exact.router_new_inv [OF wf w])
    show "lower_ok g 0 t \<and> tight_ok g t" if "table_ok (\<lambda>w. 0 \<le> w) g t" "direct_ok g t" for t
      using lower_ok_0 [OF that] tight_ok_0 [OF that] by blast
    show "lower_ok g (Suc k) t' \<and> tight_ok g t'"
      if "k < get_vertex_count g" "table_ok (\<lambda>w. 0 \<le> w) g t" "lower_ok g k t \<and> tight_ok g t"
        "\<forall>a < get_vertex_count g. \<forall>b < get_vertex_count g.
           t' ! a ! b = relaxed (\<lambda>a b. t ! a ! b) k a b" for k t t'
      using lower_ok_Suc [OF w conjunct1 [OF that(3)] that(1) that(4)]
        tight_ok_Suc [OF wf that(2) conjunct2 [OF that(3)] that(1) that(4)] by blast
  qed
  then obtain t where t: "router_new g = Inr t" "table_ok (\<lambda>w. 0 \<le> w) g t"
      "lower_ok g (get_vertex_count g) t" "tight_ok g t" by blast
  have "shortest g t"
    unfolding shortest_def using build_route_shortest [OF wf t(2-4)] by blast
  then show ?thesis using t(1) by blast
qed

end
