(* ===== verification/Router_Props.thy ===== *)
theory Router_Props
  imports Router_Exact
begin

text \<open>
  The properties of \<^verbatim>\<open>graph.h\<close> and \<^verbatim>\<open>router.h\<close>, for the program's weight type \<^verbatim>\<open>double\<close> and
  for weights with exact addition.
\<close>

section \<open>Negative weights\<close>

definition negative_weight :: exn where
  "negative_weight = Domain_error ''Edges' weights should be non-negative''"

lemma init_edge_fails:
  assumes "shape n t" and "v < n" and "e < length (edges g)" and "edge_to (edges g ! e) < n"
  shows "if edge_weight (edges g ! e) < 0 then init_edge g v t e = Inl negative_weight
    else \<exists>t'. init_edge g v t e = Inr t' \<and> shape n t'"
  using assms
  by (auto simp: init_edge_def get_edge_def tbl_get_shape tbl_set_shape negative_weight_def Let_def
      split: option.split)

lemma init_vertex_fails:
  fixes g :: "('w::{zero, ord}) graph"
  assumes wf: "graph_wf g" and t: "shape (get_vertex_count g) t" and v: "v < get_vertex_count g"
  shows "if \<exists>e \<in> set (outgoing g v). edge_weight (edges g ! e) < 0 then init_vertex g t v = Inl negative_weight
    else \<exists>t'. init_vertex g t v = Inr t' \<and> shape (get_vertex_count g) t'"
proof -
  let ?t = "upd t v v (Some \<lparr>rid_weight = 0, prev_edge = None\<rparr>)"
  have "init_vertex g t v = foldR (init_edge g v) ?t (outgoing g v)"
    using wf t v by (simp add: init_vertex_def tbl_set_shape get_incident_edges_def graph_wf_def
        get_vertex_count_def)
  moreover have "if \<exists>e \<in> set (outgoing g v). edge_weight (edges g ! e) < 0
      then foldR (init_edge g v) ?t (outgoing g v) = Inl negative_weight
      else \<exists>t'. foldR (init_edge g v) ?t (outgoing g v) = Inr t' \<and> shape (get_vertex_count g) t'"
  proof (rule foldR_fail)
    fix s :: "'w routes_internal_data" and e
    assume "shape (get_vertex_count g) s" "e \<in> set (outgoing g v)"
    then show "if edge_weight (edges g ! e) < 0 then init_edge g v s e = Inl negative_weight
        else \<exists>s'. init_edge g v s e = Inr s' \<and> shape (get_vertex_count g) s'"
      using init_edge_fails [of _ s v e g] v graph_wf_edge(2) [OF wf] by (simp add: set_outgoing)
  qed (use t in simp)
  ultimately show ?thesis by simp
qed

lemma initialize_fails:
  assumes wf: "graph_wf g" and e: "e < length (edges g)" "edge_weight (edges g ! e) < 0"
    and t: "shape (get_vertex_count g) t"
  shows "initialize_routes g t = Inl negative_weight"
proof -
  let ?bad = "\<lambda>v. \<exists>e \<in> set (outgoing g v). edge_weight (edges g ! e) < 0"
  have "if \<exists>v \<in> set [0..<get_vertex_count g]. ?bad v
      then foldR (init_vertex g) t [0..<get_vertex_count g] = Inl negative_weight
      else \<exists>t'. foldR (init_vertex g) t [0..<get_vertex_count g] = Inr t' \<and> shape (get_vertex_count g) t'"
    using init_vertex_fails [OF wf] t by (intro foldR_fail) simp_all
  moreover have "?bad (edge_from (edges g ! e))" using e by (auto simp: set_outgoing)
  then have "\<exists>v \<in> set [0..<get_vertex_count g]. ?bad v" using graph_wf_edge(1) [OF wf e(1)] by auto
  ultimately show ?thesis unfolding initialize_routes_def by simp
qed

section \<open>Properties\<close>

text \<open>
  C6: For every graph \<^verbatim>\<open>AddEdge\<close> can build, with non-negative weights of type \<^verbatim>\<open>double\<close>, the
  constructor of \<^verbatim>\<open>Router\<close> succeeds, and \<^verbatim>\<open>BuildRoute\<close> then always returns: no route exactly
  when the graph has none, and otherwise edges that form a path between the two vertices. This
  holds although rounded addition is not associative.
\<close>

theorem router_finds_routes:
  fixes g :: "double graph"
  assumes "graph_wf g" and "\<forall>e \<in> set (edges g). nonneg_double (edge_weight e)"
  shows "\<exists>t. router_new g = Inr t \<and>
    (\<forall>i < get_vertex_count g. \<forall>j < get_vertex_count g.
       (\<exists>r. build_route g t i j = Inr r) \<and>
       (build_route g t i j = Inr None \<longleftrightarrow> \<not> (\<exists>ids. path g i ids j)) \<and>
       (\<forall>r. build_route g t i j = Inr (Some r) \<longrightarrow> path g i (ri_edges r) j))"
proof -
  obtain t where t: "router_new g = Inr t" "answers g t"
    using dbl.router_answers [of g] assms by (auto simp: weights_ok_def)
  have "(\<exists>r. build_route g t i j = Inr r) \<and>
       (build_route g t i j = Inr None \<longleftrightarrow> \<not> (\<exists>ids. path g i ids j)) \<and>
       (\<forall>r. build_route g t i j = Inr (Some r) \<longrightarrow> path g i (ri_edges r) j)"
    if "i < get_vertex_count g" "j < get_vertex_count g" for i j
  proof -
    have "case build_route g t i j of Inl e \<Rightarrow> False | Inr None \<Rightarrow> \<not> (\<exists>ids. path g i ids j)
        | Inr (Some r) \<Rightarrow> path g i (ri_edges r) j"
      using t(2) that unfolding answers_def by blast
    then show ?thesis by (cases "build_route g t i j") (auto split: option.splits)
  qed
  then show ?thesis using t(1) by blast
qed

definition double_demo :: "double graph" where
  "double_demo = \<lparr>edges = [\<lparr>edge_from = 0, edge_to = 1, edge_weight = double_of_int 1\<rparr>,
       \<lparr>edge_from = 1, edge_to = 2, edge_weight = double_of_int 2\<rparr>],
     incidence_lists = [[0], [1], []]\<rparr>"

lemma double_demo_ok: "graph_wf double_demo" "\<forall>e \<in> set (edges double_demo). nonneg_double (edge_weight e)"
  and double_demo_size: "get_vertex_count double_demo = 3"
  by (simp_all add: graph_wf_def double_demo_def outgoing_def get_vertex_count_def upt_rec less_Suc_eq
      numeral_nat nonneg_of_int)

lemma router_finds_routes_witness:
  "\<exists>t. router_new double_demo = Inr t \<and> build_route double_demo t 2 0 = Inr None \<and>
     (\<exists>r. build_route double_demo t 0 2 = Inr (Some r))"
proof -
  have "path double_demo 0 [0, 1] 2" by (simp add: double_demo_def)
  then have p: "\<exists>ids. path double_demo 0 ids 2" by blast
  have "\<not> path double_demo 2 ids 0" for ids
    by (cases ids) (auto simp: double_demo_def nth_Cons' split: if_splits)
  moreover obtain t where t: "router_new double_demo = Inr t"
    "\<And>i j. i < 3 \<Longrightarrow> j < 3 \<Longrightarrow> (\<exists>r. build_route double_demo t i j = Inr r) \<and>
       (build_route double_demo t i j = Inr None \<longleftrightarrow> \<not> (\<exists>ids. path double_demo i ids j))"
    using router_finds_routes [OF double_demo_ok] unfolding double_demo_size by blast
  ultimately have "build_route double_demo t 2 0 = Inr None" using t(2) [of 2 0] by simp
  moreover obtain r where r: "build_route double_demo t 0 2 = Inr r" using t(2) [of 0 2] by auto
  moreover have "r \<noteq> None" using t(2) [of 0 2] r p by simp
  ultimately show ?thesis using t(1) by auto
qed

text \<open>
  C7: With exact addition (integers, rationals, reals) and non-negative weights \<^verbatim>\<open>BuildRoute\<close> returns for
  every two vertices: no route exactly when there is no path; otherwise a shortest path, whose edges lead from the one
  vertex to the other, with its weight: the sum of the weights of its edges, and no path between the
  two vertices is lighter.
\<close>

theorem router_finds_shortest:
  fixes g :: "('w::{linorder, ordered_cancel_comm_monoid_add}) graph"
  assumes "graph_wf g" and "\<forall>e \<in> set (edges g). 0 \<le> edge_weight e"
  shows "\<exists>t. router_new g = Inr t \<and>
    (\<forall>i < get_vertex_count g. \<forall>j < get_vertex_count g. \<exists>found. build_route g t i j = Inr found \<and>
       (case found of
          None \<Rightarrow> \<not> (\<exists>ids. path g i ids j)
        | Some r \<Rightarrow> path g i (ri_edges r) j \<and> ri_weight r = path_weight g (ri_edges r) \<and>
            (\<forall>ids. path g i ids j \<longrightarrow> ri_weight r \<le> path_weight g ids)))"
proof -
  have w: "weights_ok (\<lambda>w. 0 \<le> w) g" using assms(2) by (simp add: weights_ok_def)
  obtain t where t: "router_new g = Inr t" "shortest g t" using router_shortest [OF assms(1) w] by blast
  have a: "answers g t" using exact.router_answers [OF assms(1) w] t(1) by auto
  have "\<exists>found. build_route g t i j = Inr found \<and>
       (case found of
          None \<Rightarrow> \<not> (\<exists>ids. path g i ids j)
        | Some r \<Rightarrow> path g i (ri_edges r) j \<and> ri_weight r = path_weight g (ri_edges r) \<and>
            (\<forall>ids. path g i ids j \<longrightarrow> ri_weight r \<le> path_weight g ids))"
    if ij: "i < get_vertex_count g" "j < get_vertex_count g" for i j
  proof -
    have "case build_route g t i j of Inl e \<Rightarrow> False | Inr None \<Rightarrow> \<not> (\<exists>ids. path g i ids j)
        | Inr (Some r) \<Rightarrow> path g i (ri_edges r) j"
      using a ij unfolding answers_def by blast
    moreover have "ri_weight r = path_weight g (ri_edges r) \<and>
        (\<forall>ids. path g i ids j \<longrightarrow> ri_weight r \<le> path_weight g ids)" if "build_route g t i j = Inr (Some r)" for r
      using t(2) ij that unfolding shortest_def by blast
    ultimately show ?thesis by (cases "build_route g t i j") (fastforce split: option.splits)+
  qed
  then show ?thesis using t(1) by blast
qed

definition int_demo :: "int graph" where
  "int_demo = \<lparr>edges = [\<lparr>edge_from = 0, edge_to = 1, edge_weight = 1\<rparr>,
       \<lparr>edge_from = 1, edge_to = 2, edge_weight = 2\<rparr>, \<lparr>edge_from = 0, edge_to = 2, edge_weight = 7\<rparr>],
     incidence_lists = [[0, 2], [1], []]\<rparr>"

lemma int_demo_path:
  "path int_demo u (e # ids) v \<longleftrightarrow> u = 0 \<and> e = 0 \<and> path int_demo 1 ids v \<or>
     u = 1 \<and> e = 1 \<and> path int_demo 2 ids v \<or> u = 0 \<and> e = 2 \<and> path int_demo 2 ids v"
proof -
  have "length (edges int_demo) = 3" by (simp add: int_demo_def)
  then have "e < length (edges int_demo) \<longleftrightarrow> e = 0 \<or> e = 1 \<or> e = 2" by linarith
  moreover have "edges int_demo ! 0 = \<lparr>edge_from = 0, edge_to = 1, edge_weight = 1\<rparr>"
    "edges int_demo ! 1 = \<lparr>edge_from = 1, edge_to = 2, edge_weight = 2\<rparr>"
    "edges int_demo ! 2 = \<lparr>edge_from = 0, edge_to = 2, edge_weight = 7\<rparr>"
    by (simp_all add: int_demo_def)
  ultimately show ?thesis unfolding path.simps by (metis edge.select_convs(1,2))
qed

lemma int_demo_paths:
  "path int_demo 2 ids v \<longleftrightarrow> ids = [] \<and> v = 2" "path int_demo 1 ids 2 \<longleftrightarrow> ids = [1]"
  "path int_demo 0 ids 2 \<longleftrightarrow> ids = [0, 1] \<or> ids = [2]"
proof -
  show two: "path int_demo 2 ids v \<longleftrightarrow> ids = [] \<and> v = 2" for ids v
    by (cases ids) (auto simp: int_demo_path simp del: path.simps(2))
  show one: "path int_demo 1 ids 2 \<longleftrightarrow> ids = [1]" for ids
    by (cases ids) (auto simp: int_demo_path two simp del: path.simps(2))
  show "path int_demo 0 ids 2 \<longleftrightarrow> ids = [0, 1] \<or> ids = [2]"
    by (cases ids) (auto simp: int_demo_path one two simp del: path.simps(2) One_nat_def)
qed

text \<open>The way over the middle vertex is taken, and there is no way back.\<close>

lemma router_finds_shortest_witness:
  "\<exists>t. router_new int_demo = Inr t \<and> build_route int_demo t 0 2 = Inr (Some \<lparr>ri_weight = 3, ri_edges = [0, 1]\<rparr>) \<and>
     build_route int_demo t 2 0 = Inr None"
proof -
  have wf: "graph_wf int_demo" by code_simp
  have nn: "\<forall>e \<in> set (edges int_demo). 0 \<le> edge_weight e" by (simp add: int_demo_def)
  have n: "get_vertex_count int_demo = 3" by (simp add: int_demo_def get_vertex_count_def)
  have w: "path_weight int_demo [0, 1] = 3" "path_weight int_demo [2] = 7" by (simp_all add: int_demo_def)
  from router_finds_shortest [OF wf nn] obtain t where t: "router_new int_demo = Inr t"
    "\<And>i j. i < 3 \<Longrightarrow> j < 3 \<Longrightarrow> \<exists>found. build_route int_demo t i j = Inr found \<and>
       (case found of
          None \<Rightarrow> \<not> (\<exists>ids. path int_demo i ids j)
        | Some r \<Rightarrow> path int_demo i (ri_edges r) j \<and> ri_weight r = path_weight int_demo (ri_edges r) \<and>
            (\<forall>ids. path int_demo i ids j \<longrightarrow> ri_weight r \<le> path_weight int_demo ids))"
    unfolding n by blast
  obtain found where f: "build_route int_demo t 0 2 = Inr found" "case found of
       None \<Rightarrow> \<not> (\<exists>ids. path int_demo 0 ids 2)
     | Some r \<Rightarrow> path int_demo 0 (ri_edges r) 2 \<and> ri_weight r = path_weight int_demo (ri_edges r) \<and>
         (\<forall>ids. path int_demo 0 ids 2 \<longrightarrow> ri_weight r \<le> path_weight int_demo ids)"
    using t(2) [of 0 2] by auto
  then obtain r where r: "found = Some r" using int_demo_paths(3) by (cases found) auto
  then have "path int_demo 0 (ri_edges r) 2" and e: "ri_weight r = path_weight int_demo (ri_edges r)"
    and le: "\<forall>ids. path int_demo 0 ids 2 \<longrightarrow> ri_weight r \<le> path_weight int_demo ids"
    using f(2) [unfolded r option.case] by blast+
  then have "ri_edges r = [0, 1] \<or> ri_edges r = [2]" "ri_weight r \<le> path_weight int_demo [0, 1]"
    using int_demo_paths(3) by blast+
  then have "ri_edges r = [0, 1]" using w e by auto
  then have "r = \<lparr>ri_weight = 3, ri_edges = [0, 1]\<rparr>" using e w(1) by (cases r) simp
  moreover have "build_route int_demo t 2 0 = Inr None"
    using t(2) [of 2 0] by (auto simp: int_demo_paths(1) split: option.splits)
  ultimately show ?thesis using t(1) f(1) r by blast
qed

text \<open>
  C36: An edge of negative weight, anywhere in the graph, makes the constructor throw
  \<^verbatim>\<open>std::domain_error\<close>, and nothing else.
\<close>

theorem router_rejects_negative:
  assumes "graph_wf g" and "e < length (edges g)" and "edge_weight (edges g ! e) < 0"
  shows "router_new g = Inl (Domain_error ''Edges' weights should be non-negative'')"
  using initialize_fails [OF assms, of "replicate (get_vertex_count g) (replicate (get_vertex_count g) None)"]
  by (simp add: router_new_def negative_weight_def Let_def)

lemma router_rejects_negative_witness:
  "router_new \<lparr>edges = [\<lparr>edge_from = 0, edge_to = 1, edge_weight = - 1 :: int\<rparr>], incidence_lists = [[0], []]\<rparr> =
     Inl (Domain_error ''Edges' weights should be non-negative'')"
  by (rule router_rejects_negative [where e = 0]) (code_simp, simp_all)

text \<open>
  \<^verbatim>\<open>AddEdge\<close> returns the index of the new last edge and keeps every incidence list equal to
  the list of outgoing edges, in the order they were added.
\<close>

theorem add_edge_keeps_incidence:
  assumes "graph_wf g" and "edge_from e < get_vertex_count g" and "edge_to e < get_vertex_count g"
  shows "\<exists>g'. add_edge g e = Inr (g', get_edge_count g) \<and> edges g' = edges g @ [e] \<and> graph_wf g' \<and>
    (\<forall>v < get_vertex_count g. incidence_lists g' ! v = outgoing g' v)"
proof -
  obtain g' where g': "add_edge g e = Inr (g', get_edge_count g)" using add_edge_Inr [OF assms(2)] by blast
  then show ?thesis
    using add_edge_count [OF g'] add_edge_wf [OF assms(1,3) g'] by (auto simp: graph_wf_def)
qed

lemma add_edge_keeps_incidence_witness:
  "\<exists>g'. add_edge int_demo \<lparr>edge_from = 2, edge_to = 0, edge_weight = 4\<rparr> = Inr (g', 3) \<and> graph_wf g'"
  using add_edge_keeps_incidence [of int_demo "\<lparr>edge_from = 2, edge_to = 0, edge_weight = 4\<rparr>"]
proof -
  have "graph_wf int_demo" by code_simp
  then show ?thesis
    using add_edge_keeps_incidence [of int_demo "\<lparr>edge_from = 2, edge_to = 0, edge_weight = 4\<rparr>"]
    by (auto simp: int_demo_def get_vertex_count_def get_edge_count_def)
qed

end
