(* ===== verification/Decimal.thy ===== *)
theory Decimal
  imports Ieee_Double
begin

text \<open>
  The number formatting and parsing of the standard library the program uses: \<^verbatim>\<open>isdigit\<close> and its
  siblings in the C locale, \<^verbatim>\<open>out << int\<close>, \<^verbatim>\<open>std::stoi\<close> and \<^verbatim>\<open>std::stod\<close> on the strings
  \<^verbatim>\<open>LoadNumber\<close> collects, and \<^verbatim>\<open>out << double\<close> (\<^verbatim>\<open>printf("%g")\<close>, six significant digits).
\<close>

section \<open>Character classes\<close>

definition isdigit :: "char \<Rightarrow> bool" where
  "isdigit c \<longleftrightarrow> 48 \<le> (of_char c :: nat) \<and> (of_char c :: nat) \<le> 57"

definition isalpha :: "char \<Rightarrow> bool" where
  "isalpha c \<longleftrightarrow> 65 \<le> (of_char c :: nat) \<and> (of_char c :: nat) \<le> 90 \<or>
     97 \<le> (of_char c :: nat) \<and> (of_char c :: nat) \<le> 122"

definition isspace :: "char \<Rightarrow> bool" where
  "isspace c \<longleftrightarrow> 9 \<le> (of_char c :: nat) \<and> (of_char c :: nat) \<le> 13 \<or> (of_char c :: nat) = 32"

definition digit_val :: "char \<Rightarrow> nat" where
  "digit_val c = of_char c - 48"

definition digit_char :: "nat \<Rightarrow> char" where
  "digit_char d = char_of (48 + d)"

lemma digit_char [simp]: "d < 10 \<Longrightarrow> isdigit (digit_char d)" "d < 10 \<Longrightarrow> digit_val (digit_char d) = d"
  by (simp_all add: isdigit_def digit_val_def digit_char_def)

lemma digit_char_0 [simp]: "digit_char 0 = CHR ''0''"
  by (simp add: digit_char_def char_of_eq_iff)

lemma digit_char_zero [simp]: "d < 10 \<Longrightarrow> digit_char d = CHR ''0'' \<longleftrightarrow> d = 0"
  using digit_char(2) [of d] by (auto simp: digit_val_def)

section \<open>Integers\<close>

fun dec :: "nat \<Rightarrow> string" where
  "dec n = (if n < 10 then [digit_char n] else dec (n div 10) @ [digit_char (n mod 10)])"

declare dec.simps [simp del]

definition undec :: "string \<Rightarrow> nat" where
  "undec s = foldl (\<lambda>a c. 10 * a + digit_val c) 0 s"

definition int_str :: "int \<Rightarrow> string" where
  "int_str i = (if i < 0 then CHR ''-'' # dec (nat (- i)) else dec (nat i))"

lemma undec_snoc [simp]: "undec (s @ [c]) = 10 * undec s + digit_val c"
  by (simp add: undec_def)

lemma undec_dec [simp]: "undec (dec n) = n"
proof (induction n rule: dec.induct)
  case (1 n)
  then show ?case by (subst dec.simps) (auto simp: undec_def [of "[_]"])
qed

lemma dec_digits: "c \<in> set (dec n) \<Longrightarrow> isdigit c"
proof (induction n rule: dec.induct)
  case (1 n)
  then show ?case using dec.simps [of n] by (auto split: if_splits)
qed

lemma dec_not_Nil [simp]: "dec n \<noteq> []"
  by (subst dec.simps) simp

lemma hd_dec: "hd (dec n) = CHR ''0'' \<longleftrightarrow> n = 0"
proof (induction n rule: dec.induct)
  case (1 n)
  show ?case
  proof (cases "n < 10")
    case True
    then show ?thesis by (subst dec.simps) simp
  next
    case False
    then have "n div 10 \<noteq> 0" by (simp add: div_eq_0_iff)
    then show ?thesis using 1 False by (subst dec.simps) simp
  qed
qed

lemma dec_0 [simp]: "dec 0 = ''0''"
  by (subst dec.simps) simp

text \<open>
  \<^verbatim>\<open>std::stoi\<close> on an optional sign and digits: \<^verbatim>\<open>std::out_of_range\<close> outside \<^verbatim>\<open>int\<close>.
\<close>

definition unsign :: "string \<Rightarrow> bool \<times> string" where
  "unsign s = (case s of c # r \<Rightarrow> if c = CHR ''-'' then (True, r) else (False, s) | [] \<Rightarrow> (False, []))"

definition stoi :: "string \<Rightarrow> 32 word result" where
  "stoi s =
     (let (neg, ds) = unsign s; i = (if neg then - int (undec ds) else int (undec ds))
      in if - (2 ^ 31) \<le> i \<and> i < 2 ^ 31 then Inr (word_of_int i) else Inl Out_of_range)"

lemma dec_Cons: "\<exists>c r. dec n = c # r \<and> isdigit c"
  using dec_digits [of "hd (dec n)" n] by (cases "dec n") auto

lemma unsign_dec [simp]: "unsign (dec n) = (False, dec n)"
  using dec_Cons [of n] by (auto simp: unsign_def isdigit_def)

lemma stoi_int_str: "stoi (int_str (sint w)) = Inr w"
proof -
  have r: "- (2 ^ 31) \<le> sint w" "sint w < 2 ^ 31"
    using sint_greater_eq [of w] sint_less [of w] by simp_all
  show ?thesis
  proof (cases "sint w < 0")
    case True
    then have "unsign (int_str (sint w)) = (True, dec (nat (- sint w)))"
      by (simp add: int_str_def unsign_def)
    then show ?thesis using r True by (simp add: stoi_def)
  next
    case False
    then show ?thesis using r by (simp add: stoi_def int_str_def)
  qed
qed

section \<open>std::stod\<close>

text \<open>Sign, digits and decimal exponent of an optional sign, digits, fraction and exponent.\<close>

definition decimal_parts :: "string \<Rightarrow> bool \<times> nat \<times> int" where
  "decimal_parts s =
     (let (neg, s1) = unsign s;
          whole = takeWhile isdigit s1; s2 = dropWhile isdigit s1;
          (fr, s3) = (case s2 of c # r \<Rightarrow> if c = CHR ''.'' then (takeWhile isdigit r, dropWhile isdigit r)
                                          else ([], s2)
                        | [] \<Rightarrow> ([], []));
          ex = (case s3 of [] \<Rightarrow> 0
                | c # r \<Rightarrow>
                    (let (eneg, ds) = unsign (case r of d # r' \<Rightarrow> if d = CHR ''+'' then r' else r | [] \<Rightarrow> [])
                     in if eneg then - int (undec ds) else int (undec ds)))
      in (neg, undec (whole @ fr), ex - int (length fr)))"

text \<open>
  \<^verbatim>\<open>std::stod\<close> throws \<^verbatim>\<open>std::out_of_range\<close> when \<^verbatim>\<open>strtod\<close> reports \<^verbatim>\<open>ERANGE\<close>: the result
  overflows, or is below the smallest normal number and inexact.
\<close>

definition stod :: "string \<Rightarrow> double result" where
  "stod s =
     (let (neg, m, e) = decimal_parts s; n = mag_of_decimal m e
      in if n = inf_mag \<or>
            n < 2 ^ 52 \<and> m * 10 ^ nat e * 2 ^ 1074 \<noteq> n * 10 ^ nat (- e)
         then Inl Out_of_range else Inr (pack neg n))"

section \<open>Printing a double\<close>

text \<open>The least \<open>j\<close> with \<open>d \<le> n * 10 ^ j\<close>.\<close>

function dec_shift :: "nat \<Rightarrow> nat \<Rightarrow> nat" where
  "dec_shift n d = (if n = 0 \<or> d \<le> n then 0 else Suc (dec_shift (10 * n) d))"
  by pat_completeness auto
termination by (relation "measure (\<lambda>(n, d). d - n)") auto

declare dec_shift.simps [simp del]

text \<open>\<open>\<lfloor>log10 (n / d)\<rfloor>\<close> for \<open>0 < n\<close>\<close>

definition flog10 :: "nat \<Rightarrow> nat \<Rightarrow> int" where
  "flog10 n d = (if d \<le> n then int (length (dec (n div d))) - 1 else - int (dec_shift n d))"

text \<open>Six significant digits of \<open>n / d\<close> and the exponent of the first.\<close>

definition six_digits :: "nat \<Rightarrow> nat \<Rightarrow> nat \<times> int" where
  "six_digits n d =
     (let k = flog10 n d;
          m = round_half_even (n * 10 ^ nat (5 - k)) (d * 10 ^ nat (k - 5))
      in if m = 10 ^ 6 then (10 ^ 5, k + 1) else (m, k))"

definition strip_zeros :: "string \<Rightarrow> string" where
  "strip_zeros s = rev (dropWhile (\<lambda>c. c = CHR ''0'') (rev s))"

definition with_fraction :: "string \<Rightarrow> string \<Rightarrow> string" where
  "with_fraction whole fr =
     (let f = strip_zeros fr in if f = [] then whole else whole @ ''.'' @ f)"

definition exponent_str :: "int \<Rightarrow> string" where
  "exponent_str x =
     (let ds = dec (nat \<bar>x\<bar>)
      in ''e'' @ (if x < 0 then ''-'' else ''+'') @ (if length ds < 2 then ''0'' @ ds else ds))"

definition general_str :: "nat \<times> int \<Rightarrow> string" where
  "general_str p =
     (let (m, x) = p; ds = dec m
      in if x < -4 \<or> 6 \<le> x then with_fraction (take 1 ds) (drop 1 ds) @ exponent_str x
         else if x < 0 then with_fraction ''0'' (replicate (nat (- x - 1)) CHR ''0'' @ ds)
         else with_fraction (take (nat x + 1) ds) (drop (nat x + 1) ds))"

definition double_str :: "double \<Rightarrow> string" where
  "double_str d =
     (if sign_of d then ''-'' else []) @
     (let n = mag_of d; e = int (expo n) - 1074
      in if is_nan d then ''nan'' else if is_inf d then ''inf''
         else if n = 0 then ''0''
         else general_str (six_digits (mant n * 2 ^ nat e) (2 ^ nat (- e))))"

end
