(* ===== verification/Json_Node.thy ===== *)
theory Json_Node
  imports Decimal
begin

text \<open>
  \<^verbatim>\<open>json.h\<close>: the node of a JSON document, a variant with seven alternatives. A \<^verbatim>\<open>Dict\<close> is a
  \<^verbatim>\<open>std::map\<close>, so its association list is sorted by key; \<open>node_ok\<close> states this of every
  dictionary inside a node.
\<close>

datatype node =
    NNull
  | NArr "node list"
  | NDict "(string \<times> node) list"
  | NBool bool
  | NInt "32 word"
  | NDbl double
  | NStr string

type_synonym dict = "(string, node) smap"

section \<open>Tests and conversions\<close>

definition is_int :: "node \<Rightarrow> bool" where
  "is_int n = (case n of NInt _ \<Rightarrow> True | _ \<Rightarrow> False)"

definition as_int :: "node \<Rightarrow> 32 word result" where
  "as_int n = (case n of NInt i \<Rightarrow> Inr i | _ \<Rightarrow> Inl (Logic_error ''Not an int''))"

definition is_pure_double :: "node \<Rightarrow> bool" where
  "is_pure_double n = (case n of NDbl _ \<Rightarrow> True | _ \<Rightarrow> False)"

definition is_double :: "node \<Rightarrow> bool" where
  "is_double n \<longleftrightarrow> is_int n \<or> is_pure_double n"

definition as_double :: "node \<Rightarrow> double result" where
  "as_double n =
     (if \<not> is_double n then Inl (Logic_error ''Not a double'')
      else case n of NDbl d \<Rightarrow> Inr d | _ \<Rightarrow> bindR (as_int n) (\<lambda>i. Inr (double_of_int (sint i))))"

definition is_bool :: "node \<Rightarrow> bool" where
  "is_bool n = (case n of NBool _ \<Rightarrow> True | _ \<Rightarrow> False)"

definition as_bool :: "node \<Rightarrow> bool result" where
  "as_bool n = (case n of NBool b \<Rightarrow> Inr b | _ \<Rightarrow> Inl (Logic_error ''Not a bool''))"

definition is_null :: "node \<Rightarrow> bool" where
  "is_null n = (case n of NNull \<Rightarrow> True | _ \<Rightarrow> False)"

definition is_array :: "node \<Rightarrow> bool" where
  "is_array n = (case n of NArr _ \<Rightarrow> True | _ \<Rightarrow> False)"

definition as_array :: "node \<Rightarrow> node list result" where
  "as_array n = (case n of NArr a \<Rightarrow> Inr a | _ \<Rightarrow> Inl (Logic_error ''Not an array''))"

definition is_string :: "node \<Rightarrow> bool" where
  "is_string n = (case n of NStr _ \<Rightarrow> True | _ \<Rightarrow> False)"

definition as_string :: "node \<Rightarrow> string result" where
  "as_string n = (case n of NStr s \<Rightarrow> Inr s | _ \<Rightarrow> Inl (Logic_error ''Not a string''))"

definition is_dict :: "node \<Rightarrow> bool" where
  "is_dict n = (case n of NDict _ \<Rightarrow> True | _ \<Rightarrow> False)"

definition as_dict :: "node \<Rightarrow> dict result" where
  "as_dict n = (case n of NDict d \<Rightarrow> Inr d | _ \<Rightarrow> Inl (Logic_error ''Not a dict''))"

lemmas node_access [result_simps] = is_int_def as_int_def is_pure_double_def is_double_def as_double_def
  is_bool_def as_bool_def is_null_def is_array_def as_array_def is_string_def as_string_def
  is_dict_def as_dict_def

text \<open>Every conversion succeeds exactly where its test says so.\<close>

lemma as_total:
  "(\<exists>i. as_int n = Inr i) \<longleftrightarrow> is_int n"
  "(\<exists>d. as_double n = Inr d) \<longleftrightarrow> is_double n"
  "(\<exists>b. as_bool n = Inr b) \<longleftrightarrow> is_bool n"
  "(\<exists>a. as_array n = Inr a) \<longleftrightarrow> is_array n"
  "(\<exists>s. as_string n = Inr s) \<longleftrightarrow> is_string n"
  "(\<exists>d. as_dict n = Inr d) \<longleftrightarrow> is_dict n"
  by (cases n; simp add: node_access)+

section \<open>Comparison\<close>

text \<open>
  \<^verbatim>\<open>operator==\<close> of the variant: same alternative and equal values, where vectors and maps
  compare element by element and doubles as numbers.
\<close>

function node_eq :: "node \<Rightarrow> node \<Rightarrow> bool"
  and nodes_eq :: "node list \<Rightarrow> node list \<Rightarrow> bool"
  and dict_eq :: "dict \<Rightarrow> dict \<Rightarrow> bool" where
  "node_eq a b =
     (case (a, b) of
        (NNull, NNull) \<Rightarrow> True
      | (NArr xs, NArr ys) \<Rightarrow> nodes_eq xs ys
      | (NDict xs, NDict ys) \<Rightarrow> dict_eq xs ys
      | (NBool x, NBool y) \<Rightarrow> x = y
      | (NInt x, NInt y) \<Rightarrow> x = y
      | (NDbl x, NDbl y) \<Rightarrow> eq_double x y
      | (NStr x, NStr y) \<Rightarrow> x = y
      | _ \<Rightarrow> False)"
| "nodes_eq xs ys =
     (case (xs, ys) of
        ([], []) \<Rightarrow> True
      | (x # xs', y # ys') \<Rightarrow> node_eq x y \<and> nodes_eq xs' ys'
      | _ \<Rightarrow> False)"
| "dict_eq xs ys =
     (case (xs, ys) of
        ([], []) \<Rightarrow> True
      | ((j, x) # xs', (k, y) # ys') \<Rightarrow> j = k \<and> node_eq x y \<and> dict_eq xs' ys'
      | _ \<Rightarrow> False)"
  by pat_completeness auto
termination
  by (relation "measure (\<lambda>x. case x of
      Inl (a, b) \<Rightarrow> 2 * size a
    | Inr (Inl (xs, ys)) \<Rightarrow> 2 * size_list size xs + 1
    | Inr (Inr (xs, ys)) \<Rightarrow> 2 * size_list (size_prod (\<lambda>_. 0) size) xs + 1)") auto

declare node_eq.simps [simp del] nodes_eq.simps [simp del] dict_eq.simps [simp del]

definition node_neq :: "node \<Rightarrow> node \<Rightarrow> bool" where
  "node_neq a b \<longleftrightarrow> \<not> node_eq a b"

section \<open>Document\<close>

record document =
  doc_root :: node

definition document_new :: "node \<Rightarrow> document" where
  "document_new n = \<lparr>doc_root = n\<rparr>"

definition get_root :: "document \<Rightarrow> node" where
  "get_root d = doc_root d"

definition document_eq :: "document \<Rightarrow> document \<Rightarrow> bool" where
  "document_eq a b \<longleftrightarrow> node_eq (get_root a) (get_root b)"

definition document_neq :: "document \<Rightarrow> document \<Rightarrow> bool" where
  "document_neq a b \<longleftrightarrow> \<not> document_eq a b"

section \<open>Well-formed and exact nodes\<close>

primrec node_ok :: "node \<Rightarrow> bool" where
  "node_ok NNull = True"
| "node_ok (NArr xs) = list_all (\<lambda>b. b) (map node_ok xs)"
| "node_ok (NDict ps) = (sm_ok ps \<and> list_all (\<lambda>p. snd p) (map (map_prod id node_ok) ps))"
| "node_ok (NBool _) = True"
| "node_ok (NInt _) = True"
| "node_ok (NDbl _) = True"
| "node_ok (NStr _) = True"

lemma node_ok_NArr [simp]: "node_ok (NArr xs) \<longleftrightarrow> (\<forall>n \<in> set xs. node_ok n)"
  by (simp add: list_all_iff)

lemma node_ok_NDict [simp]: "node_ok (NDict ps) \<longleftrightarrow> sm_ok ps \<and> (\<forall>p \<in> set ps. node_ok (snd p))"
  by (simp add: list_all_iff)

declare node_ok.simps(2,3) [simp del]

text \<open>\<open>no_dbl n\<close>: no double inside; these are the nodes printing keeps exactly.\<close>

primrec no_dbl :: "node \<Rightarrow> bool" where
  "no_dbl NNull = True"
| "no_dbl (NArr xs) = list_all (\<lambda>b. b) (map no_dbl xs)"
| "no_dbl (NDict ps) = list_all (\<lambda>p. snd p) (map (map_prod id no_dbl) ps)"
| "no_dbl (NBool _) = True"
| "no_dbl (NInt _) = True"
| "no_dbl (NDbl _) = False"
| "no_dbl (NStr _) = True"

lemma no_dbl_NArr [simp]: "no_dbl (NArr xs) \<longleftrightarrow> (\<forall>n \<in> set xs. no_dbl n)"
  by (simp add: list_all_iff)

lemma no_dbl_NDict [simp]: "no_dbl (NDict ps) \<longleftrightarrow> (\<forall>p \<in> set ps. no_dbl (snd p))"
  by (simp add: list_all_iff)

declare no_dbl.simps(2,3) [simp del]

text \<open>The induction rule of nodes over their immediate subnodes.\<close>

lemma node_induct [case_names Null Arr Dict Bool Int Dbl Str]:
  assumes "P NNull" and "\<And>xs. (\<And>n. n \<in> set xs \<Longrightarrow> P n) \<Longrightarrow> P (NArr xs)"
    and "\<And>ps. (\<And>k n. (k, n) \<in> set ps \<Longrightarrow> P n) \<Longrightarrow> P (NDict ps)"
    and "\<And>b. P (NBool b)" and "\<And>i. P (NInt i)" and "\<And>d. P (NDbl d)" and "\<And>s. P (NStr s)"
  shows "P n"
proof (induction n)
  case (NDict ps)
  then show ?case by (intro assms(3)) force
qed (use assms in auto)

lemma node_eq_refl: "no_dbl n \<Longrightarrow> node_eq n n"
proof (induction n rule: node_induct)
  case (Arr xs)
  then have "nodes_eq xs xs" by (induction xs) (auto simp: nodes_eq.simps)
  then show ?case by (simp add: node_eq.simps)
next
  case (Dict ps)
  then have "\<forall>p \<in> set ps. node_eq (snd p) (snd p)" by fastforce
  then have "dict_eq ps ps" by (induction ps) (auto simp: dict_eq.simps)
  then show ?case by (simp add: node_eq.simps)
qed (auto simp: node_eq.simps)

end
