(* ===== verification/Json_Load.thy ===== *)
theory Json_Load
  imports Json_Node
begin

text \<open>
  \<^verbatim>\<open>json.cpp\<close>, lines 1-232 and 354: the recursive descent parser. An input stream is the text
  not yet read: \<^verbatim>\<open>peek\<close> looks at its head, \<^verbatim>\<open>get\<close> removes it, \<^verbatim>\<open>input >> c\<close> skips white space
  first, \<^verbatim>\<open>putback\<close> puts the character back in front. The stream's flags need no component of
  their own: they are set only when the text is exhausted, and from then on reading fails, as
  it does from an empty rest. Messages are those of the exceptions thrown.
\<close>

type_synonym stream = string

definition get_char :: "stream \<Rightarrow> (char \<times> stream) option" where
  "get_char s = (case dropWhile isspace s of [] \<Rightarrow> None | c # r \<Rightarrow> Some (c, r))"

definition peek_is :: "(char \<Rightarrow> bool) \<Rightarrow> stream \<Rightarrow> bool" where
  "peek_is P s = (case s of [] \<Rightarrow> False | c # r \<Rightarrow> P c)"

lemma get_char_len: "get_char s = Some (c, r) \<Longrightarrow> length r < length s"
  using length_dropWhile_le [of isspace s] by (auto simp: get_char_def split: list.splits)

definition quoted :: "string \<Rightarrow> string" where
  "quoted s = [CHR 0x27] @ s @ [CHR 0x27]"

section \<open>Literals\<close>

fun load_literal :: "stream \<Rightarrow> string \<times> stream" where
  "load_literal (c # r) =
     (if isalpha c then (let (s, r') = load_literal r in (c # s, r')) else ([], c # r))"
| "load_literal [] = ([], [])"

lemma load_literal_eq: "load_literal s = (takeWhile isalpha s, dropWhile isalpha s)"
  by (induction s rule: load_literal.induct) auto

definition load_bool :: "stream \<Rightarrow> (node \<times> stream) result" where
  "load_bool input =
     (let (s, r) = load_literal input
      in if s = ''true'' then Inr (NBool True, r)
         else if s = ''false'' then Inr (NBool False, r)
         else Inl (Parsing_error (''Failed to parse '' @ quoted s @ '' as bool'')))"

definition load_null :: "stream \<Rightarrow> (node \<times> stream) result" where
  "load_null input =
     (let (s, r) = load_literal input
      in if s = ''null'' then Inr (NNull, r)
         else Inl (Parsing_error (''Failed to parse '' @ quoted s @ '' as null'')))"

section \<open>Strings\<close>

definition unescape :: "char \<Rightarrow> char option" where
  "unescape c =
     (if c = CHR ''n'' then Some (CHR 0x0A)
      else if c = CHR ''t'' then Some (CHR 0x09)
      else if c = CHR ''r'' then Some (CHR 0x0D)
      else if c = CHR 0x22 then Some (CHR 0x22)
      else if c = CHR 0x5C then Some (CHR 0x5C)
      else None)"

fun load_chars :: "stream \<Rightarrow> string \<Rightarrow> (string \<times> stream) result" where
  "load_chars [] s = Inl (Parsing_error ''String parsing error'')"
| "load_chars (ch # r) s =
     (if ch = CHR 0x22 then Inr (s, r)
      else if ch = CHR 0x5C then
        (case r of
           [] \<Rightarrow> Inl (Parsing_error ''String parsing error'')
         | escaped_char # r' \<Rightarrow>
             (case unescape escaped_char of
                None \<Rightarrow> Inl (Parsing_error (''Unrecognized escape sequence '' @ [CHR 0x5C, escaped_char]))
              | Some c \<Rightarrow> load_chars r' (s @ [c])))
      else if ch = CHR 0x0A \<or> ch = CHR 0x0D then Inl (Parsing_error ''Unexpected end of line'')
      else load_chars r (s @ [ch]))"

definition load_string :: "stream \<Rightarrow> (node \<times> stream) result" where
  "load_string input = bindR (load_chars input []) (\<lambda>(s, r). Inr (NStr s, r))"

lemma load_string_Inr: "load_string s = Inr (n, r) \<longleftrightarrow> (\<exists>t. n = NStr t \<and> load_chars s [] = Inr (t, r))"
  by (auto simp: load_string_def bindR_eq_Inr)

lemma load_chars_len: "load_chars s acc = Inr (t, r) \<Longrightarrow> length r < length s"
proof (induction s acc rule: load_chars.induct)
  case (1 acc)
  then show ?case by simp
next
  case (2 ch rest acc)
  note escaped = 2(1) and plain = 2(2) and ret = 2(3)
  show ?case
  proof (cases "ch = CHR 0x22 \<or> ch \<noteq> CHR 0x5C")
    case True
    with ret plain show ?thesis by (auto split: if_splits intro: less_SucI)
  next
    case False
    then obtain c r' x where "rest = c # r'" "unescape c = Some x" "load_chars r' (acc @ [x]) = Inr (t, r)"
      using ret by (auto split: list.splits option.splits)
    with escaped [of c r' x] False show ?thesis by simp
  qed
qed

lemma load_string_len: "load_string s = Inr (n, r) \<Longrightarrow> length r < length s"
  using load_chars_len by (auto simp: load_string_Inr)

lemma load_bool_len: "load_bool s = Inr (n, r) \<Longrightarrow> length r < length s"
  using length_dropWhile_le [of isalpha "tl s"]
  by (cases s) (auto simp: load_bool_def load_literal_eq Let_def split: if_splits)

lemma load_null_len: "load_null s = Inr (n, r) \<Longrightarrow> length r < length s"
  using length_dropWhile_le [of isalpha "tl s"]
  by (cases s) (auto simp: load_null_def load_literal_eq Let_def split: if_splits)

section \<open>Numbers\<close>

text \<open>
  \<open>read_char\<close> appends the next character; it is reached only after a \<^verbatim>\<open>peek\<close> that saw one.
\<close>

definition read_char :: "string \<times> stream \<Rightarrow> (string \<times> stream) result" where
  "read_char p = (case p of
     (num, c # r) \<Rightarrow> Inr (num @ [c], r)
   | (num, []) \<Rightarrow> Inl (Parsing_error ''Failed to read number from stream''))"

fun digits_loop :: "string \<Rightarrow> stream \<Rightarrow> string \<times> stream" where
  "digits_loop num (c # r) = (if isdigit c then digits_loop (num @ [c]) r else (num, c # r))"
| "digits_loop num [] = (num, [])"

definition read_digits :: "string \<times> stream \<Rightarrow> (string \<times> stream) result" where
  "read_digits p =
     (if \<not> peek_is isdigit (snd p) then Inl (Parsing_error ''A digit is expected'')
      else Inr (digits_loop (fst p) (snd p)))"

lemma digits_loop_eq: "digits_loop num s = (num @ takeWhile isdigit s, dropWhile isdigit s)"
  by (induction num s rule: digits_loop.induct) auto

definition read_whole :: "stream \<Rightarrow> (string \<times> stream) result" where
  "read_whole s =
     bindR (if peek_is (\<lambda>c. c = CHR ''-'') s then read_char ([], s) else Inr ([], s)) (\<lambda>p.
       if peek_is (\<lambda>c. c = CHR ''0'') (snd p) then read_char p else read_digits p)"

definition read_fraction :: "string \<times> stream \<Rightarrow> ((string \<times> stream) \<times> bool) result" where
  "read_fraction p =
     (if peek_is (\<lambda>c. c = CHR ''.'') (snd p)
      then bindR (read_char p) (\<lambda>p. bindR (read_digits p) (\<lambda>p. Inr (p, False)))
      else Inr (p, True))"

definition read_exponent :: "(string \<times> stream) \<times> bool \<Rightarrow> ((string \<times> stream) \<times> bool) result" where
  "read_exponent q =
     (let (p, integral) = q in
      if peek_is (\<lambda>c. c = CHR ''e'' \<or> c = CHR ''E'') (snd p)
      then bindR (read_char p) (\<lambda>p.
             bindR (if peek_is (\<lambda>c. c = CHR ''+'' \<or> c = CHR ''-'') (snd p) then read_char p else Inr p)
               (\<lambda>p. bindR (read_digits p) (\<lambda>p. Inr (p, False))))
      else Inr (p, integral))"

text \<open>An integer that does not fit becomes a double; a double that does not fit is an error.\<close>

definition convert_number :: "string \<Rightarrow> bool \<Rightarrow> node result" where
  "convert_number parsed_num integral =
     (case (if integral then stoi parsed_num else Inl Out_of_range) of
        Inr i \<Rightarrow> Inr (NInt i)
      | Inl _ \<Rightarrow>
          (case stod parsed_num of
             Inr d \<Rightarrow> Inr (NDbl d)
           | Inl _ \<Rightarrow> Inl (Parsing_error (''Failed to convert '' @ parsed_num @ '' to number''))))"

definition load_number :: "stream \<Rightarrow> (node \<times> stream) result" where
  "load_number input =
     bindR (read_whole input) (\<lambda>p. bindR (read_fraction p) (\<lambda>q. bindR (read_exponent q)
       (\<lambda>((parsed_num, r), integral). bindR (convert_number parsed_num integral) (\<lambda>n. Inr (n, r)))))"

lemma read_char_Inr: "read_char (num, s) = Inr (num', r) \<longleftrightarrow> (\<exists>c. s = c # r \<and> num' = num @ [c])"
  by (auto simp: read_char_def split: list.splits)

lemma read_digits_Inr:
  "read_digits (num, s) = Inr (num', r) \<Longrightarrow> length r < length s"
  using length_dropWhile_le [of isdigit "tl s"]
  by (auto simp: read_digits_def digits_loop_eq peek_is_def split: if_splits list.splits)

lemma read_whole_len: "read_whole s = Inr (num, r) \<Longrightarrow> length r < length s"
  by (auto simp: read_whole_def bindR_eq_Inr read_char_Inr split: if_splits dest: read_digits_Inr)

lemma read_fraction_len: "read_fraction (num, s) = Inr ((num', r), b) \<Longrightarrow> length r \<le> length s"
  by (fastforce simp: read_fraction_def bindR_eq_Inr read_char_Inr split: if_splits dest: read_digits_Inr)

lemma read_exponent_len: "read_exponent ((num, s), a) = Inr ((num', r), b) \<Longrightarrow> length r \<le> length s"
  by (fastforce simp: read_exponent_def bindR_eq_Inr read_char_Inr split: if_splits dest: read_digits_Inr)

lemma load_number_len: "load_number s = Inr (n, r) \<Longrightarrow> length r < length s"
  by (force simp: load_number_def bindR_eq_Inr dest: read_whole_len read_fraction_len read_exponent_len)

section \<open>Arrays, dictionaries, nodes\<close>

text \<open>
  \<open>load_array\<close> and \<open>load_dict\<close> are the loops of the functions of this name, with what has been
  collected so far as an argument. After \<open>input >> c\<close> fails, \<open>c\<close> keeps its value: the quote.
\<close>

function load_node :: "stream \<Rightarrow> (node \<times> stream) result"
  and load_array :: "node list \<Rightarrow> stream \<Rightarrow> (node \<times> stream) result"
  and load_dict :: "dict \<Rightarrow> stream \<Rightarrow> (node \<times> stream) result" where
  "load_node input =
     (case get_char input of
        None \<Rightarrow> Inl (Parsing_error ''Unexpected EOF'')
      | Some (c, r) \<Rightarrow>
          if c = CHR ''['' then load_array [] r
          else if c = CHR ''{'' then load_dict [] r
          else if c = CHR 0x22 then load_string r
          else if c = CHR ''t'' \<or> c = CHR ''f'' then load_bool (c # r)
          else if c = CHR ''n'' then load_null (c # r)
          else load_number (c # r))"
| "load_array nodes input =
     (case get_char input of
        None \<Rightarrow> Inl (Parsing_error ''Array parsing error'')
      | Some (c, r) \<Rightarrow>
          if c = CHR '']'' then Inr (NArr nodes, r)
          else bindR (load_node (if c \<noteq> CHR '','' then c # r else r)) (\<lambda>(n, r').
                 load_array (nodes @ [n]) r'))"
| "load_dict dict input =
     (case get_char input of
        None \<Rightarrow> Inl (Parsing_error ''Dictionary parsing error'')
      | Some (c, r) \<Rightarrow>
          if c = CHR ''}'' then Inr (NDict dict, r)
          else if c = CHR 0x22 then
            bindR (load_string r) (\<lambda>(k, r'). bindR (as_string k) (\<lambda>key.
              case get_char r' of
                None \<Rightarrow> Inl (Parsing_error ('': is expected but '' @ quoted [CHR 0x22] @ '' has been found''))
              | Some (c', r'') \<Rightarrow>
                  if c' = CHR '':'' then
                    if map_of dict key \<noteq> None
                    then Inl (Parsing_error (''Duplicate key '' @ quoted key @ '' have been found''))
                    else bindR (load_node r'') (\<lambda>(n, r3). load_dict (sm_emplace key n dict) r3)
                  else Inl (Parsing_error ('': is expected but '' @ quoted [c'] @ '' has been found''))))
          else if c \<noteq> CHR '','' then
            Inl (Parsing_error (quoted '','' @ '' is expected but '' @ quoted [c] @ '' has been found''))
          else load_dict dict r)"
  by pat_completeness auto

text \<open>
  A node takes at least one character, so the loops end. The fact is proved first on the domain
  of the functions, then used for their termination.
\<close>

lemma load_node_step:
  assumes eq: "load_node s =
     (case get_char s of
        None \<Rightarrow> Inl (Parsing_error ''Unexpected EOF'')
      | Some (c, r) \<Rightarrow>
          if c = CHR ''['' then load_array [] r
          else if c = CHR ''{'' then load_dict [] r
          else if c = CHR 0x22 then load_string r
          else if c = CHR ''t'' \<or> c = CHR ''f'' then load_bool (c # r)
          else if c = CHR ''n'' then load_null (c # r)
          else load_number (c # r))"
    and "load_node s = Inr (n, r)"
  obtains c r' where "get_char s = Some (c, r')"
    and "c = CHR ''['' \<and> load_array [] r' = Inr (n, r) \<or>
         c \<noteq> CHR ''['' \<and> c = CHR ''{'' \<and> load_dict [] r' = Inr (n, r) \<or>
         load_string r' = Inr (n, r) \<or> load_bool (c # r') = Inr (n, r) \<or>
         load_null (c # r') = Inr (n, r) \<or> load_number (c # r') = Inr (n, r)"
  using assms by (simp split: option.splits prod.splits if_splits)

lemma load_array_step:
  assumes eq: "load_array ns s =
     (case get_char s of
        None \<Rightarrow> Inl (Parsing_error ''Array parsing error'')
      | Some (c, r) \<Rightarrow>
          if c = CHR '']'' then Inr (NArr ns, r)
          else bindR (load_node (if c \<noteq> CHR '','' then c # r else r)) (\<lambda>(n, r').
                 load_array (ns @ [n]) r'))"
    and "load_array ns s = Inr (n, r)"
  obtains r' where "get_char s = Some (CHR '']'', r')" and "n = NArr ns" and "r = r'"
  | c r' m r2 where "get_char s = Some (c, r')" and "c \<noteq> CHR '']''"
      and "load_node (if c \<noteq> CHR '','' then c # r' else r') = Inr (m, r2)"
      and "load_array (ns @ [m]) r2 = Inr (n, r)"
proof (cases "get_char s")
  case None
  then show ?thesis using assms by simp
next
  case (Some p)
  obtain c r' where p: "p = (c, r')" by (cases p)
  show ?thesis
  proof (cases "c = CHR '']''")
    case True
    then show ?thesis using assms Some p that(1) by simp
  next
    case False
    then have "bindR (load_node (if c \<noteq> CHR '','' then c # r' else r')) (\<lambda>(n, r'). load_array (ns @ [n]) r')
        = Inr (n, r)" using assms Some p by simp
    then obtain m r2 where "load_node (if c \<noteq> CHR '','' then c # r' else r') = Inr (m, r2)"
        "load_array (ns @ [m]) r2 = Inr (n, r)" unfolding bindR_eq_Inr by auto
    then show ?thesis using that(2) Some p False by blast
  qed
qed

lemma load_dict_step:
  assumes eq: "load_dict d s =
     (case get_char s of
        None \<Rightarrow> Inl (Parsing_error ''Dictionary parsing error'')
      | Some (c, r) \<Rightarrow>
          if c = CHR ''}'' then Inr (NDict d, r)
          else if c = CHR 0x22 then
            bindR (load_string r) (\<lambda>(k, r'). bindR (as_string k) (\<lambda>key.
              case get_char r' of
                None \<Rightarrow> Inl (Parsing_error ('': is expected but '' @ quoted [CHR 0x22] @ '' has been found''))
              | Some (c', r'') \<Rightarrow>
                  if c' = CHR '':'' then
                    if map_of d key \<noteq> None
                    then Inl (Parsing_error (''Duplicate key '' @ quoted key @ '' have been found''))
                    else bindR (load_node r'') (\<lambda>(n, r3). load_dict (sm_emplace key n d) r3)
                  else Inl (Parsing_error ('': is expected but '' @ quoted [c'] @ '' has been found''))))
          else if c \<noteq> CHR '','' then
            Inl (Parsing_error (quoted '','' @ '' is expected but '' @ quoted [c] @ '' has been found''))
          else load_dict d r)"
    and "load_dict d s = Inr (n, r)"
  obtains r' where "get_char s = Some (CHR ''}'', r')" and "n = NDict d" and "r = r'"
  | r' where "get_char s = Some (CHR '','', r')" and "load_dict d r' = Inr (n, r)"
  | r' key r2 r3 m r4 where "get_char s = Some (CHR 0x22, r')"
      and "load_string r' = Inr (NStr key, r2)" and "get_char r2 = Some (CHR '':'', r3)"
      and "map_of d key = None" and "load_node r3 = Inr (m, r4)"
      and "load_dict (sm_emplace key m d) r4 = Inr (n, r)"
proof (cases "get_char s")
  case None
  then show ?thesis using trans [OF eq [symmetric] assms(2)] by simp
next
  case (Some p)
  obtain c r' where p: "p = (c, r')" by (cases p)
  consider "c = CHR ''}''" | "c = CHR 0x22" | "c = CHR '',''"
    using trans [OF eq [symmetric] assms(2)] Some p by (fastforce split: if_splits)
  then show ?thesis
  proof cases
    case 1
    then show ?thesis using trans [OF eq [symmetric] assms(2)] Some p that(1) by simp
  next
    case 2
    then obtain k r2 key where k: "load_string r' = Inr (k, r2)" "as_string k = Inr key"
        and q: "(case get_char r2 of
                None \<Rightarrow> Inl (Parsing_error ('': is expected but '' @ quoted [CHR 0x22] @ '' has been found''))
              | Some (c', r'') \<Rightarrow>
                  if c' = CHR '':'' then
                    if map_of d key \<noteq> None
                    then Inl (Parsing_error (''Duplicate key '' @ quoted key @ '' have been found''))
                    else bindR (load_node r'') (\<lambda>(n, r3). load_dict (sm_emplace key n d) r3)
                  else Inl (Parsing_error ('': is expected but '' @ quoted [c'] @ '' has been found'')))
          = Inr (n, r)"
      using trans [OF eq [symmetric] assms(2)] Some p by (auto simp: bindR_eq_Inr)
    have "k = NStr key" using k(2) by (simp add: as_string_def split: node.splits)
    from q obtain r3 m r4 where "get_char r2 = Some (CHR '':'', r3)" "map_of d key = None"
        "load_node r3 = Inr (m, r4)" "load_dict (sm_emplace key m d) r4 = Inr (n, r)"
      by (auto simp: bindR_eq_Inr split: option.splits if_splits)
    then show ?thesis using that(3) Some p 2 k(1) \<open>k = NStr key\<close> by blast
  next
    case 3
    then show ?thesis using trans [OF eq [symmetric] assms(2)] Some p that(2) by simp
  qed
qed

lemma load_shortens:
  "load_node_load_array_load_dict_dom (Inl s) \<Longrightarrow>
     \<forall>n r. load_node s = Inr (n, r) \<longrightarrow> length r < length s"
  "load_node_load_array_load_dict_dom (Inr (Inl (ns, s))) \<Longrightarrow>
     \<forall>n r. load_array ns s = Inr (n, r) \<longrightarrow> length r < length s"
  "load_node_load_array_load_dict_dom (Inr (Inr (d, s))) \<Longrightarrow>
     \<forall>n r. load_dict d s = Inr (n, r) \<longrightarrow> length r < length s"
proof (induction s and ns s and d s rule: load_node_load_array_load_dict.pinduct)
  case (1 s)
  show ?case
  proof (intro allI impI)
    fix n r assume "load_node s = Inr (n, r)"
    from load_node.psimps [OF 1(1)] this show "length r < length s"
    proof (cases rule: load_node_step)
      case (1 c r')
      have "length r < length r' \<or> length r < length (c # r')"
        using 1(2)
      proof (elim disjE conjE)
        assume "c = CHR ''[''" "load_array [] r' = Inr (n, r)"
        then show ?thesis using "1.IH"(1) [of "(c, r')" c r'] 1(1) by simp
      next
        assume "c \<noteq> CHR ''[''" "c = CHR ''{''" "load_dict [] r' = Inr (n, r)"
        then show ?thesis using "1.IH"(2) [of "(c, r')" c r'] 1(1) by simp
      qed (blast dest: load_string_len load_bool_len load_null_len load_number_len)+
      then show ?thesis using get_char_len [OF 1(1)] by auto
    qed
  qed
next
  case (2 ns s)
  show ?case
  proof (intro allI impI)
    fix n r assume "load_array ns s = Inr (n, r)"
    from load_array.psimps [OF 2(1)] this show "length r < length s"
    proof (cases rule: load_array_step)
      case (1 r')
      then show ?thesis using get_char_len by simp
    next
      case (2 c r' m r2)
      then have "length r2 < length (if c \<noteq> CHR '','' then c # r' else r')" "length r < length r2"
        using "2.IH"(1) [of "(c, r')" c r'] "2.IH"(2) [of "(c, r')" c r' "(m, r2)" m r2] by simp_all
      then show ?thesis using get_char_len [OF 2(1)] by (simp split: if_splits)
    qed
  qed
next
  case (3 d s)
  show ?case
  proof (intro allI impI)
    fix n r assume "load_dict d s = Inr (n, r)"
    from load_dict.psimps [OF 3(1)] this show "length r < length s"
    proof (cases rule: load_dict_step)
      case (1 r')
      then show ?thesis using get_char_len by simp
    next
      case (2 r')
      then have "length r < length r'" using "3.IH"(3) [of "(CHR '','', r')"] by simp
      then show ?thesis using get_char_len [OF 2(1)] by simp
    next
      case (3 r' key r2 r3 m r4)
      have "length r4 < length r3"
        using "3.IH"(1) [of "(CHR 0x22, r')" "CHR 0x22" r' "(NStr key, r2)" "NStr key" r2 key
            "(CHR '':'', r3)" "CHR '':''" r3] 3 by (simp add: as_string_def)
      moreover have "length r < length r4"
        using "3.IH"(2) [of "(CHR 0x22, r')" "CHR 0x22" r' "(NStr key, r2)" "NStr key" r2 key
            "(CHR '':'', r3)" "CHR '':''" r3 "(m, r4)" m r4] 3 by (simp add: as_string_def)
      ultimately show ?thesis
        using get_char_len [OF 3(1)] get_char_len [OF 3(3)] load_string_len [OF 3(2)] by simp
    qed
  qed
qed

lemma load_total: "All load_node_load_array_load_dict_dom"
proof (relation "measure (\<lambda>x. case x of Inl s \<Rightarrow> 2 * length s | Inr (Inl (_, s)) \<Rightarrow> 2 * length s + 1
    | Inr (Inr (_, s)) \<Rightarrow> 2 * length s + 1)", goal_cases)
  case (5 nodes input x2 x y xa xb ya)
  then show ?case
    using load_shortens(1) [of "if x \<noteq> CHR '','' then x # y else y"] get_char_len [of input x y]
    by (auto split: if_splits)
next
  case (7 dict input x2 x y xa xb ya xc x2a xd yb xe xf yc)
  then show ?case
    using load_shortens(1) [of yb] get_char_len [of input x y] get_char_len [of ya xd yb]
      load_string_len [of y xb ya] by auto
next
  case (6 dict input x2 x y xa xb ya xc x2a xd yb)
  then show ?case
    using get_char_len [of input x y] get_char_len [of ya xd yb] load_string_len [of y xb ya] by auto
qed (auto dest: get_char_len)

termination load_node
  by (rule load_total)

lemma load_node_shortens: "load_node s = Inr (n, r) \<Longrightarrow> length r < length s"
  using load_shortens(1) [of s] load_total by blast

declare load_node.simps [simp del] load_array.simps [simp del] load_dict.simps [simp del]

definition load :: "stream \<Rightarrow> (document \<times> stream) result" where
  "load input = bindR (load_node input) (\<lambda>(n, r). Inr (document_new n, r))"

section \<open>What the parser returns\<close>

lemma scalar_ok:
  "load_string s = Inr (n, r) \<Longrightarrow> node_ok n" "load_bool s = Inr (n, r) \<Longrightarrow> node_ok n"
  "load_null s = Inr (n, r) \<Longrightarrow> node_ok n" "load_number s = Inr (n, r) \<Longrightarrow> node_ok n"
  by (auto simp: load_string_Inr load_bool_def load_null_def load_number_def convert_number_def
      bindR_eq_Inr Let_def load_literal_eq split: if_splits sum.splits)

lemma sm_emplace_set: "set (sm_emplace k v d) \<subseteq> insert (k, v) (set d)"
  by (induction k v d rule: sm_emplace.induct) auto

lemma load_ok_all:
  "\<forall>n r. load_node s = Inr (n, r) \<longrightarrow> node_ok n"
  "(\<forall>m \<in> set ns. node_ok m) \<longrightarrow> (\<forall>n r. load_array ns s = Inr (n, r) \<longrightarrow> node_ok n)"
  "node_ok (NDict d) \<longrightarrow> (\<forall>n r. load_dict d s = Inr (n, r) \<longrightarrow> node_ok n)"
proof (induction s and ns s and d s rule: load_node_load_array_load_dict.induct)
  case (1 s)
  show ?case
  proof (intro allI impI)
    fix n r assume "load_node s = Inr (n, r)"
    from load_node.simps this show "node_ok n"
    proof (cases rule: load_node_step)
      case (1 c r')
      from 1(2) show ?thesis
      proof (elim disjE conjE)
        assume "c = CHR ''[''" "load_array [] r' = Inr (n, r)"
        then show ?thesis using "1.IH"(1) [of "(c, r')" c r'] 1(1) by simp
      next
        assume "c \<noteq> CHR ''[''" "c = CHR ''{''" "load_dict [] r' = Inr (n, r)"
        then show ?thesis using "1.IH"(2) [of "(c, r')" c r'] 1(1) by simp
      qed (blast dest: scalar_ok)+
    qed
  qed
next
  case (2 ns s)
  show ?case
  proof (intro allI impI)
    fix n r assume ns: "\<forall>m \<in> set ns. node_ok m" and "load_array ns s = Inr (n, r)"
    from load_array.simps this(2) show "node_ok n"
    proof (cases rule: load_array_step)
      case (1 r')
      then show ?thesis using ns by simp
    next
      case (2 c r' m r2)
      have "node_ok m" using "2.IH"(1) [OF 2(1) refl 2(2)] 2(3) by blast
      then have "\<forall>k \<in> set (ns @ [m]). node_ok k" using ns by simp
      then show ?thesis using "2.IH"(2) [OF 2(1) refl 2(2,3) refl] 2(4) by blast
    qed
  qed
next
  case (3 d s)
  show ?case
  proof (intro allI impI)
    fix n r assume d: "node_ok (NDict d)" and "load_dict d s = Inr (n, r)"
    from load_dict.simps this(2) show "node_ok n"
    proof (cases rule: load_dict_step)
      case (1 r')
      then show ?thesis using d by simp
    next
      case (2 r')
      then show ?thesis using "3.IH"(3) [of "(CHR '','', r')"] d by simp
    next
      case (3 r' key r2 r3 m r4)
      have "node_ok m"
        using "3.IH"(1) [of "(CHR 0x22, r')" "CHR 0x22" r' "(NStr key, r2)" "NStr key" r2 key
            "(CHR '':'', r3)" "CHR '':''" r3] 3 by (simp add: as_string_def)
      then have "node_ok (NDict (sm_emplace key m d))"
        using d sm_emplace_set [of key m d] by (auto simp: sm_ok_emplace)
      then show ?thesis
        using "3.IH"(2) [of "(CHR 0x22, r')" "CHR 0x22" r' "(NStr key, r2)" "NStr key" r2 key
            "(CHR '':'', r3)" "CHR '':''" r3 "(m, r4)" m r4] 3 by (simp add: as_string_def)
    qed
  qed
qed

lemmas load_node_ok = load_ok_all(1) [rule_format]

text \<open>White space before a node does not matter.\<close>

lemma get_char_space: "isspace c \<Longrightarrow> get_char (c # s) = get_char s"
  by (simp add: get_char_def)

lemma get_char_Cons: "\<not> isspace c \<Longrightarrow> get_char (c # s) = Some (c, s)"
  by (simp add: get_char_def)

lemma load_node_space: "isspace c \<Longrightarrow> load_node (c # s) = load_node s"
  by (simp add: load_node.simps [of "c # s"] load_node.simps [of s] get_char_space)

end
