(* ===== verification/Json_Print.thy ===== *)
theory Json_Print
  imports Json_Load
begin

text \<open>
  \<^verbatim>\<open>json.cpp\<close>, lines 234-360: the printer, as the text it writes to the stream. The main result
  is the round trip: what \<^verbatim>\<open>Print\<close> writes of a document without doubles, \<^verbatim>\<open>Load\<close> reads back
  unchanged, whatever follows it. Doubles are printed with six significant digits and come back
  rounded, or as integers.
\<close>

record print_ctx =
  indent_step :: nat
  indent :: nat

definition print_ctx_new :: print_ctx where
  "print_ctx_new = \<lparr>indent_step = 4, indent = 0\<rparr>"

definition print_indent :: "print_ctx \<Rightarrow> string" where
  "print_indent ctx = replicate (indent ctx) (CHR '' '')"

definition indented :: "print_ctx \<Rightarrow> print_ctx" where
  "indented ctx = \<lparr>indent_step = indent_step ctx, indent = indent_step ctx + indent ctx\<rparr>"

definition escape :: "char \<Rightarrow> string" where
  "escape c =
     (if c = CHR 0x0D then [CHR 0x5C, CHR ''r'']
      else if c = CHR 0x0A then [CHR 0x5C, CHR ''n'']
      else if c = CHR 0x22 \<or> c = CHR 0x5C then [CHR 0x5C, c]
      else [c])"

definition print_string :: "string \<Rightarrow> string" where
  "print_string s = [CHR 0x22] @ concat (map escape s) @ [CHR 0x22]"

function print_node :: "print_ctx \<Rightarrow> node \<Rightarrow> string"
  and print_elems :: "print_ctx \<Rightarrow> bool \<Rightarrow> node list \<Rightarrow> string"
  and print_members :: "print_ctx \<Rightarrow> bool \<Rightarrow> dict \<Rightarrow> string" where
  "print_node ctx node =
     (case node of
        NNull \<Rightarrow> ''null''
      | NBool b \<Rightarrow> (if b then ''true'' else ''false'')
      | NInt i \<Rightarrow> int_str (sint i)
      | NDbl d \<Rightarrow> double_str d
      | NStr s \<Rightarrow> print_string s
      | NArr nodes \<Rightarrow> ''['' @ [CHR 0x0A] @ print_elems (indented ctx) True nodes @
          [CHR 0x0A] @ print_indent ctx @ '']''
      | NDict nodes \<Rightarrow> ''{'' @ [CHR 0x0A] @ print_members (indented ctx) True nodes @
          [CHR 0x0A] @ print_indent ctx @ ''}'')"
| "print_elems inner_ctx first nodes =
     (case nodes of
        [] \<Rightarrow> []
      | node # rest \<Rightarrow> (if first then [] else '','' @ [CHR 0x0A]) @ print_indent inner_ctx @
          print_node inner_ctx node @ print_elems inner_ctx False rest)"
| "print_members inner_ctx first nodes =
     (case nodes of
        [] \<Rightarrow> []
      | (key, node) # rest \<Rightarrow> (if first then [] else '','' @ [CHR 0x0A]) @ print_indent inner_ctx @
          print_string key @ '': '' @ print_node inner_ctx node @ print_members inner_ctx False rest)"
  by pat_completeness auto
termination
  by (relation "measure (\<lambda>x. case x of
      Inl (_, n) \<Rightarrow> 2 * size n
    | Inr (Inl (_, _, xs)) \<Rightarrow> 2 * size_list size xs + 1
    | Inr (Inr (_, _, ps)) \<Rightarrow> 2 * size_list (size_prod (\<lambda>_. 0) size) ps + 1)") auto

declare print_node.simps [simp del] print_elems.simps [simp del] print_members.simps [simp del]

definition print_doc :: "document \<Rightarrow> string" where
  "print_doc doc = print_node print_ctx_new (get_root doc)"

section \<open>Strings come back\<close>

lemma load_chars_escape:
  "load_chars (escape c @ r) acc = load_chars r (acc @ [c])"
  by (auto simp: escape_def unescape_def)

lemma load_chars_print:
  "load_chars (concat (map escape s) @ CHR 0x22 # rest) acc = Inr (acc @ s, rest)"
  by (induction s arbitrary: acc) (simp_all add: load_chars_escape)

lemma load_print_string: "load_string (tl (print_string s) @ rest) = Inr (NStr s, rest)"
  using load_chars_print [of s rest "[]"] by (simp add: load_string_def print_string_def)

section \<open>Integers come back\<close>

text \<open>What may follow a printed number or literal.\<close>

definition stops :: "string \<Rightarrow> bool" where
  "stops rest \<longleftrightarrow> (case rest of [] \<Rightarrow> True | c # _ \<Rightarrow> \<not> isdigit c \<and> \<not> isalpha c \<and> c \<noteq> CHR ''.'')"

lemma stops_simps [simp]: "stops []" "stops (CHR '','' # r)" "stops (CHR 0x0A # r)"
  by (simp_all add: stops_def isdigit_def isalpha_def)

lemma takeWhile_stop:
  "\<forall>c \<in> set s. P c \<Longrightarrow> (\<And>c r. rest = c # r \<Longrightarrow> \<not> P c) \<Longrightarrow>
     takeWhile P (s @ rest) = s \<and> dropWhile P (s @ rest) = rest"
  by (induction s) (cases rest; auto)+

lemma read_digits_dec:
  assumes "stops rest"
  shows "read_digits (num, dec n @ rest) = Inr (num @ dec n, rest)"
proof -
  have "takeWhile isdigit (dec n @ rest) = dec n \<and> dropWhile isdigit (dec n @ rest) = rest"
    using assms dec_digits by (intro takeWhile_stop) (auto simp: stops_def)
  moreover have "peek_is isdigit (dec n @ rest)" using dec_Cons [of n] by (auto simp: peek_is_def)
  ultimately show ?thesis by (simp add: read_digits_def digits_loop_eq)
qed

lemma read_nat:
  assumes "stops rest"
  shows "(if peek_is (\<lambda>c. c = CHR ''0'') (dec n @ rest) then read_char (num, dec n @ rest)
    else read_digits (num, dec n @ rest)) = Inr (num @ dec n, rest)"
proof (cases "n = 0")
  case True
  then show ?thesis by (simp add: peek_is_def read_char_def)
next
  case False
  obtain c r where "dec n = c # r" using dec_Cons by blast
  then show ?thesis using hd_dec [of n] False read_digits_dec [OF assms, of num n] by (simp add: peek_is_def)
qed

lemma read_int:
  assumes "stops rest"
  shows "read_whole (int_str i @ rest) = Inr (int_str i, rest)"
proof (cases "i < 0")
  case True
  then show ?thesis using read_nat [OF assms, of "nat (- i)" "[CHR ''-'']"]
    by (simp add: read_whole_def int_str_def peek_is_def read_char_def)
next
  case False
  obtain c r where c: "dec (nat i) = c # r" "isdigit c" using dec_Cons by blast
  then have "c \<noteq> CHR ''-''" by (auto simp: isdigit_def)
  then have "read_whole (dec (nat i) @ rest) =
      (if peek_is (\<lambda>c. c = CHR ''0'') (dec (nat i) @ rest) then read_char ([], dec (nat i) @ rest)
       else read_digits ([], dec (nat i) @ rest))"
    using c by (simp add: read_whole_def peek_is_def)
  then show ?thesis using read_nat [OF assms, of "nat i" "[]"] False by (simp add: int_str_def)
qed

lemma load_print_int:
  assumes "stops rest"
  shows "load_number (int_str (sint i) @ rest) = Inr (NInt i, rest)"
proof -
  have "\<not> peek_is (\<lambda>c. c = CHR ''.'') rest" "\<not> peek_is (\<lambda>c. c = CHR ''e'' \<or> c = CHR ''E'') rest"
    using assms by (auto simp: stops_def peek_is_def isalpha_def split: list.splits)
  then show ?thesis
    by (simp add: load_number_def read_int [OF assms] read_fraction_def read_exponent_def
        convert_number_def stoi_int_str)
qed

lemma int_str_Cons: "\<exists>c r. int_str i = c # r \<and> (isdigit c \<or> c = CHR ''-'')"
  using dec_Cons [of "nat i"] by (auto simp: int_str_def)

lemma load_literal_stop:
  "\<forall>c \<in> set s. isalpha c \<Longrightarrow> stops rest \<Longrightarrow> load_literal (s @ rest) = (s, rest)"
  using takeWhile_stop [of s isalpha rest] by (cases rest) (auto simp: load_literal_eq stops_def)

lemma load_print_literal:
  assumes "stops rest"
  shows "load_bool (''true'' @ rest) = Inr (NBool True, rest)"
    and "load_bool (''false'' @ rest) = Inr (NBool False, rest)"
    and "load_null (''null'' @ rest) = Inr (NNull, rest)"
  using load_literal_stop [OF _ assms, of "''true''"] load_literal_stop [OF _ assms, of "''false''"]
    load_literal_stop [OF _ assms, of "''null''"]
  by (simp_all add: load_bool_def load_null_def isalpha_def)

section \<open>Documents come back\<close>

text \<open>A printed node starts with none of the characters the loops look for.\<close>

definition begins :: "string \<Rightarrow> bool" where
  "begins s \<longleftrightarrow> (case s of [] \<Rightarrow> False | c # _ \<Rightarrow> \<not> isspace c \<and> c \<noteq> CHR '','' \<and> c \<noteq> CHR '']'')"

lemma beginsE:
  assumes "begins s"
  obtains c t where "s = c # t" and "\<not> isspace c" and "c \<noteq> CHR '',''" and "c \<noteq> CHR '']''"
  using assms by (auto simp: begins_def split: list.splits)

lemma print_node_Cons:
  assumes "\<And>d. n \<noteq> NDbl d"
  shows "begins (print_node ctx n)"
proof (cases n)
  case (NInt i)
  obtain c r where c: "int_str (sint i) = c # r" "isdigit c \<or> c = CHR ''-''" using int_str_Cons by blast
  then have "\<not> isspace c" "c \<noteq> CHR '',''" "c \<noteq> CHR '']''" by (auto simp: isdigit_def isspace_def)
  then show ?thesis using c NInt by (simp add: print_node.simps begins_def)
next
  case (NBool b)
  then show ?thesis by (cases b) (simp_all add: print_node.simps isspace_def begins_def)
qed (use assms in \<open>auto simp: print_node.simps print_string_def isspace_def begins_def split: if_splits\<close>)

lemma get_char_indent: "get_char (print_indent ctx @ s) = get_char s"
proof -
  have "get_char (replicate k (CHR '' '') @ s) = get_char s" for k
    by (induction k) (simp_all add: get_char_space isspace_def)
  then show ?thesis by (simp add: print_indent_def)
qed

lemma get_char_newline: "get_char (CHR 0x0A # s) = get_char s"
  by (simp add: get_char_space isspace_def)

lemma load_node_skip: "get_char s = get_char s' \<Longrightarrow> load_node s = load_node s'"
  by (simp add: load_node.simps [of s] load_node.simps [of s'])

lemma load_array_skip: "get_char s = get_char s' \<Longrightarrow> load_array ns s = load_array ns s'"
  by (simp add: load_array.simps [of _ s] load_array.simps [of _ s'])

lemma load_dict_skip: "get_char s = get_char s' \<Longrightarrow> load_dict d s = load_dict d s'"
  by (simp add: load_dict.simps [of _ s] load_dict.simps [of _ s'])

lemmas skip_space = get_char_indent get_char_newline

lemma load_scalar:
  assumes "stops rest"
  shows "load_node (''true'' @ rest) = Inr (NBool True, rest)"
    and "load_node (''false'' @ rest) = Inr (NBool False, rest)"
    and "load_node (''null'' @ rest) = Inr (NNull, rest)"
    and "load_node (int_str (sint i) @ rest) = Inr (NInt i, rest)"
    and "load_node (print_string s @ rest) = Inr (NStr s, rest)"
proof -
  show "load_node (''true'' @ rest) = Inr (NBool True, rest)"
    "load_node (''false'' @ rest) = Inr (NBool False, rest)"
    "load_node (''null'' @ rest) = Inr (NNull, rest)"
    using load_print_literal [OF assms] by (simp_all add: load_node.simps get_char_Cons isspace_def)
  show "load_node (print_string s @ rest) = Inr (NStr s, rest)"
    using load_print_string [of s rest]
    by (simp add: load_node.simps get_char_Cons isspace_def print_string_def)
  obtain c r where c: "int_str (sint i) = c # r" "isdigit c \<or> c = CHR ''-''" using int_str_Cons by blast
  then have "\<not> isspace c" "c \<notin> {CHR ''['', CHR ''{'', CHR 0x22, CHR ''t'', CHR ''f'', CHR ''n''}"
    by (auto simp: isdigit_def isspace_def)
  then show "load_node (int_str (sint i) @ rest) = Inr (NInt i, rest)"
    using load_print_int [OF assms, of i] c by (simp add: load_node.simps get_char_Cons)
qed

text \<open>\<open>reads_as n n'\<close>: printed anywhere, followed by anything that stops it, \<open>n\<close> is read as \<open>n'\<close>.\<close>

definition reads_as :: "node \<Rightarrow> node \<Rightarrow> bool" where
  "reads_as n n' \<longleftrightarrow> (\<forall>ctx. begins (print_node ctx n) \<and>
     (\<forall>rest. stops rest \<longrightarrow> load_node (print_node ctx n @ rest) = Inr (n', rest)))"

lemma reads_asI:
  "(\<And>d. n \<noteq> NDbl d) \<Longrightarrow>
   (\<And>ctx rest. stops rest \<Longrightarrow> load_node (print_node ctx n @ rest) = Inr (n', rest)) \<Longrightarrow> reads_as n n'"
  by (simp add: reads_as_def print_node_Cons)

lemma stops_elems: "stops (print_elems ctx False ns @ CHR 0x0A # r)"
  by (cases ns) (simp_all add: print_elems.simps)

lemma stops_members: "stops (print_members ctx False ps @ CHR 0x0A # r)"
  by (cases ps) (auto simp: print_members.simps)

lemma load_array_elems:
  assumes "list_all2 reads_as ns ns'"
  shows "load_array acc (print_elems ctx first ns @ CHR 0x0A # print_indent ctx' @ CHR '']'' # rest) =
    Inr (NArr (acc @ ns'), rest)"
  using assms
proof (induction arbitrary: acc first rule: list_all2_induct)
  case Nil
  have "get_char (CHR 0x0A # print_indent ctx' @ CHR '']'' # rest) = Some (CHR '']'', rest)"
    by (simp add: skip_space get_char_Cons isspace_def)
  then show ?case by (simp add: print_elems.simps load_array.simps)
next
  case (Cons n ns n' ns')
  define more where "more = print_elems ctx False ns @ CHR 0x0A # print_indent ctx' @ CHR '']'' # rest"
  obtain c t where c: "print_node ctx n = c # t" "\<not> isspace c" "c \<noteq> CHR '',''" "c \<noteq> CHR '']''"
    using Cons.hyps(1) by (metis reads_as_def beginsE)
  have n: "load_node (print_node ctx n @ more) = Inr (n', more)"
    using Cons.hyps(1) stops_elems by (simp add: reads_as_def more_def)
  have IH: "load_array (acc @ [n']) more = Inr (NArr (acc @ n' # ns'), rest)"
    using Cons.IH [of "acc @ [n']" False] by (simp add: more_def)
  have head: "get_char (print_node ctx n @ more) = Some (c, t @ more)" using c by (simp add: get_char_Cons)
  show ?case
  proof (cases first)
    case True
    have "get_char (print_indent ctx @ print_node ctx n @ more) = Some (c, t @ more)"
      by (simp add: head skip_space)
    then have "load_array acc (print_indent ctx @ print_node ctx n @ more) =
        bindR (load_node (print_node ctx n @ more)) (\<lambda>(n, r). load_array (acc @ [n]) r)"
      using c by (simp add: load_array.simps [of acc])
    then show ?thesis using True n IH by (simp add: print_elems.simps more_def)
  next
    case False
    have "load_node (CHR 0x0A # print_indent ctx @ print_node ctx n @ more) = load_node (print_node ctx n @ more)"
      by (rule load_node_skip) (simp add: skip_space)
    then have "load_array acc ('','' @ [CHR 0x0A] @ print_indent ctx @ print_node ctx n @ more) =
        bindR (load_node (print_node ctx n @ more)) (\<lambda>(n, r). load_array (acc @ [n]) r)"
      by (simp add: load_array.simps [of acc] get_char_Cons isspace_def)
    then show ?thesis using False n IH by (simp add: print_elems.simps more_def)
  qed
qed

lemma load_dict_member:
  assumes "map_of acc key = None"
  shows "load_dict acc (print_string key @ '': '' @ s) =
    bindR (load_node s) (\<lambda>(n, r). load_dict (sm_emplace key n acc) r)"
proof -
  have "load_node (CHR '' '' # s) = load_node s" by (simp add: load_node_space isspace_def)
  then show ?thesis
    using assms load_print_string [of key "'': '' @ s"]
    by (simp add: load_dict.simps [of acc] print_string_def get_char_Cons isspace_def as_string_def)
qed

text \<open>
  Members in any order: the loaded dictionary has them sorted, and the first key that repeats an
  earlier one is an error.
\<close>

fun first_repeat :: "string set \<Rightarrow> string list \<Rightarrow> string option" where
  "first_repeat seen [] = None"
| "first_repeat seen (k # ks) = (if k \<in> seen then Some k else first_repeat (insert k seen) ks)"

definition duplicate_key :: "string \<Rightarrow> exn" where
  "duplicate_key k = Parsing_error (''Duplicate key '' @ quoted k @ '' have been found'')"

definition emplace_all :: "dict \<Rightarrow> dict \<Rightarrow> dict" where
  "emplace_all acc ps = foldl (\<lambda>d (k, n). sm_emplace k n d) acc ps"

lemma emplace_all_simps [simp]:
  "emplace_all acc [] = acc" "emplace_all acc (p # ps) = emplace_all (sm_emplace (fst p) (snd p) acc) ps"
  by (simp_all add: emplace_all_def case_prod_beta)

lemma load_dict_repeated:
  assumes "map_of acc key \<noteq> None"
  shows "load_dict acc (print_string key @ '': '' @ s) = Inl (duplicate_key key)"
  using assms load_print_string [of key "'': '' @ s"]
  by (auto simp: load_dict.simps [of acc] print_string_def get_char_Cons isspace_def as_string_def duplicate_key_def)

lemma load_dict_listed:
  assumes "list_all2 (\<lambda>p q. fst p = fst q \<and> reads_as (snd p) (snd q)) ps qs"
  shows "load_dict acc (print_members ctx first ps @ CHR 0x0A # print_indent ctx' @ CHR ''}'' # rest) =
    (case first_repeat (fst ` set acc) (map fst ps) of
       None \<Rightarrow> Inr (NDict (emplace_all acc qs), rest)
     | Some k \<Rightarrow> Inl (duplicate_key k))"
  using assms
proof (induction arbitrary: acc first rule: list_all2_induct)
  case Nil
  have "get_char (CHR 0x0A # print_indent ctx' @ CHR ''}'' # rest) = Some (CHR ''}'', rest)"
    by (simp add: skip_space get_char_Cons isspace_def)
  then show ?case by (simp add: print_members.simps load_dict.simps)
next
  case (Cons p ps q qs)
  obtain key n n' where p: "p = (key, n)" "q = (key, n')" and nn: "reads_as n n'"
    using Cons.hyps(1) by (cases p; cases q) simp
  define more where "more = print_members ctx False ps @ CHR 0x0A # print_indent ctx' @ CHR ''}'' # rest"
  have n: "load_node (print_node ctx n @ more) = Inr (n', more)"
    using nn stops_members by (simp add: reads_as_def more_def)
  have *: "load_dict acc (print_string key @ '': '' @ print_node ctx n @ more) =
    (case first_repeat (fst ` set acc) (map fst (p # ps)) of
       None \<Rightarrow> Inr (NDict (emplace_all acc (q # qs)), rest)
     | Some k \<Rightarrow> Inl (duplicate_key k))"
  proof (cases "map_of acc key")
    case None
    then have "key \<notin> fst ` set acc" by (simp add: map_of_eq_None_iff)
    moreover have "load_dict acc (print_string key @ '': '' @ print_node ctx n @ more) =
        load_dict (sm_emplace key n' acc) more"
      using load_dict_member [OF None, of "print_node ctx n @ more"] n by simp
    ultimately show ?thesis
      using Cons.IH [of "sm_emplace key n' acc" False] by (simp add: p more_def keys_sm_emplace split: option.split)
  next
    case (Some m)
    then have "key \<in> fst ` set acc" by (metis map_of_eq_None_iff option.distinct(1))
    then show ?thesis using load_dict_repeated [of acc key "print_node ctx n @ more"] Some by (simp add: p)
  qed
  have skip: "load_dict acc (print_indent ctx @ print_string key @ s) = load_dict acc (print_string key @ s)"
    "load_dict acc (CHR 0x0A # print_indent ctx @ print_string key @ s) = load_dict acc (print_string key @ s)"
    for s by (rule load_dict_skip, simp add: skip_space)+
  have "load_dict acc ('','' @ s) = load_dict acc s" for s
    by (simp add: load_dict.simps [of acc "CHR '','' # s"] get_char_Cons isspace_def)
  moreover have "print_members ctx first (p # ps) @ CHR 0x0A # print_indent ctx' @ CHR ''}'' # rest =
      (if first then [] else '','' @ [CHR 0x0A]) @ print_indent ctx @ print_string key @ '': '' @
        print_node ctx n @ more"
    by (subst print_members.simps) (simp add: p more_def)
  ultimately show ?case using * skip by simp
qed

lemma first_repeat_None: "first_repeat seen ks = None \<longleftrightarrow> distinct ks \<and> set ks \<inter> seen = {}"
  by (induction ks arbitrary: seen) auto

lemma emplace_all_sorted: "sm_ok (acc @ qs) \<Longrightarrow> emplace_all acc qs = acc @ qs"
proof (induction qs arbitrary: acc)
  case (Cons q qs)
  have acc: "sm_ok acc" "\<forall>a \<in> fst ` set acc. a < fst q"
    using Cons.prems by (auto simp: sm_ok_def sorted_wrt_append)
  then have "sm_emplace (fst q) (snd q) acc = acc @ [q]" by (simp add: sm_emplace_last)
  then show ?case using Cons.IH [of "acc @ [q]"] Cons.prems by simp
qed simp

lemma emplace_all_sort:
  assumes "distinct (map fst qs)"
  shows "emplace_all [] qs = sort_key fst qs"
proof -
  have put: "k \<notin> fst ` set acc \<Longrightarrow> mset (sm_emplace k v acc) = add_mset (k, v) (mset acc)" for k v and acc :: dict
    by (induction k v acc rule: sm_emplace.induct) auto
  have all: "distinct (map fst qs) \<Longrightarrow> fst ` set qs \<inter> fst ` set acc = {} \<Longrightarrow> sm_ok acc \<Longrightarrow>
      mset (emplace_all acc qs) = mset acc + mset qs \<and> sm_ok (emplace_all acc qs)" for acc qs
  proof (induction qs arbitrary: acc)
    case (Cons q qs)
    then show ?case using Cons.IH [of "sm_emplace (fst q) (snd q) acc"]
      by (auto simp: put keys_sm_emplace sm_ok_emplace)
  qed simp
  have "mset (emplace_all [] qs) = mset qs" "sm_ok (emplace_all [] qs)" using all [OF assms, of "[]"] by simp_all
  moreover from this(2) have "sorted (map fst (emplace_all [] qs))"
    by (simp add: sm_ok_def strict_sorted_imp_sorted)
  ultimately show ?thesis using assms
    by (intro sort_key_inj_key_eq [symmetric]) (auto simp: distinct_map)
qed

lemma load_dict_members:
  assumes "list_all2 (\<lambda>p q. fst p = fst q \<and> reads_as (snd p) (snd q)) ps qs" and "sm_ok (acc @ qs)"
  shows "load_dict acc (print_members ctx first ps @ CHR 0x0A # print_indent ctx' @ CHR ''}'' # rest) =
    Inr (NDict (acc @ qs), rest)"
proof -
  have "map fst ps = map fst qs" using assms(1) by (induction rule: list_all2_induct) simp_all
  then have "first_repeat (fst ` set acc) (map fst ps) = None"
    using sm_ok_distinct [OF assms(2)] by (auto simp: first_repeat_None)
  then show ?thesis using load_dict_listed [OF assms(1)] emplace_all_sorted [OF assms(2)] by simp
qed

text \<open>An object with its members in the given order.\<close>

lemma load_object:
  assumes "list_all2 (\<lambda>p q. fst p = fst q \<and> reads_as (snd p) (snd q)) ps qs"
  shows "load_node (print_node ctx (NDict ps) @ rest) =
    (case first_repeat {} (map fst ps) of
       None \<Rightarrow> Inr (NDict (sort_key fst qs), rest)
     | Some k \<Rightarrow> Inl (duplicate_key k))"
proof -
  have k: "map fst ps = map fst qs" using assms by (induction rule: list_all2_induct) simp_all
  have "load_node (print_node ctx (NDict ps) @ rest) =
      (case first_repeat {} (map fst ps) of None \<Rightarrow> Inr (NDict (emplace_all [] qs), rest) | Some k \<Rightarrow> Inl (duplicate_key k))"
    using load_dict_listed [OF assms, of "[]" "indented ctx" True ctx rest]
    by (simp add: print_node.simps load_node.simps get_char_Cons isspace_def load_dict_skip [OF get_char_newline])
  moreover have "first_repeat {} (map fst ps) = None \<Longrightarrow> emplace_all [] qs = sort_key fst qs"
    using emplace_all_sort [of qs] k by (simp add: first_repeat_None)
  ultimately show ?thesis by (cases "first_repeat {} (map fst ps)") simp_all
qed

lemma reads_arr: "list_all2 reads_as xs ys \<Longrightarrow> reads_as (NArr xs) (NArr ys)"
  using load_array_elems [of xs ys "[]" "indented _" True]
  by (intro reads_asI) (simp_all add: print_node.simps load_node.simps get_char_Cons isspace_def
      load_array_skip [OF get_char_newline])

lemma reads_dict:
  "list_all2 (\<lambda>p q. fst p = fst q \<and> reads_as (snd p) (snd q)) ps qs \<Longrightarrow> sm_ok qs \<Longrightarrow>
   reads_as (NDict ps) (NDict qs)"
  using load_dict_members [of ps qs "[]" "indented _" True]
  by (intro reads_asI) (simp_all add: print_node.simps load_node.simps get_char_Cons isspace_def
      load_dict_skip [OF get_char_newline])

lemma reads_scalar:
  "reads_as NNull NNull" "reads_as (NBool b) (NBool b)" "reads_as (NInt i) (NInt i)" "reads_as (NStr s) (NStr s)"
  by (auto intro!: reads_asI simp: print_node.simps load_scalar load_scalar(1-3) [simplified])

lemma reads_all: "node_ok n \<Longrightarrow> no_dbl n \<Longrightarrow> reads_as n n"
proof (induction n rule: node_induct)
  case (Arr xs)
  then show ?case by (intro reads_arr) (simp add: list.rel_refl_strong)
next
  case (Dict ps)
  have "\<forall>p \<in> set ps. reads_as (snd p) (snd p)" using Dict by fastforce
  then show ?case using Dict.prems by (intro reads_dict) (simp_all add: list.rel_refl_strong)
qed (simp_all add: reads_scalar)

lemma load_print_node:
  "node_ok n \<Longrightarrow> no_dbl n \<Longrightarrow> stops rest \<Longrightarrow> load_node (print_node ctx n @ rest) = Inr (n, rest)"
  using reads_all by (simp add: reads_as_def)

end
