(* ===== verification/Json_Builder.thy ===== *)
theory Json_Builder
  imports Json_Node
begin

text \<open>
  \<^verbatim>\<open>json_builder.h\<close> and \<^verbatim>\<open>json_builder.cpp\<close>: the builder keeps the finished root (null until it
  is ready) and the stack of open containers; an open key is a string on the stack. The back of
  \<^verbatim>\<open>nodes_stack_\<close> is the head of the list. The nodes are owned by the stack, so pointers are
  modelled by the nodes they point to. The context classes add no state: they are the static
  types of the result and restrict which calls compile (\<open>allowed\<close>).
\<close>

record builder =
  b_root :: node
  nodes_stack :: "node list"

definition builder_new :: builder where
  "builder_new = \<lparr>b_root = NNull, nodes_stack = []\<rparr>"

definition initialization_node :: "node \<Rightarrow> node" where
  "initialization_node v =
     (case v of NNull \<Rightarrow> NNull | NArr a \<Rightarrow> NArr a | NDict d \<Rightarrow> NDict d | NBool b \<Rightarrow> NBool b
      | NInt i \<Rightarrow> NInt i | NDbl d \<Rightarrow> NDbl d | NStr s \<Rightarrow> NStr s)"

lemma initialization_node_id [simp]: "initialization_node v = v"
  by (simp add: initialization_node_def split: node.split)

definition b_value :: "node \<Rightarrow> builder \<Rightarrow> builder result" where
  "b_value val b =
     (if \<not> is_null (b_root b) then Inl (Logic_error ''Calling Value when the object is ready'')
      else let node = initialization_node val in
        case nodes_stack b of
          [] \<Rightarrow> Inr (b\<lparr>b_root := node\<rparr>)
        | bk # below \<Rightarrow>
            if is_array bk then bindR (as_array bk) (\<lambda>arr.
              Inr (b\<lparr>nodes_stack := NArr (arr @ [node]) # below\<rparr>))
            else if is_string bk then bindR (as_string bk) (\<lambda>key.
              case below of
                [] \<Rightarrow> Inl Undefined_behaviour
              | owner # below' \<Rightarrow> bindR (as_dict owner) (\<lambda>m.
                  Inr (b\<lparr>nodes_stack := NDict (sm_emplace key node m) # below'\<rparr>)))
            else Inl (Logic_error ''Calling Value anywhere except after the constructor, after the Key, or after the previous element of the array''))"

definition b_key :: "string \<Rightarrow> builder \<Rightarrow> builder result" where
  "b_key key b =
     (if nodes_stack b = [] \<or> \<not> is_null (b_root b)
      then Inl (Logic_error ''Calling Key when the object is ready'')
      else if \<not> is_dict (hd (nodes_stack b))
      then Inl (Logic_error ''Calling the Key method outside the dictionary or immediately after another Key'')
      else Inr (b\<lparr>nodes_stack := NStr key # nodes_stack b\<rparr>))"

definition can_start :: "builder \<Rightarrow> bool" where
  "can_start b \<longleftrightarrow> nodes_stack b = [] \<or> is_array (hd (nodes_stack b)) \<or> is_string (hd (nodes_stack b))"

definition b_start_array :: "builder \<Rightarrow> builder result" where
  "b_start_array b =
     (if \<not> is_null (b_root b) then Inl (Logic_error ''Calling StartArray when the object is ready.'')
      else if \<not> can_start b
      then Inl (Logic_error ''Calling StartArray anywhere except after the constructor, after the Key, or after the previous element of the array'')
      else Inr (b\<lparr>nodes_stack := NArr [] # nodes_stack b\<rparr>))"

definition b_end_array :: "builder \<Rightarrow> builder result" where
  "b_end_array b =
     (case nodes_stack b of
        [] \<Rightarrow> Inl (Logic_error ''Calling EndArray when the object is ready.'')
      | bk # below \<Rightarrow>
          if \<not> is_array bk then Inl (Logic_error ''Calling EndArray in the context of another container.'')
          else if below = [] then Inr (b\<lparr>b_root := bk, nodes_stack := []\<rparr>)
          else b_value bk (b\<lparr>nodes_stack := below\<rparr>))"

definition b_start_dict :: "builder \<Rightarrow> builder result" where
  "b_start_dict b =
     (if \<not> is_null (b_root b) then Inl (Logic_error ''Calling StartDict when the object is ready.'')
      else if \<not> can_start b
      then Inl (Logic_error ''Calling StartDict anywhere except after the constructor, after the Key, or after the previous element of the array'')
      else Inr (b\<lparr>nodes_stack := NDict [] # nodes_stack b\<rparr>))"

definition b_end_dict :: "builder \<Rightarrow> builder result" where
  "b_end_dict b =
     (case nodes_stack b of
        [] \<Rightarrow> Inl (Logic_error ''Calling EndDict when the object is ready.'')
      | bk # below \<Rightarrow>
          if \<not> is_dict bk then Inl (Logic_error ''Calling EndDict in the context of another container.'')
          else if below = [] then Inr (b\<lparr>b_root := bk, nodes_stack := []\<rparr>)
          else b_value bk (b\<lparr>nodes_stack := below\<rparr>))"

definition b_build :: "builder \<Rightarrow> node result" where
  "b_build b =
     (if is_null (b_root b) then Inl (Logic_error ''Root is null'')
      else if nodes_stack b \<noteq> [] then Inl (Logic_error ''Stack is not empty'')
      else Inr (b_root b))"

lemmas builder_defs = b_value_def b_key_def can_start_def b_start_array_def b_end_array_def
  b_start_dict_def b_end_dict_def b_build_def

section \<open>Call sequences\<close>

datatype call = Value node | Key string | StartArray | EndArray | StartDict | EndDict

fun apply_call :: "call \<Rightarrow> builder \<Rightarrow> builder result" where
  "apply_call (Value v) b = b_value v b"
| "apply_call (Key k) b = b_key k b"
| "apply_call StartArray b = b_start_array b"
| "apply_call EndArray b = b_end_array b"
| "apply_call StartDict b = b_start_dict b"
| "apply_call EndDict b = b_end_dict b"

definition run_calls :: "builder \<Rightarrow> call list \<Rightarrow> builder result" where
  "run_calls b cs = foldR (\<lambda>b c. apply_call c b) b cs"

lemma run_calls_simps [simp]:
  "run_calls b [] = Inr b" "run_calls b (c # cs) = bindR (apply_call c b) (\<lambda>b. run_calls b cs)"
  "run_calls b (cs @ ds) = bindR (run_calls b cs) (\<lambda>b. run_calls b ds)"
  by (simp_all add: run_calls_def foldR_append)

section \<open>The stack invariant\<close>

fun stack_ok :: "node list \<Rightarrow> bool" where
  "stack_ok [] \<longleftrightarrow> True"
| "stack_ok (n # below) \<longleftrightarrow> stack_ok below \<and> node_ok n \<and>
     (case n of
        NStr _ \<Rightarrow> below \<noteq> [] \<and> is_dict (hd below)
      | NArr _ \<Rightarrow> below = [] \<or> is_array (hd below) \<or> is_string (hd below)
      | NDict _ \<Rightarrow> below = [] \<or> is_array (hd below) \<or> is_string (hd below)
      | _ \<Rightarrow> False)"

definition b_ok :: "builder \<Rightarrow> bool" where
  "b_ok b \<longleftrightarrow> stack_ok (nodes_stack b) \<and> node_ok (b_root b) \<and> (nodes_stack b \<noteq> [] \<longrightarrow> b_root b = NNull)"

fun call_ok :: "call \<Rightarrow> bool" where
  "call_ok (Value v) = node_ok v"
| "call_ok _ = True"

lemma b_ok_new [simp]: "b_ok builder_new"
  by (simp add: b_ok_def builder_new_def)

lemma is_null_iff [simp]: "is_null n \<longleftrightarrow> n = NNull"
  by (cases n) (simp_all add: is_null_def)

lemma node_kinds:
  "is_array n \<longleftrightarrow> (\<exists>xs. n = NArr xs)" "is_dict n \<longleftrightarrow> (\<exists>d. n = NDict d)" "is_string n \<longleftrightarrow> (\<exists>s. n = NStr s)"
  by (cases n; simp add: node_access)+

text \<open>What \<open>Value\<close> does to a state that satisfies the invariant.\<close>

lemma b_value_cases:
  assumes "b_ok b" and "b_root b = NNull"
  shows "b_value v b = (case nodes_stack b of
      [] \<Rightarrow> Inr (b\<lparr>b_root := v\<rparr>)
    | NArr xs # below \<Rightarrow> Inr (b\<lparr>nodes_stack := NArr (xs @ [v]) # below\<rparr>)
    | NStr k # NDict d # below \<Rightarrow> Inr (b\<lparr>nodes_stack := NDict (sm_emplace k v d) # below\<rparr>)
    | _ \<Rightarrow> Inl (Logic_error ''Calling Value anywhere except after the constructor, after the Key, or after the previous element of the array''))"
  using assms by (auto simp: b_ok_def b_value_def node_access split: list.splits node.splits)

lemma node_ok_emplace:
  assumes "node_ok (NDict d)" and "node_ok v"
  shows "node_ok (NDict (sm_emplace k v d))"
proof -
  have "set (sm_emplace k v d) \<subseteq> insert (k, v) (set d)"
    by (induction k v d rule: sm_emplace.induct) auto
  then show ?thesis using assms by (auto simp: sm_ok_emplace)
qed

lemma b_value_ok:
  assumes b: "b_ok b" and v: "node_ok v" and r: "b_value v b = r"
  shows "case r of Inl e \<Rightarrow> e \<noteq> Undefined_behaviour | Inr b' \<Rightarrow> b_ok b'"
proof (cases "b_root b = NNull")
  case False
  then show ?thesis using r by (auto simp: b_value_def)
next
  case True
  have ok: "stack_ok (nodes_stack b)" using b by (simp add: b_ok_def)
  show ?thesis
  proof (cases "nodes_stack b")
    case Nil
    then show ?thesis using r b_value_cases [OF b True] b v by (auto simp: b_ok_def)
  next
    case (Cons bk below)
    show ?thesis
    proof (cases "\<exists>k. bk = NStr k")
      case True
      then obtain k d below' where s: "bk = NStr k" "below = NDict d # below'"
        using ok Cons by (cases below) (auto simp: node_kinds)
      then have "r = Inr (b\<lparr>nodes_stack := NDict (sm_emplace k v d) # below'\<rparr>)"
        using r b_value_cases [OF b \<open>b_root b = NNull\<close>] Cons by simp
      then show ?thesis using b v s Cons node_ok_emplace [of d v k] by (auto simp: b_ok_def)
    next
      case False
      then show ?thesis using r b_value_cases [OF b \<open>b_root b = NNull\<close>] Cons b v
        by (cases bk) (auto simp: b_ok_def)
    qed
  qed
qed

lemma b_ok_pop: "b_ok b \<Longrightarrow> nodes_stack b = n # below \<Longrightarrow> b_ok (b\<lparr>nodes_stack := below\<rparr>)"
  by (auto simp: b_ok_def)

lemma apply_call_ok:
  assumes "b_ok b" and "call_ok c"
  shows "case apply_call c b of Inl e \<Rightarrow> e \<noteq> Undefined_behaviour | Inr b' \<Rightarrow> b_ok b'"
proof (cases c)
  case (Value v)
  then show ?thesis using b_value_ok [OF assms(1) _ refl, of v] assms(2) by simp
next
  case EndArray
  then show ?thesis using assms(1) b_value_ok [OF b_ok_pop [OF assms(1)] _ refl]
    by (auto simp: b_end_array_def split: list.split) (auto simp: b_ok_def)
next
  case EndDict
  then show ?thesis using assms(1) b_value_ok [OF b_ok_pop [OF assms(1)] _ refl]
    by (auto simp: b_end_dict_def split: list.split) (auto simp: b_ok_def)
qed (use assms in \<open>auto simp: builder_defs b_ok_def node_kinds\<close>)

section \<open>The context classes\<close>

text \<open>
  \<open>ctx\<close> is the static type of the object a call returns: \<^verbatim>\<open>Builder\<close> itself or one of the three
  contexts. \<open>allowed\<close> lists the member functions that are not deleted.
\<close>

datatype ctx = Builder_ctx | Key_ctx | Dict_ctx | Array_ctx

fun allowed :: "ctx \<Rightarrow> call \<Rightarrow> bool" where
  "allowed Builder_ctx c = True"
| "allowed Key_ctx c = (case c of Value _ \<Rightarrow> True | StartArray \<Rightarrow> True | StartDict \<Rightarrow> True | _ \<Rightarrow> False)"
| "allowed Dict_ctx c = (case c of Key _ \<Rightarrow> True | EndDict \<Rightarrow> True | _ \<Rightarrow> False)"
| "allowed Array_ctx c = (case c of Key _ \<Rightarrow> False | EndDict \<Rightarrow> False | _ \<Rightarrow> True)"

fun result_ctx :: "ctx \<Rightarrow> call \<Rightarrow> ctx" where
  "result_ctx c (Value _) = (case c of Key_ctx \<Rightarrow> Dict_ctx | Array_ctx \<Rightarrow> Array_ctx | _ \<Rightarrow> Builder_ctx)"
| "result_ctx c (Key _) = Key_ctx"
| "result_ctx c StartArray = Array_ctx"
| "result_ctx c StartDict = Dict_ctx"
| "result_ctx c EndArray = Builder_ctx"
| "result_ctx c EndDict = Builder_ctx"

definition in_ctx :: "ctx \<Rightarrow> builder \<Rightarrow> bool" where
  "in_ctx c b \<longleftrightarrow> (case c of
       Builder_ctx \<Rightarrow> True
     | Key_ctx \<Rightarrow> nodes_stack b \<noteq> [] \<and> is_string (hd (nodes_stack b))
     | Dict_ctx \<Rightarrow> nodes_stack b \<noteq> [] \<and> is_dict (hd (nodes_stack b))
     | Array_ctx \<Rightarrow> nodes_stack b \<noteq> [] \<and> is_array (hd (nodes_stack b)))"

text \<open>Closing a container: the value goes to the container below, which accepts it.\<close>

lemma close_ok:
  assumes "b_ok b" and "nodes_stack b = n # below" and "below \<noteq> []" and "\<not> is_string n"
  shows "\<exists>b'. b_value n (b\<lparr>nodes_stack := below\<rparr>) = Inr b'"
proof -
  let ?b = "b\<lparr>nodes_stack := below\<rparr>"
  have "b_ok ?b" "b_root ?b = NNull" using assms by (auto simp: b_ok_def)
  note v = b_value_cases [OF this]
  obtain top rest where "below = top # rest" using assms(3) by (cases below) auto
  then show ?thesis using assms v by (cases n; cases rest) (auto simp: b_ok_def node_kinds)
qed

lemma ctx_progress:
  assumes b: "b_ok b" and c: "in_ctx c b" "c \<noteq> Builder_ctx" "allowed c k"
  shows "\<exists>b'. apply_call k b = Inr b' \<and> in_ctx (result_ctx c k) b'"
proof -
  obtain n below where s: "nodes_stack b = n # below"
    using c(1,2) by (cases "nodes_stack b"; cases c) (auto simp: in_ctx_def)
  have null: "b_root b = NNull" using b s by (simp add: b_ok_def)
  note v = b_value_cases [OF b null]
  show ?thesis
  proof (cases k)
    case (Value x)
    show ?thesis
    proof (cases c)
      case Key_ctx
      then obtain key d r where "n = NStr key" "below = NDict d # r"
        using b s c by (cases below) (auto simp: in_ctx_def node_kinds b_ok_def)
      then show ?thesis using Value Key_ctx v s by (simp add: in_ctx_def node_kinds)
    qed (use Value c s v in \<open>auto simp: in_ctx_def node_kinds\<close>)
  next
    case EndArray
    then have "is_array n" using c s by (cases c) (auto simp: in_ctx_def)
    then show ?thesis using EndArray s close_ok [OF b s]
      by (cases "below = []") (auto simp: b_end_array_def in_ctx_def node_kinds)
  next
    case EndDict
    then have "is_dict n" using c s by (cases c) (auto simp: in_ctx_def)
    then show ?thesis using EndDict s close_ok [OF b s]
      by (cases "below = []") (auto simp: b_end_dict_def in_ctx_def node_kinds)
  qed (use c s null in \<open>cases c; auto simp: in_ctx_def builder_defs node_kinds\<close>)+
qed

section \<open>Every document can be built\<close>

primrec calls :: "node \<Rightarrow> call list" where
  "calls NNull = [Value NNull]"
| "calls (NBool b) = [Value (NBool b)]"
| "calls (NInt i) = [Value (NInt i)]"
| "calls (NDbl d) = [Value (NDbl d)]"
| "calls (NStr s) = [Value (NStr s)]"
| "calls (NArr xs) = StartArray # concat (map calls xs) @ [EndArray]"
| "calls (NDict ps) = StartDict # concat (map (\<lambda>p. Key (fst p) # snd p) (map (map_prod id calls) ps)) @ [EndDict]"

text \<open>\<open>accepts b\<close>: a value may come next.\<close>

definition accepts :: "builder \<Rightarrow> bool" where
  "accepts b \<longleftrightarrow> b_ok b \<and> b_root b = NNull \<and>
     (nodes_stack b = [] \<or> is_array (hd (nodes_stack b)) \<or> is_string (hd (nodes_stack b)))"

definition builds :: "node \<Rightarrow> bool" where
  "builds n \<longleftrightarrow> (\<forall>b. accepts b \<longrightarrow> run_calls b (calls n) = b_value n b)"

lemma run_elems:
  assumes "\<forall>n \<in> set xs. builds n \<and> node_ok n" and "accepts (b\<lparr>nodes_stack := NArr acc # st\<rparr>)"
  shows "run_calls (b\<lparr>nodes_stack := NArr acc # st\<rparr>) (concat (map calls xs)) =
    Inr (b\<lparr>nodes_stack := NArr (acc @ xs) # st\<rparr>)"
  using assms
proof (induction xs arbitrary: acc)
  case Nil
  then show ?case by simp
next
  case (Cons n xs)
  let ?b = "b\<lparr>nodes_stack := NArr acc # st\<rparr>" and ?b' = "b\<lparr>nodes_stack := NArr (acc @ [n]) # st\<rparr>"
  have ok: "b_ok ?b" "b_root ?b = NNull" using Cons.prems(2) by (auto simp: accepts_def)
  have "run_calls ?b (calls n) = b_value n ?b" using Cons.prems by (simp add: builds_def)
  also have "\<dots> = Inr ?b'" using b_value_cases [OF ok, of n] by simp
  finally have step: "run_calls ?b (calls n) = Inr ?b'" .
  have "accepts ?b'" using Cons.prems by (auto simp: accepts_def b_ok_def node_kinds)
  then show ?case using Cons.IH [of "acc @ [n]"] Cons.prems(1) step by simp
qed

lemma run_members:
  assumes "\<forall>p \<in> set ps. builds (snd p) \<and> node_ok (snd p)" and "sm_ok (acc @ ps)"
    and "b_ok (b\<lparr>nodes_stack := NDict acc # st\<rparr>)"
  shows "run_calls (b\<lparr>nodes_stack := NDict acc # st\<rparr>)
      (concat (map (\<lambda>p. Key (fst p) # snd p) (map (map_prod id calls) ps))) =
    Inr (b\<lparr>nodes_stack := NDict (acc @ ps) # st\<rparr>)"
  using assms
proof (induction ps arbitrary: acc)
  case Nil
  then show ?case by simp
next
  case (Cons p ps)
  obtain k n where p: "p = (k, n)" by (cases p)
  let ?b = "b\<lparr>nodes_stack := NDict acc # st\<rparr>"
  let ?k = "b\<lparr>nodes_stack := NStr k # NDict acc # st\<rparr>"
  let ?b' = "b\<lparr>nodes_stack := NDict (acc @ [(k, n)]) # st\<rparr>"
  have acc: "sm_ok acc" "\<forall>a \<in> fst ` set acc. a < k"
    using Cons.prems(2) by (auto simp: sm_ok_def sorted_wrt_append p)
  have null: "b_root b = NNull" using Cons.prems(3) by (simp add: b_ok_def)
  have key: "b_key k ?b = Inr ?k" using null by (simp add: b_key_def is_dict_def)
  have ok: "b_ok ?k" "b_root ?k = NNull" using Cons.prems(3) null by (auto simp: b_ok_def is_dict_def)
  then have "accepts ?k" by (simp add: accepts_def is_string_def)
  then have "run_calls ?k (calls n) = b_value n ?k" using Cons.prems(1) by (simp add: builds_def p)
  also have "\<dots> = Inr ?b'" using b_value_cases [OF ok, of n] sm_emplace_last [OF acc] by simp
  finally have step: "run_calls ?k (calls n) = Inr ?b'" .
  have "node_ok (NDict (acc @ [(k, n)]))"
    using Cons.prems node_ok_emplace [of acc n k] sm_emplace_last [OF acc] by (simp add: b_ok_def p)
  then have "b_ok ?b'" using Cons.prems(3) by (auto simp: b_ok_def)
  then show ?case using Cons.IH [of "acc @ [(k, n)]"] Cons.prems key step by (simp add: p)
qed

lemma push_ok:
  assumes "accepts b" and "node_ok n" and "is_array n \<or> is_dict n"
  shows "b_ok (b\<lparr>nodes_stack := n # nodes_stack b\<rparr>)"
  using assms by (auto simp: accepts_def b_ok_def node_kinds)

lemma end_value:
  assumes "b_root b = NNull"
  shows "b_end_array (b\<lparr>nodes_stack := NArr xs # nodes_stack b\<rparr>) = b_value (NArr xs) b"
    and "b_end_dict (b\<lparr>nodes_stack := NDict ps # nodes_stack b\<rparr>) = b_value (NDict ps) b"
proof -
  have "b\<lparr>nodes_stack := nodes_stack b\<rparr> = b" by (cases b) simp
  then show "b_end_array (b\<lparr>nodes_stack := NArr xs # nodes_stack b\<rparr>) = b_value (NArr xs) b"
    and "b_end_dict (b\<lparr>nodes_stack := NDict ps # nodes_stack b\<rparr>) = b_value (NDict ps) b"
    using assms by (auto simp: b_end_array_def b_end_dict_def is_array_def is_dict_def b_value_def)
qed

lemma builds_all: "node_ok n \<Longrightarrow> builds n"
proof (induction n rule: node_induct)
  case (Arr xs)
  have "run_calls b (calls (NArr xs)) = b_value (NArr xs) b" if b: "accepts b" for b
  proof -
    let ?b = "b\<lparr>nodes_stack := NArr [] # nodes_stack b\<rparr>"
    have null: "b_root b = NNull" using b by (simp add: accepts_def)
    have start: "b_start_array b = Inr ?b"
      using b by (auto simp: accepts_def b_start_array_def can_start_def)
    have "accepts ?b" using push_ok [OF b, of "NArr []"] null by (simp add: accepts_def is_array_def)
    then have "run_calls ?b (concat (map calls xs)) = Inr (b\<lparr>nodes_stack := NArr xs # nodes_stack b\<rparr>)"
      using run_elems [where b = b and acc = "[]" and st = "nodes_stack b" and xs = xs] Arr by simp
    then show ?thesis using start end_value(1) [OF null] by simp
  qed
  then show ?case by (simp add: builds_def)
next
  case (Dict ps)
  have "run_calls b (calls (NDict ps)) = b_value (NDict ps) b" if b: "accepts b" for b
  proof -
    let ?b = "b\<lparr>nodes_stack := NDict [] # nodes_stack b\<rparr>"
    have null: "b_root b = NNull" using b by (simp add: accepts_def)
    have start: "b_start_dict b = Inr ?b"
      using b by (auto simp: accepts_def b_start_dict_def can_start_def)
    have "b_ok ?b" using push_ok [OF b, of "NDict []"] by (simp add: is_dict_def)
    moreover have "\<forall>p \<in> set ps. builds (snd p) \<and> node_ok (snd p)" using Dict by fastforce
    ultimately have "run_calls ?b (concat (map (\<lambda>p. Key (fst p) # snd p) (map (map_prod id calls) ps))) =
        Inr (b\<lparr>nodes_stack := NDict ps # nodes_stack b\<rparr>)"
      using run_members [where b = b and acc = "[]" and st = "nodes_stack b" and ps = ps] Dict.prems by simp
    then show ?thesis using start end_value(2) [OF null] by simp
  qed
  then show ?case by (simp add: builds_def)
qed (simp_all add: builds_def)

lemma build_document:
  assumes "node_ok n" and "n \<noteq> NNull"
  shows "bindR (run_calls builder_new (calls n)) b_build = Inr n"
proof -
  have "accepts builder_new" by (simp add: accepts_def) (simp add: builder_new_def)
  then have "run_calls builder_new (calls n) = b_value n builder_new"
    using builds_all [OF assms(1)] by (simp add: builds_def)
  then show ?thesis using assms(2) by (simp add: b_value_def builder_new_def b_build_def)
qed

end
