(* ===== verification/Json_Props.thy ===== *)
theory Json_Props
  imports Json_Print Json_Builder Ieee_Laws
begin

text \<open>
  The properties of the JSON library: the parser throws nothing but \<^verbatim>\<open>ParsingError\<close> and returns
  well-formed nodes, printing and parsing are inverse on exact values, integer literals of any
  size are converted as intended, and the builder accepts every call its context types admit.
\<close>

section \<open>The parser's errors\<close>

definition parse_only :: "'a result \<Rightarrow> bool" where
  "parse_only r \<longleftrightarrow> (\<forall>e. r = Inl e \<longrightarrow> (\<exists>m. e = Parsing_error m))"

lemma parse_only_simps [simp]: "parse_only (Inr x)" "parse_only (Inl (Parsing_error m))"
  by (simp_all add: parse_only_def)

lemma parse_only_bind: "parse_only m \<Longrightarrow> (\<And>x. m = Inr x \<Longrightarrow> parse_only (f x)) \<Longrightarrow> parse_only (bindR m f)"
  by (cases m) (simp_all add: parse_only_def)

lemma parse_only_chars: "parse_only (load_chars s acc)"
proof (induction s acc rule: load_chars.induct)
  case (2 ch r s)
  then show ?case by (cases r) (auto split: option.split)
qed simp

lemma parse_only_string: "parse_only (load_string s)"
  unfolding load_string_def by (rule parse_only_bind [OF parse_only_chars]) (simp split: prod.split)

lemma parse_only_digits: "parse_only (read_digits p)" "parse_only (read_char p)"
  by (auto simp: read_digits_def read_char_def split: prod.split list.split)

lemma parse_only_number: "parse_only (load_number s)"
  unfolding load_number_def read_whole_def read_fraction_def read_exponent_def convert_number_def Let_def
  by (auto intro!: parse_only_bind parse_only_digits split: prod.split sum.split)

lemma parse_only_bool: "parse_only (load_bool s)" "parse_only (load_null s)"
  by (auto simp: load_bool_def load_null_def split: prod.split)

lemma parse_only_node: "parse_only (load_node s)" "parse_only (load_array ns s)" "parse_only (load_dict d s)"
proof (induction s and ns s and d s rule: load_node_load_array_load_dict.induct)
  case (1 s)
  show ?case
    using "1.IH" parse_only_string parse_only_number parse_only_bool
    by (subst load_node.simps) (auto split: option.split)
next
  case (2 ns s)
  show ?case
  proof (cases "get_char s")
    case None
    then show ?thesis by (simp add: load_array.simps)
  next
    case (Some p)
    obtain c r where p: "get_char s = Some (c, r)" using Some by (cases p) simp
    have "parse_only (bindR (load_node (if c \<noteq> CHR '','' then c # r else r)) (\<lambda>(n, r'). load_array (ns @ [n]) r'))"
      if "c \<noteq> CHR '']''"
      by (rule parse_only_bind) (use "2.IH" p that in \<open>auto split: prod.split\<close>)
    then show ?thesis using p by (simp add: load_array.simps [of ns s])
  qed
next
  case (3 d s)
  show ?case
  proof (cases "get_char s")
    case None
    then show ?thesis by (simp add: load_dict.simps)
  next
    case (Some p)
    obtain c r where p: "get_char s = Some (c, r)" using Some by (cases p) simp
    have member: "parse_only (case get_char r' of
          None \<Rightarrow> Inl (Parsing_error ('': is expected but '' @ quoted [CHR 0x22] @ '' has been found''))
        | Some (c', r'') \<Rightarrow>
            if c' = CHR '':'' then
              if map_of d key \<noteq> None
              then Inl (Parsing_error (''Duplicate key '' @ quoted key @ '' have been found''))
              else bindR (load_node r'') (\<lambda>(n, r3). load_dict (sm_emplace key n d) r3)
            else Inl (Parsing_error ('': is expected but '' @ quoted [c'] @ '' has been found'')))"
      if c: "c = CHR 0x22" and k: "load_string r = Inr (NStr key, r')" for key r'
    proof (cases "get_char r'")
      case None
      then show ?thesis by simp
    next
      case (Some q)
      obtain c' r'' where q: "q = (c', r'')" by (cases q)
      have "parse_only (bindR (load_node r'') (\<lambda>(n, r3). load_dict (sm_emplace key n d) r3))"
        if "c' = CHR '':''" "map_of d key = None"
      proof (rule parse_only_bind)
        show "parse_only (load_node r'')"
          using "3.IH"(1) [OF p refl _ c k refl _ Some q [symmetric] that(1)] c that(2) by (simp add: as_string_def)
        fix x assume x: "load_node r'' = Inr x"
        obtain n r3 where n: "x = (n, r3)" by (cases x)
        show "parse_only (case x of (n, r3) \<Rightarrow> load_dict (sm_emplace key n d) r3)"
          using "3.IH"(2) [OF p refl _ c k refl _ Some q [symmetric] that(1) _ x n [symmetric]] c that(2) n
          by (simp add: as_string_def)
      qed
      then show ?thesis using Some q by auto
    qed
    have key: "parse_only (bindR (load_string r) (\<lambda>(k, r'). bindR (as_string k) (\<lambda>key.
        case get_char r' of
          None \<Rightarrow> Inl (Parsing_error ('': is expected but '' @ quoted [CHR 0x22] @ '' has been found''))
        | Some (c', r'') \<Rightarrow>
            if c' = CHR '':'' then
              if map_of d key \<noteq> None
              then Inl (Parsing_error (''Duplicate key '' @ quoted key @ '' have been found''))
              else bindR (load_node r'') (\<lambda>(n, r3). load_dict (sm_emplace key n d) r3)
            else Inl (Parsing_error ('': is expected but '' @ quoted [c'] @ '' has been found'')))))"
      if "c = CHR 0x22"
    proof (rule parse_only_bind [OF parse_only_string])
      fix x assume x: "load_string r = Inr x"
      then obtain t r' where t: "x = (NStr t, r')" by (cases x) (auto simp: load_string_Inr)
      show "parse_only (case x of (k, r') \<Rightarrow> bindR (as_string k) (\<lambda>key.
        case get_char r' of
          None \<Rightarrow> Inl (Parsing_error ('': is expected but '' @ quoted [CHR 0x22] @ '' has been found''))
        | Some (c', r'') \<Rightarrow>
            if c' = CHR '':'' then
              if map_of d key \<noteq> None
              then Inl (Parsing_error (''Duplicate key '' @ quoted key @ '' have been found''))
              else bindR (load_node r'') (\<lambda>(n, r3). load_dict (sm_emplace key n d) r3)
            else Inl (Parsing_error ('': is expected but '' @ quoted [c'] @ '' has been found''))))"
        using member [OF that, of t r'] x by (simp only: t as_string_def node.case split_conv bindR_Inr)
    qed
    have rest: "parse_only (load_dict d r)" if "c = CHR '',''" using "3.IH"(3) [OF p refl] that by simp
    show ?thesis
      unfolding load_dict.simps [of d s] p option.case split_conv
      using key rest by (auto split: if_split)
  qed
qed

section \<open>Integer literals\<close>

lemma round_mag_normal:
  assumes "0 < n"
  shows "2 ^ 52 \<le> round_mag n 1 0"
proof -
  have "0 \<le> flog2 n 1" using assms by (simp add: flog2_eq)
  then have "1022 \<le> nat (max (- 1074) (flog2 n 1 + 0 - 52) + 1074)" by linarith
  then have "1022 * 2 ^ 52 \<le> nat (max (- 1074) (flog2 n 1 + 0 - 52) + 1074) * 2 ^ 52" by (rule mult_le_mono1)
  then have "2 ^ 52 \<le> nat (max (- 1074) (flog2 n 1 + 0 - 52) + 1074) * 2 ^ 52" by linarith
  moreover have "2 ^ 52 \<le> inf_mag" by (simp add: inf_mag_def)
  moreover obtain r where "round_mag n 1 0 =
      min inf_mag (r + nat (max (- 1074) (flog2 n 1 + 0 - 52) + 1074) * 2 ^ 52)"
    using assms unfolding round_mag_def Let_def by auto
  ultimately show ?thesis by (metis min.bounded_iff trans_le_add2)
qed

lemma decimal_parts_int: "decimal_parts (int_str i) = (i < 0, nat \<bar>i\<bar>, 0)"
proof -
  have tw: "takeWhile isdigit (dec n) = dec n" "dropWhile isdigit (dec n) = []" for n
    using dec_digits by (auto simp: takeWhile_eq_all_conv dropWhile_eq_Nil_conv)
  have "unsign (int_str i) = (i < 0, dec (nat \<bar>i\<bar>))"
    by (auto simp: int_str_def unsign_def [of "_ # _"] intro: arg_cong)
  then show ?thesis by (simp only: decimal_parts_def Let_def split_conv tw list.case append_Nil2 undec_dec) simp
qed

lemma stod_int_str: "stod (int_str i) = (if is_inf (double_of_int i) then Inl Out_of_range else Inr (double_of_int i))"
proof -
  let ?n = "nat \<bar>i\<bar>"
  have m: "mag_of_decimal ?n 0 = round_mag ?n 1 0" by (simp add: mag_of_decimal_def)
  have "is_inf (double_of_int i) \<longleftrightarrow> round_mag ?n 1 0 = inf_mag"
    by (simp only: is_inf_def double_of_int_def mag_of_pack [OF round_mag_less])
  moreover have "\<not> (round_mag ?n 1 0 < 2 ^ 52 \<and> ?n * 10 ^ nat 0 * 2 ^ 1074 \<noteq> round_mag ?n 1 0 * 10 ^ nat (- 0))"
  proof (cases "?n = 0")
    case True
    then show ?thesis by (simp add: round_mag_def)
  next
    case False
    then show ?thesis using round_mag_normal [of ?n] by linarith
  qed
  ultimately show ?thesis
    by (simp only: stod_def decimal_parts_int Let_def split_conv m double_of_int_def) auto
qed

section \<open>The builder's errors\<close>

definition logic_only :: "'a result \<Rightarrow> bool" where
  "logic_only r \<longleftrightarrow> (\<forall>e. r = Inl e \<longrightarrow> e = Undefined_behaviour \<or> (\<exists>m. e = Logic_error m))"

lemma logic_only_simps [simp]:
  "logic_only (Inr x)" "logic_only (Inl (Logic_error m))" "logic_only (Inl Undefined_behaviour)"
  by (simp_all add: logic_only_def)

lemma logic_only_bind: "logic_only m \<Longrightarrow> (\<And>x. logic_only (f x)) \<Longrightarrow> logic_only (bindR m f)"
  by (cases m) (simp_all add: logic_only_def)

lemma logic_only_as: "logic_only (as_array n)" "logic_only (as_string n)" "logic_only (as_dict n)"
  by (cases n; simp add: node_access)+

lemma logic_only_value: "logic_only (b_value v b)"
  unfolding b_value_def Let_def
  by (auto split: list.split intro!: logic_only_bind logic_only_as)

lemma call_errors: "logic_only (apply_call c b)"
  by (cases c) (auto simp: logic_only_value b_key_def b_start_array_def b_start_dict_def b_end_array_def
      b_end_dict_def split: list.split)

section \<open>Properties\<close>

text \<open>
  C11: A document without doubles, whose dictionaries are maps, is read back by \<^verbatim>\<open>Load\<close> exactly as
  \<^verbatim>\<open>Print\<close> wrote it, and the stream is left right behind it, whatever follows that cannot continue
  a number or a literal. (A double is printed in six digits, see \<open>printed_doubles_near\<close>.)
\<close>

theorem load_print:
  assumes "node_ok (get_root doc)" and "no_dbl (get_root doc)" and "stops rest"
  shows "load (print_doc doc @ rest) = Inr (doc, rest)"
  using load_print_node [OF assms] by (simp add: load_def print_doc_def document_new_def get_root_def)

lemma load_print_witness:
  "load (print_doc (document_new (NDict [(''a'', NArr [NInt (- 5), NNull, NStr [CHR 0x22, CHR 0x0A]]),
     (''b'', NBool True)])) @ '', next'') =
   Inr (document_new (NDict [(''a'', NArr [NInt (- 5), NNull, NStr [CHR 0x22, CHR 0x0A]]), (''b'', NBool True)]),
     '', next'')"
proof (rule load_print)
  have "(''a'' :: string) < ''b''" by code_simp
  then show "node_ok (get_root (document_new (NDict [(''a'', NArr [NInt (- 5), NNull,
      NStr [CHR 0x22, CHR 0x0A]]), (''b'', NBool True)])))"
    by (simp add: get_root_def document_new_def sm_ok_def)
qed (simp_all add: get_root_def document_new_def)

text \<open>
  C28: On every input \<^verbatim>\<open>LoadNode\<close> ends. It throws nothing but \<^verbatim>\<open>ParsingError\<close> (no other exception, no
  undefined behaviour), or it returns a node whose dictionaries are maps and has consumed input.
\<close>

theorem load_node_errors:
  "case load_node s of
     Inl e \<Rightarrow> \<exists>m. e = Parsing_error m
   | Inr (n, r) \<Rightarrow> node_ok n \<and> length r < length s"
proof (cases "load_node s")
  case (Inl e)
  then show ?thesis using parse_only_node(1) [of s] by (simp add: parse_only_def)
next
  case (Inr p)
  obtain n r where p: "p = (n, r)" by (cases p)
  then have "load_node s = Inr (n, r)" using Inr by simp
  from load_node_ok [OF this] load_node_shortens [OF this] this show ?thesis by simp
qed

text \<open>
  C27: \<^verbatim>\<open>LoadDict\<close> on the text of an object, laid out as \<^verbatim>\<open>Print\<close> does, with members of any keys in
  any order, whose values have no doubles and only maps as dictionaries: where no key repeats, the dictionary holds exactly these members, sorted by
  key; otherwise \<^verbatim>\<open>ParsingError\<close> names the first key that repeats an earlier one.
\<close>

theorem load_object_members:
  assumes "\<forall>p \<in> set ps. node_ok (snd p) \<and> no_dbl (snd p)"
  shows "load_node (print_node ctx (NDict ps) @ rest) =
    (case first_repeat {} (map fst ps) of
       None \<Rightarrow> Inr (NDict (sort_key fst ps), rest)
     | Some k \<Rightarrow> Inl (Parsing_error (''Duplicate key '' @ quoted k @ '' have been found'')))"
proof -
  have "list_all2 (\<lambda>p q. fst p = fst q \<and> reads_as (snd p) (snd q)) ps ps"
    using assms reads_all by (simp add: list_all2_same)
  from load_object [OF this] show ?thesis by (simp only: duplicate_key_def)
qed

lemma load_object_members_witness:
  "load_node (print_node print_ctx_new (NDict [(''b'', NInt 1), (''a'', NNull)]) @ ''!'') =
     Inr (NDict [(''a'', NNull), (''b'', NInt 1)], ''!'') \<and>
   load_node (print_node print_ctx_new (NDict [(''b'', NInt 1), (''a'', NNull), (''b'', NBool True)])) =
     Inl (Parsing_error (''Duplicate key '' @ quoted ''b'' @ '' have been found''))"
proof -
  have "sort_key fst [(''b'', NInt 1), (''a'', NNull)] = [(''a'', NNull), (''b'', NInt 1)]" by code_simp
  then show ?thesis
    using load_object_members [of "[(''b'', NInt 1), (''a'', NNull)]" print_ctx_new "''!''"]
      load_object_members [of "[(''b'', NInt 1), (''a'', NNull), (''b'', NBool True)]" print_ctx_new "[]"]
    by simp
qed

text \<open>
  Strings of any characters survive printing and loading: \<^verbatim>\<open>PrintString\<close> escapes what
  \<^verbatim>\<open>LoadString\<close> would reject or end at.
\<close>

theorem load_string_print:
  "load_node (print_string s @ rest) = Inr (NStr s, rest)"
  using load_print_string [of s rest]
  by (simp add: load_node.simps get_char_Cons isspace_def print_string_def)

text \<open>
  C29: An integer literal becomes an \<^verbatim>\<open>int\<close> when it fits 32 bits; otherwise it becomes the nearest
  double, and a parsing error when that would be infinite.
\<close>

theorem load_integer_literal:
  assumes "stops rest"
  shows "load_number (int_str i @ rest) =
    (if - (2 ^ 31) \<le> i \<and> i < 2 ^ 31 then Inr (NInt (word_of_int i), rest)
     else if is_inf (double_of_int i) then Inl (Parsing_error (''Failed to convert '' @ int_str i @ '' to number''))
     else Inr (NDbl (double_of_int i), rest))"
proof -
  have "\<not> peek_is (\<lambda>c. c = CHR ''.'') rest" "\<not> peek_is (\<lambda>c. c = CHR ''e'' \<or> c = CHR ''E'') rest"
    using assms by (auto simp: stops_def peek_is_def isalpha_def split: list.splits)
  then have "load_number (int_str i @ rest) = bindR (convert_number (int_str i) True) (\<lambda>n. Inr (n, rest))"
    by (simp add: load_number_def read_int [OF assms] read_fraction_def read_exponent_def)
  moreover have "stoi (int_str i) = (if - (2 ^ 31) \<le> i \<and> i < 2 ^ 31 then Inr (word_of_int i) else Inl Out_of_range)"
  proof -
    have "unsign (int_str i) = (i < 0, dec (nat \<bar>i\<bar>))"
      by (auto simp: int_str_def unsign_def [of "_ # _"] intro: arg_cong)
    then show ?thesis by (simp add: stoi_def)
  qed
  ultimately show ?thesis by (simp add: convert_number_def stod_int_str)
qed

lemma load_integer_literal_witness:
  "load_number (int_str 2147483647 @ '']'') = Inr (NInt 2147483647, '']'')"
  using load_integer_literal [of "'']''" 2147483647] by (simp add: stops_def isdigit_def isalpha_def)

text \<open>
  C26: Every well-formed document other than null can be built: the calls that spell it out
  succeed one after the other on a new \<^verbatim>\<open>Builder\<close>, and \<^verbatim>\<open>Build\<close> returns it.
\<close>

theorem builder_builds:
  assumes "node_ok n" and "n \<noteq> NNull"
  shows "bindR (run_calls builder_new (calls n)) b_build = Inr n"
  by (rule build_document [OF assms])

lemma builder_builds_witness:
  "bindR (run_calls builder_new [StartArray, Value (NInt 1), StartDict, Key ''k'', Value NNull, EndDict, EndArray])
     b_build = Inr (NArr [NInt 1, NDict [(''k'', NNull)]])"
  using builder_builds [of "NArr [NInt 1, NDict [(''k'', NNull)]]"] by (simp add: sm_ok_def)

text \<open>
  C24: In the contexts that \<^verbatim>\<open>Key\<close>, \<^verbatim>\<open>StartDict\<close>, \<^verbatim>\<open>StartArray\<close> and their continuations return,
  every call that compiles succeeds at run time, and its result is in the context its type says.
\<close>

theorem builder_contexts_safe:
  assumes "b_ok b" and "in_ctx c b" and "c \<noteq> Builder_ctx" and "allowed c k"
  shows "\<exists>b'. apply_call k b = Inr b' \<and> in_ctx (result_ctx c k) b'"
  by (rule ctx_progress [OF assms])

lemma builder_contexts_safe_witness:
  "\<exists>b'. apply_call (Value (NInt 3)) \<lparr>b_root = NNull, nodes_stack = [NStr ''k'', NDict []]\<rparr> = Inr b' \<and>
     in_ctx (result_ctx Key_ctx (Value (NInt 3))) b'"
  by (rule builder_contexts_safe) (simp_all add: b_ok_def in_ctx_def node_access)

text \<open>
  C25: Every call on a \<^verbatim>\<open>Builder\<close>, allowed or not, either throws \<^verbatim>\<open>std::logic_error\<close> or keeps the
  invariant of the stack: a pending key sits on a dictionary, every other open container on an
  array, a pending key or the bottom. Undefined behaviour is not reached.
\<close>

theorem builder_invariant:
  assumes "b_ok b" and "call_ok c"
  shows "(\<exists>m. apply_call c b = Inl (Logic_error m)) \<or> (\<exists>b'. apply_call c b = Inr b' \<and> b_ok b')"
proof (cases "apply_call c b")
  case (Inr b')
  then show ?thesis using apply_call_ok [OF assms] by simp
next
  case (Inl e)
  then have "e \<noteq> Undefined_behaviour" using apply_call_ok [OF assms] by simp
  moreover have "e = Undefined_behaviour \<or> (\<exists>m. e = Logic_error m)"
    using call_errors [of c b] Inl by (auto simp: logic_only_def)
  ultimately show ?thesis using Inl by simp
qed

lemma builder_invariant_witness:
  "(\<exists>m. apply_call (Key ''k'') builder_new = Inl (Logic_error m)) \<or>
   (\<exists>b'. apply_call (Key ''k'') builder_new = Inr b' \<and> b_ok b')"
  by (rule builder_invariant) simp_all

end
