(* ===== verification/Domain.thy ===== *)
theory Domain
  imports Ieee_Double
begin

text \<open>
  \<^verbatim>\<open>geo.h\<close>, \<^verbatim>\<open>geo.cpp\<close>, \<^verbatim>\<open>domain.h\<close>, \<^verbatim>\<open>domain.cpp\<close>: coordinates, their distance on the sphere, stops,
  buses and the two query results. The trigonometric functions of the C library are not
  specified to the last bit, and the order in which \<^verbatim>\<open>std::transform_reduce\<close> adds doubles is
  left open, so both are an argument (\<open>libm\<close>). A \<^verbatim>\<open>Stop*\<close> points into the
  catalogue's deque of stops, which never moves its elements: it is an index.
\<close>

record coordinates =
  lat :: double
  lng :: double

record libm =
  libm_sin :: "double \<Rightarrow> double"
  libm_cos :: "double \<Rightarrow> double"
  libm_acos :: "double \<Rightarrow> double"
  libm_reduce :: "double list \<Rightarrow> double"

definition degree :: double where
  "degree = double_of_decimal False 31415926535 (-10) / double_of_int 180"

definition compute_distance :: "libm \<Rightarrow> coordinates \<Rightarrow> coordinates \<Rightarrow> double" where
  "compute_distance m from_c to_c =
     libm_acos m (libm_sin m (lat from_c * degree) * libm_sin m (lat to_c * degree)
       + libm_cos m (lat from_c * degree) * libm_cos m (lat to_c * degree) *
         libm_cos m (abs_double (lng from_c - lng to_c) * degree))
     * double_of_int 6371000"

record stop =
  stop_name :: string
  stop_coordinates :: coordinates

definition get_coord :: "stop \<Rightarrow> coordinates" where
  "get_coord s = stop_coordinates s"

record bus =
  bus_name :: string
  bus_stops :: "nat list"
  is_loop_trip :: bool

record stop_info =
  si_exists :: bool
  si_buses :: "string list"

record bus_info =
  bi_exists :: bool
  curvature :: double
  route_length :: double
  quantity_stop :: "32 word"
  unique_stops :: "32 word"

end
