(* ===== verification/Catalogue.thy ===== *)
theory Catalogue
  imports Domain
begin

text \<open>
  \<^verbatim>\<open>transport_catalogue.h\<close> and \<^verbatim>\<open>transport_catalogue.cpp\<close> without the serialisation. The two
  deques own the stops and buses; pointers to their elements are indices, and dereferencing
  one is \<open>vec_idx\<close>. String views are the strings they show: every key of a map is the name
  stored in the deque, which is never changed.
\<close>

record catalogue =
  buses_by_name :: "(string, nat) umap"
  stops_by_name :: "(string, nat) umap"
  buses_in_stop :: "(string, string list) umap"
  length_between_stops :: "(nat \<times> nat, 32 word) umap"
  all_buses :: "bus list"
  all_stops :: "stop list"

definition catalogue_new :: catalogue where
  "catalogue_new = \<lparr>buses_by_name = [], stops_by_name = [], buses_in_stop = [], length_between_stops = [],
     all_buses = [], all_stops = []\<rparr>"

text \<open>
  The hash of a pair of stops, over a hash of pointers, in \<^verbatim>\<open>size_t\<close> arithmetic. Pairs that share a stop in
  the same place collide only where the hashes of the other two stops do: 47 is odd.
\<close>

definition pair_stop_hash :: "('a \<Rightarrow> 64 word) \<Rightarrow> 'a \<times> 'a \<Rightarrow> 64 word" where
  "pair_stop_hash ptr_hasher p = 47 * ptr_hasher (fst p) + ptr_hasher (snd p)"

lemma pair_stop_hash_collision:
  "pair_stop_hash h (a, b) = pair_stop_hash h (a, b') \<longleftrightarrow> h b = h b'"
  "pair_stop_hash h (a, b) = pair_stop_hash h (a', b) \<longleftrightarrow> h a = h a'"
proof -
  have "(5887258746928580303 :: 64 word) * 47 = 1" by simp
  then have "(5887258746928580303 :: 64 word) * (47 * x) = x" for x
    by (simp only: mult.assoc [symmetric] mult_1_left)
  then have "47 * x = 47 * y \<longleftrightarrow> x = y" for x y :: "64 word" by metis
  then show "pair_stop_hash h (a, b) = pair_stop_hash h (a', b) \<longleftrightarrow> h a = h a'" by (simp add: pair_stop_hash_def)
qed (simp add: pair_stop_hash_def)

section \<open>Lookups\<close>

definition get_bus :: "catalogue \<Rightarrow> string \<Rightarrow> bus result" where
  "get_bus c name_bus = bindR (map_at (map_of (buses_by_name c)) name_bus) (\<lambda>i. vec_idx (all_buses c) i)"

definition get_stop :: "catalogue \<Rightarrow> string \<Rightarrow> stop result" where
  "get_stop c name_stop = bindR (map_at (map_of (stops_by_name c)) name_stop) (\<lambda>i. vec_idx (all_stops c) i)"

definition stop_availability :: "catalogue \<Rightarrow> string \<Rightarrow> bool" where
  "stop_availability c s \<longleftrightarrow> map_of (stops_by_name c) s \<noteq> None"

definition bus_availability :: "catalogue \<Rightarrow> string \<Rightarrow> bool" where
  "bus_availability c b \<longleftrightarrow> map_of (buses_by_name c) b \<noteq> None"

definition get_length :: "catalogue \<Rightarrow> string \<Rightarrow> string \<Rightarrow> 32 word result" where
  "get_length c first_stop second_stop =
     bindR (map_at (map_of (stops_by_name c)) first_stop) (\<lambda>a.
       bindR (map_at (map_of (stops_by_name c)) second_stop) (\<lambda>b.
         case map_of (length_between_stops c) (a, b) of
           Some l \<Rightarrow> Inr l
         | None \<Rightarrow>
             (case map_of (length_between_stops c) (b, a) of
                Some l \<Rightarrow> Inr l
              | None \<Rightarrow> if first_stop = second_stop then Inr 0
                        else Inl (Logic_error ''Not found Lenght between this stops''))))"

section \<open>Updates\<close>

definition add_stop :: "string \<Rightarrow> coordinates \<Rightarrow> catalogue \<Rightarrow> catalogue result" where
  "add_stop name location c =
     (let s = \<lparr>stop_name = name, stop_coordinates = location\<rparr> in
      case map_of (stops_by_name c) name of
        Some i \<Rightarrow> bindR (vec_idx (all_stops c) i) (\<lambda>old.
          if eq_double (lat (stop_coordinates old)) 0 \<and> eq_double (lng (stop_coordinates old)) 0
          then Inr (c\<lparr>all_stops := (all_stops c)[i := s]\<rparr>) else Inr c)
      | None \<Rightarrow> Inr (c\<lparr>stops_by_name := um_put name (length (all_stops c)) (stops_by_name c),
                       all_stops := all_stops c @ [s]\<rparr>))"

text \<open>\<open>note_visit\<close>: the bus is listed at the stop once.\<close>

definition note_visit :: "string \<Rightarrow> string \<Rightarrow> (string, string list) umap \<Rightarrow> (string, string list) umap" where
  "note_visit stop_n bus_n m =
     (let here = (case map_of m stop_n of Some l \<Rightarrow> l | None \<Rightarrow> [])
      in if bus_n \<in> set here then m else um_put stop_n (here @ [bus_n]) m)"

definition add_bus_stop :: "string \<Rightarrow> catalogue \<times> nat list \<Rightarrow> string \<Rightarrow> (catalogue \<times> nat list) result" where
  "add_bus_stop name p stop_n =
     (let (c, deq_stops) = p in
      bindR (if stop_availability c stop_n then Inr c else add_stop stop_n \<lparr>lat = 0, lng = 0\<rparr> c) (\<lambda>c.
      bindR (map_at (map_of (stops_by_name c)) stop_n) (\<lambda>i.
      bindR (vec_idx (all_stops c) i) (\<lambda>s.
      bindR (get_bus c name) (\<lambda>b.
        Inr (c\<lparr>buses_in_stop := note_visit (stop_name s) (bus_name b) (buses_in_stop c)\<rparr>,
             deq_stops @ [i]))))))"

definition add_bus :: "string \<Rightarrow> string list \<Rightarrow> bool \<Rightarrow> catalogue \<Rightarrow> catalogue result" where
  "add_bus name stops is_loop c =
     (let c = c\<lparr>buses_by_name := um_put name (length (all_buses c)) (buses_by_name c),
                all_buses := all_buses c @ [\<lparr>bus_name = name, bus_stops = [], is_loop_trip = is_loop\<rparr>]\<rparr>
      in bindR (foldR (add_bus_stop name) (c, []) stops) (\<lambda>(c, deq_stops).
           bindR (map_at (map_of (buses_by_name c)) name) (\<lambda>i.
           bindR (vec_idx (all_buses c) i) (\<lambda>b.
             Inr (c\<lparr>all_buses := (all_buses c)[i := b\<lparr>bus_stops := deq_stops\<rparr>]\<rparr>)))))"

definition add_length :: "string \<Rightarrow> string \<Rightarrow> 32 word \<Rightarrow> catalogue \<Rightarrow> catalogue result" where
  "add_length first_stop second_stop len c =
     bindR (map_at (map_of (stops_by_name c)) first_stop) (\<lambda>a.
     bindR (if stop_availability c second_stop then Inr c
            else add_stop second_stop \<lparr>lat = 0, lng = 0\<rparr> c) (\<lambda>c.
     bindR (map_at (map_of (stops_by_name c)) second_stop) (\<lambda>b.
       Inr (c\<lparr>length_between_stops := um_emplace (a, b) len (length_between_stops c)\<rparr>))))"

section \<open>Queries\<close>

text \<open>The pairs of an element and its predecessor, \<^verbatim>\<open>std::next(begin)\<close> with \<^verbatim>\<open>begin\<close>.\<close>

definition adjacent :: "'a list \<Rightarrow> ('a \<times> 'a) list" where
  "adjacent xs = zip (tl xs) xs"

definition leg_length :: "catalogue \<Rightarrow> nat \<times> nat \<Rightarrow> 32 word result" where
  "leg_length c p =
     (let (lhs, rhs) = p in
      case map_of (length_between_stops c) (rhs, lhs) of
        Some l \<Rightarrow> Inr l
      | None \<Rightarrow> map_at (map_of (length_between_stops c)) (lhs, rhs))"

text \<open>
  The sum is accumulated in \<^verbatim>\<open>int\<close> from terms of type \<^verbatim>\<open>uint32_t\<close>: it is taken modulo \<open>2 ^ 32\<close>
  and read as signed. (Where the library adds two partial sums of type \<^verbatim>\<open>int\<close>, an overflow is undefined; all
  results use the sum only below \<open>2 ^ 31\<close>, where every grouping gives it.) \<^verbatim>\<open>std::next(begin)\<close> and \<^verbatim>\<open>pop_back\<close> of an empty deque are undefined.
\<close>

definition there_and_back :: "nat list \<Rightarrow> nat list" where
  "there_and_back ss = ss @ rev (butlast ss)"

definition summation_length :: "catalogue \<Rightarrow> bus \<Rightarrow> double result" where
  "summation_length c b =
     (if bus_stops b = [] then Inl Undefined_behaviour
      else let stops = (if is_loop_trip b then bus_stops b else there_and_back (bus_stops b))
        in bindR (mapR (leg_length c) (adjacent stops)) (\<lambda>ls.
             Inr (double_of_int (sint (foldl (+) 0 ls)))))"

definition leg_distance :: "libm \<Rightarrow> catalogue \<Rightarrow> nat \<times> nat \<Rightarrow> double result" where
  "leg_distance m c p =
     (let (lhs, rhs) = p in
      bindR (vec_idx (all_stops c) lhs) (\<lambda>a. bindR (vec_idx (all_stops c) rhs) (\<lambda>b.
        Inr (compute_distance m (stop_coordinates a) (stop_coordinates b)))))"

definition summation_line_length :: "libm \<Rightarrow> catalogue \<Rightarrow> bus \<Rightarrow> double result" where
  "summation_line_length m c b =
     (if bus_stops b = [] then Inl Undefined_behaviour
      else bindR (mapR (leg_distance m c) (adjacent (bus_stops b))) (\<lambda>ds.
        let s = libm_reduce m ds
        in Inr (if is_loop_trip b then s else double_of_int 2 * s)))"

definition get_info_bus :: "libm \<Rightarrow> catalogue \<Rightarrow> string \<Rightarrow> bus_info result" where
  "get_info_bus m c name =
     (if \<not> bus_availability c name
      then Inr \<lparr>bi_exists = False, curvature = 0, route_length = 0, quantity_stop = 0, unique_stops = 0\<rparr>
      else bindR (get_bus c name) (\<lambda>b.
        let unique = card (set (bus_stops b));
            quantity = (if is_loop_trip b then int (length (bus_stops b))
                        else int (length (bus_stops b)) * 2 - 1)
        in bindR (summation_length c b) (\<lambda>len. bindR (summation_line_length m c b) (\<lambda>line.
             Inr \<lparr>bi_exists = True, curvature = len / line, route_length = len,
                  quantity_stop = word_of_int quantity, unique_stops = word_of_nat unique\<rparr>))))"

definition get_info_stop :: "catalogue \<Rightarrow> string \<Rightarrow> stop_info" where
  "get_info_stop c name =
     (if \<not> stop_availability c name then \<lparr>si_exists = False, si_buses = []\<rparr>
      else case map_of (buses_in_stop c) name of
             None \<Rightarrow> \<lparr>si_exists = True, si_buses = []\<rparr>
           | Some l \<Rightarrow> \<lparr>si_exists = True, si_buses = sort l\<rparr>)"

end
