(* ===== verification/Catalogue_Correct.thy ===== *)
theory Catalogue_Correct
  imports Catalogue
begin

text \<open>
  The catalogue's invariant \<open>cat_ok\<close>: the three indices hold exactly what the two deques say. So
  two catalogues with the same stops, buses and lengths are equal, which is how the
  serialisation's round trip is shown.
\<close>

section \<open>The index of names\<close>

definition by_name :: "string list \<Rightarrow> (string, nat) umap" where
  "by_name ns = foldl (\<lambda>m i. um_put (ns ! i) i m) [] [0..<length ns]"

lemma foldl_cong_set:
  "(\<And>s x. x \<in> set xs \<Longrightarrow> f s x = g s x) \<Longrightarrow> foldl f s xs = foldl g s xs"
  by (induction xs arbitrary: s) auto

lemma by_name_Nil [simp]: "by_name [] = []"
  by (simp add: by_name_def)

lemma by_name_snoc [simp]: "by_name (ns @ [n]) = um_put n (length ns) (by_name ns)"
proof -
  have "foldl (\<lambda>m i. um_put ((ns @ [n]) ! i) i m) [] [0..<length ns] =
      foldl (\<lambda>m i. um_put (ns ! i) i m) [] [0..<length ns]"
    by (rule foldl_cong_set) (simp add: nth_append)
  then show ?thesis by (simp add: by_name_def)
qed

lemma map_of_by_name: "map_of (by_name ns) n = Some i \<Longrightarrow> i < length ns \<and> ns ! i = n"
  by (induction ns rule: rev_induct) (auto simp: map_of_um_put nth_append split: if_splits)

lemma map_of_by_name_None [simp]: "map_of (by_name ns) n = None \<longleftrightarrow> n \<notin> set ns"
  by (induction ns rule: rev_induct) (auto simp: map_of_um_put)

lemma by_name_in: "n \<in> set ns \<Longrightarrow> \<exists>i. map_of (by_name ns) n = Some i \<and> i < length ns \<and> ns ! i = n"
  using map_of_by_name_None [of ns n] map_of_by_name by fastforce

lemma by_name_nth: "distinct ns \<Longrightarrow> i < length ns \<Longrightarrow> map_of (by_name ns) (ns ! i) = Some i"
  using by_name_in [of "ns ! i" ns] by (auto simp: nth_eq_iff_index_eq)

section \<open>Which buses stop where\<close>

definition visited :: "(string, string list) umap \<Rightarrow> string \<Rightarrow> string list" where
  "visited m s = (case map_of m s of Some l \<Rightarrow> l | None \<Rightarrow> [])"

definition visit_bus :: "string list \<Rightarrow> (string, string list) umap \<Rightarrow> bus \<Rightarrow> (string, string list) umap" where
  "visit_bus ns m b = foldl (\<lambda>m s. note_visit (ns ! s) (bus_name b) m) m (bus_stops b)"

definition visits :: "string list \<Rightarrow> bus list \<Rightarrow> (string, string list) umap" where
  "visits ns bs = foldl (visit_bus ns) [] bs"

lemma visited_note: "visited (note_visit s b m) =
    (visited m)(s := if b \<in> set (visited m s) then visited m s else visited m s @ [b])"
  by (auto simp: visited_def note_visit_def map_of_um_put Let_def fun_eq_iff split: option.splits)

lemma visit_bus_prefix:
  "\<forall>s \<in> set (bus_stops b). s < length ns \<Longrightarrow> visit_bus (ns @ ext) m b = visit_bus ns m b"
  unfolding visit_bus_def by (rule foldl_cong_set) (simp add: nth_append)

lemma visits_prefix:
  "\<forall>b \<in> set bs. \<forall>s \<in> set (bus_stops b). s < length ns \<Longrightarrow> visits (ns @ ext) bs = visits ns bs"
  unfolding visits_def by (rule foldl_cong_set) (simp add: visit_bus_prefix)

lemma visits_snoc: "visits ns (bs @ [b]) = visit_bus ns (visits ns bs) b"
  by (simp add: visits_def)

lemma visited_foldl:
  "set (visited (foldl (\<lambda>m s. note_visit (ns ! s) b m) m ss) x) =
     set (visited m x) \<union> (if x \<in> (\<lambda>s. ns ! s) ` set ss then {b} else {})"
  by (induction ss arbitrary: m) (auto simp: visited_note)

lemma distinct_visited_foldl:
  "(\<And>x. distinct (visited m x)) \<Longrightarrow> distinct (visited (foldl (\<lambda>m s. note_visit (ns ! s) b m) m ss) x)"
  by (induction ss arbitrary: m) (auto simp: visited_note)

lemma visited_visits:
  "set (visited (visits ns bs) x) = {bus_name b | b. b \<in> set bs \<and> x \<in> (\<lambda>s. ns ! s) ` set (bus_stops b)}"
  by (induction bs rule: rev_induct)
    (auto simp: visits_def visit_bus_def visited_foldl visited_def [of "[]"])

lemma distinct_visited: "distinct (visited (visits ns bs) x)"
proof (induction bs arbitrary: x rule: rev_induct)
  case Nil
  then show ?case by (simp add: visits_def visited_def)
next
  case (snoc b bs)
  then show ?case by (simp add: visits_snoc visit_bus_def distinct_visited_foldl)
qed

section \<open>The invariant\<close>

definition snames :: "catalogue \<Rightarrow> string list" where
  "snames c = map stop_name (all_stops c)"

definition bnames :: "catalogue \<Rightarrow> string list" where
  "bnames c = map bus_name (all_buses c)"

definition stops_ok :: "catalogue \<Rightarrow> bool" where
  "stops_ok c \<longleftrightarrow> distinct (snames c) \<and> stops_by_name c = by_name (snames c)"

definition cat_ok :: "catalogue \<Rightarrow> bool" where
  "cat_ok c \<longleftrightarrow> stops_ok c \<and> buses_by_name c = by_name (bnames c) \<and>
     buses_in_stop c = visits (snames c) (all_buses c) \<and>
     (\<forall>b \<in> set (all_buses c). \<forall>s \<in> set (bus_stops b). s < length (all_stops c)) \<and>
     um_ok (length_between_stops c) \<and>
     (\<forall>((a, b), l) \<in> set (length_between_stops c). a < length (all_stops c) \<and> b < length (all_stops c))"

lemma cat_ok_new [simp]: "cat_ok catalogue_new"
  by (simp add: cat_ok_def stops_ok_def catalogue_new_def snames_def bnames_def visits_def)

text \<open>The deques and the lengths determine the rest.\<close>

lemma cat_ok_eqI:
  assumes "cat_ok c" and "cat_ok c'" and "all_stops c' = all_stops c" and "all_buses c' = all_buses c"
    and "length_between_stops c' = length_between_stops c"
  shows "c' = c"
  using assms by (cases c; cases c') (simp add: cat_ok_def stops_ok_def snames_def bnames_def)

lemma stop_lookup:
  assumes "stops_ok c" and "i < length (all_stops c)"
  shows "map_of (stops_by_name c) (stop_name (all_stops c ! i)) = Some i"
  using assms by_name_nth [of "snames c" i] by (simp add: stops_ok_def snames_def)

lemma stop_lookup_in:
  assumes "stops_ok c" and "n \<in> set (snames c)"
  obtains i where "map_of (stops_by_name c) n = Some i" and "i < length (all_stops c)"
    and "stop_name (all_stops c ! i) = n"
  using assms by_name_in [of n "snames c"] by (auto simp: stops_ok_def snames_def)

lemma stop_availability_iff [simp]: "stops_ok c \<Longrightarrow> stop_availability c n \<longleftrightarrow> n \<in> set (snames c)"
  by (simp add: stop_availability_def stops_ok_def)

lemma bus_lookup:
  assumes "cat_ok c" and "n \<in> set (bnames c)"
  obtains i where "map_of (buses_by_name c) n = Some i" and "i < length (all_buses c)"
    and "bus_name (all_buses c ! i) = n"
  using assms by_name_in [of n "bnames c"] by (auto simp: cat_ok_def bnames_def)

section \<open>AddStop\<close>

definition zero_coord :: "coordinates \<Rightarrow> bool" where
  "zero_coord l \<longleftrightarrow> eq_double (lat l) 0 \<and> eq_double (lng l) 0"

lemma add_stop_new:
  assumes "stops_ok c" and "n \<notin> set (snames c)"
  shows "add_stop n loc c = Inr (c\<lparr>stops_by_name := by_name (snames c @ [n]),
    all_stops := all_stops c @ [\<lparr>stop_name = n, stop_coordinates = loc\<rparr>]\<rparr>)"
proof -
  have "map_of (stops_by_name c) n = None" using assms by (simp add: stops_ok_def)
  then have "add_stop n loc c = Inr (c\<lparr>stops_by_name := um_put n (length (all_stops c)) (stops_by_name c),
      all_stops := all_stops c @ [\<lparr>stop_name = n, stop_coordinates = loc\<rparr>]\<rparr>)"
    by (simp add: add_stop_def Let_def)
  then show ?thesis using assms by (simp add: stops_ok_def snames_def)
qed

lemma add_stop_known:
  assumes "stops_ok c" and "i < length (all_stops c)" and "stop_name (all_stops c ! i) = n"
  shows "add_stop n loc c = Inr (if zero_coord (stop_coordinates (all_stops c ! i))
    then c\<lparr>all_stops := (all_stops c)[i := \<lparr>stop_name = n, stop_coordinates = loc\<rparr>]\<rparr> else c)"
  using stop_lookup [OF assms(1,2)] assms by (simp add: add_stop_def zero_coord_def Let_def)

lemma snames_update:
  assumes "i < length (all_stops c)" and "stop_name (all_stops c ! i) = n"
  shows "snames (c\<lparr>all_stops := (all_stops c)[i := \<lparr>stop_name = n, stop_coordinates = loc\<rparr>]\<rparr>) = snames c"
  using assms by (auto simp: snames_def map_update list_update_same_conv)

lemma cat_ok_extend:
  assumes "cat_ok c" and "n \<notin> set (snames c)"
  shows "cat_ok (c\<lparr>stops_by_name := by_name (snames c @ [n]),
    all_stops := all_stops c @ [\<lparr>stop_name = n, stop_coordinates = loc\<rparr>]\<rparr>)"
  using assms visits_prefix [of "all_buses c" "snames c" "[n]"]
  by (fastforce simp: cat_ok_def stops_ok_def snames_def bnames_def)

theorem add_stop_ok:
  assumes "cat_ok c"
  shows "\<exists>c'. add_stop n loc c = Inr c' \<and> cat_ok c' \<and> all_buses c' = all_buses c \<and>
    length_between_stops c' = length_between_stops c \<and>
    all_stops c' = (if n \<in> set (snames c)
      then map (\<lambda>s. if stop_name s = n \<and> zero_coord (stop_coordinates s)
                    then \<lparr>stop_name = n, stop_coordinates = loc\<rparr> else s) (all_stops c)
      else all_stops c @ [\<lparr>stop_name = n, stop_coordinates = loc\<rparr>])"
proof (cases "n \<in> set (snames c)")
  case False
  have "stops_ok c" using assms by (simp add: cat_ok_def)
  then show ?thesis using add_stop_new [of c n loc] cat_ok_extend [OF assms False] False by simp
next
  case True
  have ok: "stops_ok c" using assms by (simp add: cat_ok_def)
  obtain i where i: "i < length (all_stops c)" "stop_name (all_stops c ! i) = n"
    using stop_lookup_in [OF ok True] by blast
  let ?s = "\<lparr>stop_name = n, stop_coordinates = loc\<rparr>"
  let ?z = "zero_coord (stop_coordinates (all_stops c ! i))"
  let ?c = "if ?z then c\<lparr>all_stops := (all_stops c)[i := ?s]\<rparr> else c"
  have other: "stop_name (all_stops c ! j) \<noteq> n" if "j < length (all_stops c)" "j \<noteq> i" for j
    using ok i that by (auto simp: stops_ok_def snames_def distinct_conv_nth)
  have "(if ?z then (all_stops c)[i := ?s] else all_stops c) =
      map (\<lambda>s. if stop_name s = n \<and> zero_coord (stop_coordinates s) then ?s else s) (all_stops c)"
  proof (rule nth_equalityI)
    fix j assume "j < length (if ?z then (all_stops c)[i := ?s] else all_stops c)"
    then have j: "j < length (all_stops c)" by (simp split: if_splits)
    show "(if ?z then (all_stops c)[i := ?s] else all_stops c) ! j =
        map (\<lambda>s. if stop_name s = n \<and> zero_coord (stop_coordinates s) then ?s else s) (all_stops c) ! j"
      using i j other [OF j] by (cases "j = i") simp_all
  qed simp
  moreover have "cat_ok ?c"
    using assms snames_update [OF i, of loc] by (auto simp: cat_ok_def stops_ok_def bnames_def)
  moreover have "all_stops ?c = (if ?z then (all_stops c)[i := ?s] else all_stops c)"
    "all_buses ?c = all_buses c" "length_between_stops ?c = length_between_stops c" by simp_all
  ultimately show ?thesis using add_stop_known [OF ok i, of loc] True by (intro exI [where x = ?c]) simp
qed

section \<open>AddBus\<close>

text \<open>
  After the stops \<open>done\<close> of the new bus: stops were added only for the names \<open>seen\<close>.
\<close>

definition add_inv :: "catalogue \<Rightarrow> string \<Rightarrow> bool \<Rightarrow> string list \<Rightarrow> string list \<Rightarrow> catalogue \<times> nat list \<Rightarrow> bool" where
  "add_inv c name is_loop seen done p \<longleftrightarrow> (case p of (c', deq) \<Rightarrow>
     stops_ok c' \<and> (\<exists>ext. all_stops c' = all_stops c @ ext \<and> set (map stop_name ext) \<subseteq> set seen) \<and>
     (\<forall>i \<in> set deq. i < length (all_stops c')) \<and> map (\<lambda>i. snames c' ! i) deq = done \<and>
     buses_in_stop c' = foldl (\<lambda>m s. note_visit (snames c' ! s) name m) (buses_in_stop c) deq \<and>
     buses_by_name c' = um_put name (length (all_buses c)) (buses_by_name c) \<and>
     all_buses c' = all_buses c @ [\<lparr>bus_name = name, bus_stops = [], is_loop_trip = is_loop\<rparr>] \<and>
     length_between_stops c' = length_between_stops c)"

lemma add_bus_stop_known:
  assumes p: "add_inv c name is_loop seen done (c', deq)"
    and n: "map_of (stops_by_name c') n = Some i" "i < length (all_stops c')" "stop_name (all_stops c' ! i) = n"
  shows "\<exists>q. bindR (map_at (map_of (stops_by_name c')) n) (\<lambda>i.
      bindR (vec_idx (all_stops c') i) (\<lambda>s. bindR (get_bus c' name) (\<lambda>b.
        Inr (c'\<lparr>buses_in_stop := note_visit (stop_name s) (bus_name b) (buses_in_stop c')\<rparr>, deq @ [i])))) = Inr q \<and>
    add_inv c name is_loop seen (done @ [n]) q"
proof -
  have "get_bus c' name = Inr \<lparr>bus_name = name, bus_stops = [], is_loop_trip = is_loop\<rparr>"
    using p by (simp add: add_inv_def get_bus_def map_of_um_put)
  moreover have "add_inv c name is_loop seen (done @ [n])
      (c'\<lparr>buses_in_stop := note_visit n name (buses_in_stop c')\<rparr>, deq @ [i])"
    using p n by (auto simp: add_inv_def stops_ok_def snames_def)
  ultimately show ?thesis using n by simp
qed

lemma add_bus_stop_step:
  assumes p: "add_inv c name is_loop seen done (c', deq)"
  shows "\<exists>q. add_bus_stop name (c', deq) n = Inr q \<and> add_inv c name is_loop (seen @ [n]) (done @ [n]) q"
proof -
  have ok: "stops_ok c'" using p by (simp add: add_inv_def)
  have p1: "add_inv c name is_loop (seen @ [n]) done (c', deq)" using p by (auto simp: add_inv_def)
  show ?thesis
  proof (cases "n \<in> set (snames c')")
    case True
    then obtain i where i: "map_of (stops_by_name c') n = Some i" "i < length (all_stops c')"
        "stop_name (all_stops c' ! i) = n" by (rule stop_lookup_in [OF ok])
    from add_bus_stop_known [OF p1 i] show ?thesis using True ok by (simp add: add_bus_stop_def)
  next
    case False
    let ?s = "\<lparr>stop_name = n, stop_coordinates = \<lparr>lat = 0, lng = 0\<rparr>\<rparr>"
    define c2 where "c2 = c'\<lparr>stops_by_name := by_name (snames c' @ [n]), all_stops := all_stops c' @ [?s]\<rparr>"
    have c2: "stops_by_name c2 = by_name (snames c' @ [n])" "all_stops c2 = all_stops c' @ [?s]"
        "buses_in_stop c2 = buses_in_stop c'" "buses_by_name c2 = buses_by_name c'"
        "all_buses c2 = all_buses c'" "length_between_stops c2 = length_between_stops c'"
      by (simp_all add: c2_def)
    have names: "snames c2 = snames c' @ [n]" by (simp add: snames_def c2)
    have ok': "stops_ok c2" using ok False by (simp add: stops_ok_def names c2(1))
    have deq: "\<forall>i \<in> set deq. i < length (snames c')" using p by (simp add: add_inv_def snames_def)
    have "foldl (\<lambda>m s. note_visit (snames c2 ! s) name m) (buses_in_stop c) deq =
        foldl (\<lambda>m s. note_visit (snames c' ! s) name m) (buses_in_stop c) deq"
      unfolding names using deq by (intro foldl_cong_set) (simp add: nth_append)
    moreover have "map (\<lambda>i. snames c' ! i) deq = done" using p by (simp add: add_inv_def)
    then have "map (\<lambda>i. snames c2 ! i) deq = done"
      unfolding names using deq by (auto simp: nth_append)
    moreover obtain ext where "all_stops c' = all_stops c @ ext" "set (map stop_name ext) \<subseteq> set seen"
      using p by (auto simp: add_inv_def)
    then have "\<exists>ext. all_stops c2 = all_stops c @ ext \<and> set (map stop_name ext) \<subseteq> set (seen @ [n])"
      by (intro exI [where x = "ext @ [?s]"]) (auto simp: c2)
    moreover have "\<forall>i \<in> set deq. i < length (all_stops c2)" using deq by (auto simp: snames_def c2)
    ultimately have p': "add_inv c name is_loop (seen @ [n]) done (c2, deq)"
      using p ok' by (simp add: add_inv_def c2(3-6))
    have "map_of (stops_by_name c2) n = Some (length (all_stops c'))"
      by (simp add: map_of_um_put snames_def c2)
    from add_bus_stop_known [OF p' this]
    have "\<exists>q. bindR (map_at (map_of (stops_by_name c2)) n) (\<lambda>i.
      bindR (vec_idx (all_stops c2) i) (\<lambda>s. bindR (get_bus c2 name) (\<lambda>b.
        Inr (c2\<lparr>buses_in_stop := note_visit (stop_name s) (bus_name b) (buses_in_stop c2)\<rparr>, deq @ [i])))) = Inr q \<and>
      add_inv c name is_loop (seen @ [n]) (done @ [n]) q" by (simp add: c2(2))
    moreover have "add_stop n \<lparr>lat = 0, lng = 0\<rparr> c' = Inr c2"
      unfolding c2_def by (rule add_stop_new [OF ok False])
    ultimately show ?thesis using False ok by (simp add: add_bus_stop_def)
  qed
qed

theorem add_bus_ok:
  assumes c: "cat_ok c"
  shows "\<exists>c' deq ext. add_bus name stops is_loop c = Inr c' \<and> cat_ok c' \<and>
    all_stops c' = all_stops c @ ext \<and> set (map stop_name ext) \<subseteq> set stops \<and>
    all_buses c' = all_buses c @ [\<lparr>bus_name = name, bus_stops = deq, is_loop_trip = is_loop\<rparr>] \<and>
    map (\<lambda>i. snames c' ! i) deq = stops \<and> length_between_stops c' = length_between_stops c"
proof -
  let ?b = "\<lparr>bus_name = name, bus_stops = [], is_loop_trip = is_loop\<rparr>"
  let ?c = "c\<lparr>buses_by_name := um_put name (length (all_buses c)) (buses_by_name c),
    all_buses := all_buses c @ [?b]\<rparr>"
  have start: "add_inv c name is_loop [] [] (?c, [])"
    using c by (simp add: add_inv_def cat_ok_def stops_ok_def snames_def)
  obtain c1 deq where fold: "foldR (add_bus_stop name) (?c, []) stops = Inr (c1, deq)"
      and inv: "add_inv c name is_loop stops stops (c1, deq)"
    using foldR_prefix [of "\<lambda>done. add_inv c name is_loop done done", OF start] add_bus_stop_step
    by (metis surj_pair)
  let ?b' = "\<lparr>bus_name = name, bus_stops = deq, is_loop_trip = is_loop\<rparr>"
  let ?c' = "c1\<lparr>all_buses := all_buses c @ [?b']\<rparr>"
  have "add_bus name stops is_loop c = Inr ?c'"
    using fold inv by (simp add: add_bus_def add_inv_def map_of_um_put)
  moreover obtain ext where ext: "all_stops c1 = all_stops c @ ext" "set (map stop_name ext) \<subseteq> set stops"
    using inv by (auto simp: add_inv_def)
  moreover have "cat_ok ?c'"
  proof -
    have names: "snames ?c' = snames c @ map stop_name ext" using ext by (simp add: snames_def)
    have idx: "\<forall>b \<in> set (all_buses c). \<forall>s \<in> set (bus_stops b). s < length (snames c)"
      using c by (simp add: cat_ok_def snames_def)
    have n1: "snames c1 = snames c @ map stop_name ext" using ext by (simp add: snames_def)
    have "buses_in_stop ?c' = visits (snames ?c') (all_buses ?c')"
      using inv c visits_prefix [OF idx, of "map stop_name ext"]
      by (simp add: add_inv_def cat_ok_def visits_snoc visit_bus_def names n1)
    moreover have "buses_by_name ?c' = by_name (bnames ?c')"
      using inv c by (simp add: add_inv_def cat_ok_def bnames_def)
    moreover have "stops_ok ?c'" using inv by (simp add: add_inv_def stops_ok_def snames_def)
    moreover have "\<forall>b \<in> set (all_buses ?c'). \<forall>s \<in> set (bus_stops b). s < length (all_stops ?c')"
      using inv c ext by (fastforce simp: add_inv_def cat_ok_def)
    moreover have "um_ok (length_between_stops ?c')" using inv c by (simp add: add_inv_def cat_ok_def)
    moreover have "\<forall>((a, b), l) \<in> set (length_between_stops ?c').
        a < length (all_stops ?c') \<and> b < length (all_stops ?c')"
      using inv c ext by (fastforce simp: add_inv_def cat_ok_def)
    ultimately show ?thesis by (simp add: cat_ok_def)
  qed
  moreover have "map (\<lambda>i. snames ?c' ! i) deq = stops" "length_between_stops ?c' = length_between_stops c"
    using inv by (simp_all add: add_inv_def snames_def)
  ultimately show ?thesis by auto
qed

section \<open>AddLenghtBetweenStops\<close>

theorem add_length_ok:
  assumes c: "cat_ok c" and first: "first_stop \<in> set (snames c)"
  shows "\<exists>c' a b. add_length first_stop second_stop len c = Inr c' \<and> cat_ok c' \<and>
    all_buses c' = all_buses c \<and>
    all_stops c' = (if second_stop \<in> set (snames c) then all_stops c
      else all_stops c @ [\<lparr>stop_name = second_stop, stop_coordinates = \<lparr>lat = 0, lng = 0\<rparr>\<rparr>]) \<and>
    map_of (stops_by_name c') first_stop = Some a \<and> map_of (stops_by_name c') second_stop = Some b \<and>
    length_between_stops c' = um_emplace (a, b) len (length_between_stops c)"
proof -
  have ok: "stops_ok c" using c by (simp add: cat_ok_def)
  obtain a where a: "map_of (stops_by_name c) first_stop = Some a" "a < length (all_stops c)"
      "stop_name (all_stops c ! a) = first_stop" by (rule stop_lookup_in [OF ok first])
  let ?new = "c\<lparr>stops_by_name := by_name (snames c @ [second_stop]),
    all_stops := all_stops c @ [\<lparr>stop_name = second_stop, stop_coordinates = \<lparr>lat = 0, lng = 0\<rparr>\<rparr>]\<rparr>"
  define c1 where "c1 = (if second_stop \<in> set (snames c) then c else ?new)"
  have step: "(if stop_availability c second_stop then Inr c
      else add_stop second_stop \<lparr>lat = 0, lng = 0\<rparr> c) = Inr c1"
    using ok add_stop_new [OF ok, of second_stop] by (simp add: c1_def)
  have c1: "cat_ok c1" using c cat_ok_extend [OF c, of second_stop] by (simp add: c1_def)
  then have ok1: "stops_ok c1" by (simp add: cat_ok_def)
  have "second_stop \<in> set (snames c1)" by (simp add: c1_def snames_def)
  then obtain b where b: "map_of (stops_by_name c1) second_stop = Some b" "b < length (all_stops c1)"
      "stop_name (all_stops c1 ! b) = second_stop" by (rule stop_lookup_in [OF ok1])
  have a1: "map_of (stops_by_name c1) first_stop = Some a" "a < length (all_stops c1)"
    using stop_lookup [OF ok1, of a] a by (auto simp: c1_def nth_append split: if_splits)
  let ?c' = "c1\<lparr>length_between_stops := um_emplace (a, b) len (length_between_stops c1)\<rparr>"
  have sub: "set (um_emplace k l m) \<subseteq> insert (k, l) (set m)" for k and l :: "32 word" and m :: "(nat \<times> nat, 32 word) umap"
    by (induction k l m rule: um_emplace.induct) auto
  have "add_length first_stop second_stop len c = Inr ?c'"
    using a step b by (simp add: add_length_def)
  moreover have "cat_ok ?c'"
    using c1 a1 b sub [of "(a, b)" len "length_between_stops c1"]
    by (fastforce simp: cat_ok_def stops_ok_def snames_def bnames_def um_ok_emplace)
  ultimately show ?thesis using a1 b
    by (intro exI [where x = ?c'] exI [where x = a] exI [where x = b]) (simp add: c1_def)
qed

lemma add_length_unknown:
  "stops_ok c \<Longrightarrow> first_stop \<notin> set (snames c) \<Longrightarrow> add_length first_stop second_stop len c = Inl Out_of_range"
  by (simp add: add_length_def stops_ok_def)

end
