(* ===== verification/Catalogue_Queries.thy ===== *)
theory Catalogue_Queries
  imports Catalogue_Correct
begin

text \<open>
  What the catalogue's queries return in a state that satisfies \<open>cat_ok\<close>: the sorted names of
  the buses at a stop, the counts and lengths of a bus, and the distance between two stops.
\<close>

lemma sort_distinct: "distinct l \<Longrightarrow> sort l = sorted_list_of_set (set l)"
  by (metis distinct_remdups_id sorted_list_of_set_sort_remdups)

lemma get_info_stop_sorted:
  assumes c: "cat_ok c" and i: "i < length (all_stops c)"
  shows "get_info_stop c (stop_name (all_stops c ! i)) = \<lparr>si_exists = True,
    si_buses = sorted_list_of_set {bus_name b | b. b \<in> set (all_buses c) \<and> i \<in> set (bus_stops b)}\<rparr>"
proof -
  let ?n = "stop_name (all_stops c ! i)" and ?v = "visits (snames c) (all_buses c)"
  have ok: "stops_ok c" and v: "buses_in_stop c = ?v" using c by (simp_all add: cat_ok_def)
  have dist: "distinct (snames c)" using ok by (simp add: stops_ok_def)
  have n: "?n = snames c ! i" "?n \<in> set (snames c)" "i < length (snames c)"
    using i by (simp_all add: snames_def)
  have "?n \<in> (\<lambda>s. snames c ! s) ` set (bus_stops b) \<longleftrightarrow> i \<in> set (bus_stops b)" if "b \<in> set (all_buses c)" for b
  proof -
    have "\<forall>s \<in> set (bus_stops b). s < length (snames c)" using c that by (simp add: cat_ok_def snames_def)
    then show ?thesis using n dist by (auto simp: nth_eq_iff_index_eq image_iff)
  qed
  then have set: "set (visited ?v ?n) = {bus_name b | b. b \<in> set (all_buses c) \<and> i \<in> set (bus_stops b)}"
    unfolding visited_visits by auto
  have "sort (visited ?v ?n) = sorted_list_of_set (set (visited ?v ?n))"
    by (rule sort_distinct) (rule distinct_visited)
  then have sorted: "sort (visited ?v ?n) =
      sorted_list_of_set {bus_name b | b. b \<in> set (all_buses c) \<and> i \<in> set (bus_stops b)}"
    by (simp only: set)
  show ?thesis
  proof (cases "map_of ?v ?n")
    case None
    then have "visited ?v ?n = []" by (simp add: visited_def)
    then show ?thesis using None ok n sorted v by (simp add: get_info_stop_def)
  next
    case (Some l)
    then have "visited ?v ?n = l" by (simp add: visited_def)
    then show ?thesis using Some ok n sorted v by (simp add: get_info_stop_def)
  qed
qed

section \<open>Lengths\<close>

lemma foldl_add: "foldl (+) i xs = i + sum_list (xs :: 'a::comm_monoid_add list)"
  by (induction xs arbitrary: i) (simp_all add: add.assoc)

lemma unat_sum_list:
  "sum_list (map unat ws) < 2 ^ 31 \<Longrightarrow> unat (sum_list ws) = sum_list (map unat (ws :: 32 word list))"
proof (induction ws)
  case Nil
  then show ?case by simp
next
  case (Cons w ws)
  then have "unat w + unat (sum_list ws) < 2 ^ LENGTH(32)" by simp
  then show ?case using Cons by (simp add: unat_add_lem [THEN iffD1])
qed

lemma sint_small: "unat (w :: 32 word) < 2 ^ 31 \<Longrightarrow> sint w = int (unat w)"
proof -
  assume lt: "unat w < 2 ^ 31"
  have "uint w = int (unat w)" by simp
  also have "\<dots> < int (2 ^ 31)" using lt unfolding of_nat_less_iff .
  finally have "uint w < 2 ^ 31" by simp
  moreover have "- (2 ^ 31) \<le> uint w" by (rule order_trans [OF _ uint_ge_0]) simp
  ultimately have "signed_take_bit 31 (uint w) = uint w" by (intro signed_take_bit_int_eq_self)
  then show ?thesis by (simp add: sint_uint)
qed

lemma length_there_and_back: "ss \<noteq> [] \<Longrightarrow> length (there_and_back ss) = 2 * length ss - 1"
  by (cases ss) (simp_all add: there_and_back_def)

text \<open>The length of one leg, from \<open>b\<close> to \<open>a\<close>, in either direction.\<close>

definition leg :: "catalogue \<Rightarrow> nat \<times> nat \<Rightarrow> nat option" where
  "leg c p = (case map_of (length_between_stops c) (snd p, fst p) of
     Some l \<Rightarrow> Some (unat l)
   | None \<Rightarrow> map_option unat (map_of (length_between_stops c) p))"

lemma leg_length_eq: "leg c p = Some l \<Longrightarrow> \<exists>w. leg_length c p = Inr w \<and> unat w = l"
  by (cases p) (auto simp: leg_def leg_length_def split: option.splits)

definition travelled :: "bus \<Rightarrow> nat list" where
  "travelled b = (if is_loop_trip b then bus_stops b else there_and_back (bus_stops b))"

lemma summation_length_exact:
  assumes "bus_stops b \<noteq> []" and known: "\<forall>p \<in> set (adjacent (travelled b)). leg c p \<noteq> None"
    and total: "(\<Sum>p \<leftarrow> adjacent (travelled b). the (leg c p)) < 2 ^ 31"
  shows "summation_length c b = Inr (double_of_int (int (\<Sum>p \<leftarrow> adjacent (travelled b). the (leg c p))))"
proof -
  define w where "w p = (SOME w. leg_length c p = Inr w \<and> unat w = the (leg c p))" for p
  have w: "leg_length c p = Inr (w p) \<and> unat (w p) = the (leg c p)" if "p \<in> set (adjacent (travelled b))" for p
  proof -
    have "leg c p \<noteq> None" using known that by blast
    then obtain l where "leg c p = Some l" by auto
    then have "\<exists>w. leg_length c p = Inr w \<and> unat w = the (leg c p)" using leg_length_eq [of c p l] by simp
    then show ?thesis unfolding w_def by (rule someI_ex)
  qed
  let ?ws = "map w (adjacent (travelled b))"
  have "mapR (leg_length c) (adjacent (travelled b)) = Inr ?ws" using w by (intro mapR_pure) blast
  moreover have u: "map unat ?ws = map (\<lambda>p. the (leg c p)) (adjacent (travelled b))" using w by simp
  have "unat (sum_list ?ws) = (\<Sum>p \<leftarrow> adjacent (travelled b). the (leg c p))"
    using unat_sum_list [of ?ws] total unfolding u by simp
  moreover from this have "sint (sum_list ?ws) = int (\<Sum>p \<leftarrow> adjacent (travelled b). the (leg c p))"
    using total sint_small [of "sum_list ?ws"] by simp
  ultimately show ?thesis
    using assms(1) by (simp add: summation_length_def travelled_def foldl_add Let_def)
qed

lemma summation_line_total:
  assumes "bus_stops b \<noteq> []" and "\<forall>s \<in> set (bus_stops b). s < length (all_stops c)"
  shows "\<exists>d. summation_line_length m c b = Inr d"
proof -
  have "leg_distance m c p = Inr (compute_distance m (stop_coordinates (all_stops c ! fst p))
      (stop_coordinates (all_stops c ! snd p)))" if "p \<in> set (adjacent (bus_stops b))" for p
  proof -
    have "fst p \<in> set (bus_stops b)" "snd p \<in> set (bus_stops b)"
      using that list.set_sel(2) [OF assms(1)] unfolding adjacent_def
      by (metis prod.collapse set_zip_leftD, metis prod.collapse set_zip_rightD)
    then show ?thesis using assms(2) by (cases p) (simp add: leg_distance_def)
  qed
  then have "mapR (leg_distance m c) (adjacent (bus_stops b)) = Inr (map (\<lambda>p.
      compute_distance m (stop_coordinates (all_stops c ! fst p)) (stop_coordinates (all_stops c ! snd p)))
      (adjacent (bus_stops b)))"
    by (rule mapR_pure)
  then show ?thesis using assms(1) by (simp add: summation_line_length_def Let_def)
qed

lemma get_info_bus_exact:
  assumes c: "cat_ok c" and i: "map_of (buses_by_name c) n = Some i" and b: "b = all_buses c ! i"
    and "bus_stops b \<noteq> []" and known: "\<forall>p \<in> set (adjacent (travelled b)). leg c p \<noteq> None"
    and total: "(\<Sum>p \<leftarrow> adjacent (travelled b). the (leg c p)) < 2 ^ 31"
  shows "\<exists>r line. get_info_bus m c n = Inr r \<and> bi_exists r \<and>
    summation_line_length m c b = Inr line \<and> curvature r = route_length r / line \<and>
    route_length r = double_of_int (int (\<Sum>p \<leftarrow> adjacent (travelled b). the (leg c p))) \<and>
    quantity_stop r = word_of_nat (length (travelled b)) \<and>
    unique_stops r = word_of_nat (card (set (bus_stops b)))"
proof -
  have "i < length (all_buses c)"
    using c i map_of_by_name [of "bnames c" n i] by (simp add: cat_ok_def bnames_def)
  then have get: "get_bus c n = Inr b" "bus_availability c n" "b \<in> set (all_buses c)"
    using i b by (simp_all add: get_bus_def bus_availability_def)
  then obtain line where line: "summation_line_length m c b = Inr line"
    using summation_line_total [of b c m] c assms(4) by (auto simp: cat_ok_def)
  have q: "word_of_int (if is_loop_trip b then int (length (bus_stops b))
      else int (length (bus_stops b)) * 2 - 1) = (word_of_nat (length (travelled b)) :: 32 word)"
    using assms(4) length_there_and_back [OF assms(4)]
    by (cases "bus_stops b") (simp_all add: travelled_def)
  show ?thesis
    using get line summation_length_exact [OF assms(4) known total] q
    by (simp add: get_info_bus_def Let_def)
qed

section \<open>Distances between stops\<close>

lemma get_length_added:
  assumes c: "cat_ok c" and first: "first_stop \<in> set (snames c)"
    and add: "add_length first_stop second_stop len c = Inr c'"
    and fresh: "\<forall>a b. map_of (stops_by_name c) first_stop = Some a \<longrightarrow>
      map_of (stops_by_name c) second_stop = Some b \<longrightarrow>
      map_of (length_between_stops c) (a, b) = None"
  shows "get_length c' first_stop second_stop = Inr len"
proof -
  obtain a b where ab: "cat_ok c'"
      "all_stops c' = (if second_stop \<in> set (snames c) then all_stops c
      else all_stops c @ [\<lparr>stop_name = second_stop, stop_coordinates = \<lparr>lat = 0, lng = 0\<rparr>\<rparr>])"
      "map_of (stops_by_name c') first_stop = Some a" "map_of (stops_by_name c') second_stop = Some b"
      "length_between_stops c' = um_emplace (a, b) len (length_between_stops c)"
    using add_length_ok [OF c first, of second_stop len] add by auto
  have "map_of (length_between_stops c) (a, b) = None"
  proof (cases "second_stop \<in> set (snames c)")
    case True
    then have "stops_by_name c' = stops_by_name c"
      using ab c by (simp add: cat_ok_def stops_ok_def snames_def)
    then show ?thesis using fresh ab by simp
  next
    case False
    then have "stops_by_name c' = by_name (snames c @ [second_stop])"
      using ab by (simp add: cat_ok_def stops_ok_def snames_def)
    then have "b = length (all_stops c)" using ab(4) by (simp add: map_of_um_put snames_def)
    then show ?thesis using c by (auto simp: cat_ok_def map_of_eq_None_iff)
  qed
  then show ?thesis using ab by (simp add: get_length_def map_of_um_emplace)
qed

text \<open>The way back has the same length unless it was given its own.\<close>

lemma get_length_back:
  assumes "cat_ok c" and "get_length c a b = Inr l" and "a \<noteq> b"
    and none: "\<forall>i j. map_of (stops_by_name c) a = Some i \<longrightarrow> map_of (stops_by_name c) b = Some j \<longrightarrow>
      map_of (length_between_stops c) (j, i) = None"
  shows "get_length c b a = Inr l"
proof -
  obtain i j where "map_of (stops_by_name c) a = Some i" "map_of (stops_by_name c) b = Some j"
    using assms(2) by (auto simp: get_length_def bindR_eq_Inr map_at_eq_Inr)
  then show ?thesis using assms by (auto simp: get_length_def split: option.splits)
qed

end
