(* ===== verification/Catalogue_Proto.thy ===== *)
theory Catalogue_Proto
  imports Catalogue_Queries
begin

text \<open>
  The catalogue's serialisation, \<^verbatim>\<open>transport_catalogue.cpp\<close> lines 144-211, with the messages of
  \<^verbatim>\<open>transport_catalogue.proto\<close> as records of their fields (the wire format belongs to protobuf).
  \<open>iter\<close> gives the order in which the code's unordered map of lengths is traversed; loading a
  saved catalogue gives back the catalogue, its lengths in that order.
\<close>

record proto_coordinates =
  pc_lat :: double
  pc_lng :: double

record proto_stop =
  ps_name :: string
  ps_coordinates :: proto_coordinates

record proto_distance =
  pd_from :: "32 word"
  pd_to :: "32 word"
  pd_lenght :: "32 word"

record proto_bus =
  pb_is_loop :: bool
  pb_name :: string
  pb_stops :: "32 word list"

record proto_catalogue =
  pt_stops :: "proto_stop list"
  pt_buses :: "proto_bus list"
  pt_lenght_between_stops :: "proto_distance list"

section \<open>Saving\<close>

definition save_stop :: "stop \<Rightarrow> proto_stop" where
  "save_stop s = \<lparr>ps_name = stop_name s,
     ps_coordinates = \<lparr>pc_lat = lat (stop_coordinates s), pc_lng = lng (stop_coordinates s)\<rparr>\<rparr>"

definition stop_id :: "catalogue \<Rightarrow> (string, nat) smap \<Rightarrow> nat \<Rightarrow> 32 word result" where
  "stop_id c stops p =
     bindR (vec_idx (all_stops c) p) (\<lambda>s. bindR (map_at (map_of stops) (stop_name s)) (\<lambda>i. Inr (word_of_nat i)))"

definition save_bus :: "catalogue \<Rightarrow> (string, nat) smap \<Rightarrow> bus \<Rightarrow> proto_bus result" where
  "save_bus c stops b =
     bindR (mapR (stop_id c stops) (bus_stops b)) (\<lambda>ids.
       Inr \<lparr>pb_is_loop = is_loop_trip b, pb_name = bus_name b, pb_stops = ids\<rparr>)"

definition save_length :: "catalogue \<Rightarrow> (string, nat) smap \<Rightarrow> (nat \<times> nat) \<times> 32 word \<Rightarrow> proto_distance result" where
  "save_length c stops e =
     (let ((a, b), len) = e in
      bindR (stop_id c stops a) (\<lambda>f. bindR (stop_id c stops b) (\<lambda>t.
        Inr \<lparr>pd_from = f, pd_to = t, pd_lenght = len\<rparr>)))"

definition proto_stop_ids :: "catalogue \<Rightarrow> (string, nat) smap" where
  "proto_stop_ids c = foldl (\<lambda>m i. sm_put (stop_name (all_stops c ! i)) i m) [] [0..<length (all_stops c)]"

definition save_catalogue :: "((nat \<times> nat, 32 word) umap \<Rightarrow> ((nat \<times> nat) \<times> 32 word) list) \<Rightarrow>
    catalogue \<Rightarrow> proto_catalogue result" where
  "save_catalogue iter c =
     (let proto_stops = proto_stop_ids c in
      bindR (mapR (save_bus c proto_stops) (all_buses c)) (\<lambda>buses.
      bindR (mapR (save_length c proto_stops) (iter (length_between_stops c))) (\<lambda>lengths.
        Inr \<lparr>pt_stops = map save_stop (all_stops c), pt_buses = buses,
             pt_lenght_between_stops = lengths\<rparr>)))"

section \<open>Loading\<close>

definition load_stop :: "catalogue \<Rightarrow> proto_stop \<Rightarrow> catalogue result" where
  "load_stop c p = add_stop (ps_name p)
     \<lparr>lat = pc_lat (ps_coordinates p), lng = pc_lng (ps_coordinates p)\<rparr> c"

definition proto_name :: "proto_catalogue \<Rightarrow> 32 word \<Rightarrow> string result" where
  "proto_name p i = bindR (vec_idx (pt_stops p) (unat i)) (\<lambda>s. Inr (ps_name s))"

definition load_bus :: "proto_catalogue \<Rightarrow> catalogue \<Rightarrow> proto_bus \<Rightarrow> catalogue result" where
  "load_bus p c b =
     bindR (mapR (proto_name p) (pb_stops b)) (\<lambda>stops. add_bus (pb_name b) stops (pb_is_loop b) c)"

definition load_length :: "proto_catalogue \<Rightarrow> catalogue \<Rightarrow> proto_distance \<Rightarrow> catalogue result" where
  "load_length p c d =
     bindR (proto_name p (pd_from d)) (\<lambda>f. bindR (proto_name p (pd_to d)) (\<lambda>t.
       add_length f t (pd_lenght d) c))"

definition deserialize_catalogue :: "proto_catalogue \<Rightarrow> catalogue result" where
  "deserialize_catalogue p =
     bindR (foldR load_stop catalogue_new (pt_stops p)) (\<lambda>c.
     bindR (foldR (load_bus p) c (pt_buses p)) (\<lambda>c.
       foldR (load_length p) c (pt_lenght_between_stops p)))"

section \<open>The round trip\<close>

lemma proto_stop_ids_lookup:
  assumes "stops_ok c" and "i < length (all_stops c)"
  shows "map_of (proto_stop_ids c) (stop_name (all_stops c ! i)) = Some i"
proof -
  let ?f = "\<lambda>m i. sm_put (stop_name (all_stops c ! i)) i m"
  have inj: "stop_name (all_stops c ! i) \<noteq> stop_name (all_stops c ! j)"
    if "i < length (all_stops c)" "j < length (all_stops c)" "i \<noteq> j" for i j
    using assms(1) that by (simp add: stops_ok_def snames_def distinct_conv_nth)
  have "k \<le> length (all_stops c) \<Longrightarrow> sm_ok (foldl ?f [] [0..<k]) \<and>
      (\<forall>i < k. map_of (foldl ?f [] [0..<k]) (stop_name (all_stops c ! i)) = Some i)" for k
    by (induction k) (auto simp: sm_ok_put map_of_sm_put less_Suc_eq inj)
  then show ?thesis using assms(2) by (simp add: proto_stop_ids_def)
qed

lemma stop_id_eq:
  "stops_ok c \<Longrightarrow> i < length (all_stops c) \<Longrightarrow> stop_id c (proto_stop_ids c) i = Inr (word_of_nat i)"
  by (simp add: stop_id_def proto_stop_ids_lookup)

definition saved_bus :: "bus \<Rightarrow> proto_bus" where
  "saved_bus b = \<lparr>pb_is_loop = is_loop_trip b, pb_name = bus_name b, pb_stops = map word_of_nat (bus_stops b)\<rparr>"

definition saved_length :: "(nat \<times> nat) \<times> 32 word \<Rightarrow> proto_distance" where
  "saved_length e = \<lparr>pd_from = word_of_nat (fst (fst e)), pd_to = word_of_nat (snd (fst e)), pd_lenght = snd e\<rparr>"

definition saved :: "((nat \<times> nat, 32 word) umap \<Rightarrow> ((nat \<times> nat) \<times> 32 word) list) \<Rightarrow> catalogue \<Rightarrow> proto_catalogue" where
  "saved iter c = \<lparr>pt_stops = map save_stop (all_stops c), pt_buses = map saved_bus (all_buses c),
     pt_lenght_between_stops = map saved_length (iter (length_between_stops c))\<rparr>"

lemma save_catalogue_eq:
  assumes c: "cat_ok c" and iter: "mset (iter (length_between_stops c)) = mset (length_between_stops c)"
  shows "save_catalogue iter c = Inr (saved iter c)"
proof -
  have ok: "stops_ok c" using c by (simp add: cat_ok_def)
  have set: "set (iter (length_between_stops c)) = set (length_between_stops c)"
    using iter by (metis set_mset_mset)
  have "save_bus c (proto_stop_ids c) b = Inr (saved_bus b)" if "b \<in> set (all_buses c)" for b
  proof -
    have "mapR (stop_id c (proto_stop_ids c)) (bus_stops b) = Inr (map word_of_nat (bus_stops b))"
      using c that by (intro mapR_pure stop_id_eq [OF ok]) (auto simp: cat_ok_def)
    then show ?thesis by (simp add: save_bus_def saved_bus_def)
  qed
  then have "mapR (save_bus c (proto_stop_ids c)) (all_buses c) = Inr (map saved_bus (all_buses c))"
    by (rule mapR_pure)
  moreover have "save_length c (proto_stop_ids c) e = Inr (saved_length e)"
    if "e \<in> set (iter (length_between_stops c))" for e
    using c that stop_id_eq [OF ok] unfolding set
    by (cases e) (fastforce simp: save_length_def saved_length_def cat_ok_def)
  then have "mapR (save_length c (proto_stop_ids c)) (iter (length_between_stops c)) =
      Inr (map saved_length (iter (length_between_stops c)))"
    by (rule mapR_pure)
  ultimately show ?thesis by (simp add: save_catalogue_def saved_def Let_def)
qed

lemma coord_eta: "\<lparr>lat = lat x, lng = lng x\<rparr> = x"
  by simp

lemma stop_eta: "\<lparr>stop_name = stop_name s, stop_coordinates = stop_coordinates s\<rparr> = s"
  by simp

lemma unat_word32: "i < 2 ^ 31 \<Longrightarrow> unat (word_of_nat i :: 32 word) = i"
  by (simp add: unat_of_nat take_bit_nat_eq_self)

lemma load_stops:
  assumes c: "cat_ok c"
  shows "\<exists>c'. foldR load_stop catalogue_new (map save_stop (all_stops c)) = Inr c' \<and>
    cat_ok c' \<and> all_stops c' = all_stops c \<and> all_buses c' = [] \<and> length_between_stops c' = []"
  unfolding foldR_map
proof (rule foldR_prefix)
  show "cat_ok catalogue_new \<and> all_stops catalogue_new = [] \<and> all_buses catalogue_new = [] \<and>
      length_between_stops catalogue_new = []"
    using cat_ok_new by (simp only: catalogue_new_def catalogue.simps simp_thms)
  fix ys s zs c'
  assume s: "all_stops c = ys @ s # zs"
    and c': "cat_ok c' \<and> all_stops c' = ys \<and> all_buses c' = [] \<and> length_between_stops c' = []"
  have "distinct (snames c)" using c by (simp add: cat_ok_def stops_ok_def)
  then have "stop_name s \<notin> set (snames c')" using s c' by (auto simp: snames_def)
  then show "\<exists>c''. load_stop c' (save_stop s) = Inr c'' \<and>
      (cat_ok c'' \<and> all_stops c'' = ys @ [s] \<and> all_buses c'' = [] \<and> length_between_stops c'' = [])"
    using add_stop_ok [of c' "stop_name s" "stop_coordinates s"] c'
    unfolding load_stop_def save_stop_def by (auto simp: coord_eta stop_eta)
qed

lemma proto_name_saved:
  "i < length (all_stops c) \<Longrightarrow> length (all_stops c) < 2 ^ 31 \<Longrightarrow>
     proto_name (saved iter c) (word_of_nat i) = Inr (snames c ! i)"
  by (simp add: proto_name_def saved_def save_stop_def snames_def unat_word32)

lemma nth_snames_inj:
  assumes "stops_ok c" and "\<forall>i \<in> set xs. i < length (all_stops c)" and "\<forall>i \<in> set ys. i < length (all_stops c)"
    and "map (\<lambda>i. snames c ! i) xs = map (\<lambda>i. snames c ! i) ys"
  shows "xs = ys"
proof (rule map_inj_on [OF assms(4)])
  show "inj_on (\<lambda>i. snames c ! i) (set xs \<union> set ys)"
    using assms by (auto simp: inj_on_def stops_ok_def snames_def nth_eq_iff_index_eq
        simp del: nth_map)
qed

lemma load_buses:
  assumes c: "cat_ok c" and n: "length (all_stops c) < 2 ^ 31"
    and c0: "cat_ok c0" "all_stops c0 = all_stops c" "all_buses c0 = []" "length_between_stops c0 = []"
  shows "\<exists>c'. foldR (load_bus (saved iter c)) c0 (map saved_bus (all_buses c)) = Inr c' \<and>
    cat_ok c' \<and> all_stops c' = all_stops c \<and> all_buses c' = all_buses c \<and> length_between_stops c' = []"
  unfolding foldR_map
proof (rule foldR_prefix)
  show "cat_ok c0 \<and> all_stops c0 = all_stops c \<and> all_buses c0 = [] \<and> length_between_stops c0 = []"
    using c0 by simp
  fix ys b zs c'
  assume s: "all_buses c = ys @ b # zs"
    and c': "cat_ok c' \<and> all_stops c' = all_stops c \<and> all_buses c' = ys \<and> length_between_stops c' = []"
  have idx: "\<forall>i \<in> set (bus_stops b). i < length (all_stops c)" using c s by (simp add: cat_ok_def)
  let ?names = "map (\<lambda>i. snames c ! i) (bus_stops b)"
  have "mapR (proto_name (saved iter c)) (map word_of_nat (bus_stops b)) = Inr ?names"
  proof -
    have "list_all2 (\<lambda>w s. proto_name (saved iter c) w = Inr s) (map word_of_nat (bus_stops b)) ?names"
      using idx proto_name_saved n by (auto simp: list_all2_map1 list_all2_map2 list_all2_same)
    then show ?thesis by (simp add: mapR_Inr_iff)
  qed
  then have load: "load_bus (saved iter c) c' (saved_bus b) = add_bus (bus_name b) ?names (is_loop_trip b) c'"
    by (simp add: load_bus_def saved_bus_def)
  obtain c'' deq ext where r: "add_bus (bus_name b) ?names (is_loop_trip b) c' = Inr c''" "cat_ok c''"
      "all_stops c'' = all_stops c' @ ext" "set (map stop_name ext) \<subseteq> set ?names"
      "all_buses c'' = all_buses c' @ [\<lparr>bus_name = bus_name b, bus_stops = deq, is_loop_trip = is_loop_trip b\<rparr>]"
      "map (\<lambda>i. snames c'' ! i) deq = ?names" "length_between_stops c'' = length_between_stops c'"
    using add_bus_ok [of c' "bus_name b" ?names "is_loop_trip b"] c' by blast
  have "set ?names \<subseteq> set (snames c')" using idx c' by (auto simp: snames_def)
  moreover have "distinct (snames c'')" using r(2) by (simp add: cat_ok_def stops_ok_def)
  ultimately have "ext = []" using r(3,4) by (cases ext) (auto simp: snames_def)
  then have stops: "all_stops c'' = all_stops c" "snames c'' = snames c" using r(3) c' by (simp_all add: snames_def)
  have "deq = bus_stops b"
  proof (rule nth_snames_inj)
    show "stops_ok c" using c by (simp add: cat_ok_def)
    show "\<forall>i \<in> set deq. i < length (all_stops c)" using r(2,5) stops by (simp add: cat_ok_def)
  qed (use idx r(6) stops in auto)
  then have "all_buses c'' = ys @ [b]" using r(5) c' by simp
  then show "\<exists>c''. load_bus (saved iter c) c' (saved_bus b) = Inr c'' \<and> (cat_ok c'' \<and>
      all_stops c'' = all_stops c \<and> all_buses c'' = ys @ [b] \<and> length_between_stops c'' = [])"
    using load r stops c' by auto
qed

lemma load_lengths:
  assumes c: "cat_ok c" and n: "length (all_stops c) < 2 ^ 31"
    and iter: "mset (iter (length_between_stops c)) = mset (length_between_stops c)"
    and c0: "cat_ok c0" "all_stops c0 = all_stops c" "all_buses c0 = all_buses c" "length_between_stops c0 = []"
  shows "\<exists>c'. foldR (load_length (saved iter c)) c0 (map saved_length (iter (length_between_stops c))) = Inr c' \<and>
    cat_ok c' \<and> all_stops c' = all_stops c \<and> all_buses c' = all_buses c \<and>
    length_between_stops c' = iter (length_between_stops c)"
  unfolding foldR_map
proof (rule foldR_prefix)
  show "cat_ok c0 \<and> all_stops c0 = all_stops c \<and> all_buses c0 = all_buses c \<and> length_between_stops c0 = []"
    using c0 by simp
  fix ys e zs c'
  assume s: "iter (length_between_stops c) = ys @ e # zs"
    and c': "cat_ok c' \<and> all_stops c' = all_stops c \<and> all_buses c' = all_buses c \<and> length_between_stops c' = ys"
  obtain a b l where e: "e = ((a, b), l)" by (metis surj_pair)
  have set: "set (iter (length_between_stops c)) = set (length_between_stops c)"
    using iter by (metis set_mset_mset)
  then have "e \<in> set (length_between_stops c)" using s by (metis in_set_conv_decomp)
  then have ab: "a < length (all_stops c)" "b < length (all_stops c)"
    using c e by (auto simp: cat_ok_def)
  have fresh: "(a, b) \<notin> fst ` set ys"
  proof -
    have "um_ok (iter (length_between_stops c))" using um_ok_reorder [OF _ iter] c by (simp add: cat_ok_def)
    then show ?thesis using s e by (auto simp: um_ok_def)
  qed
  have sn: "snames c' = snames c" and ok: "stops_ok c'" using c' by (simp_all add: snames_def cat_ok_def)
  have in_names: "snames c ! a \<in> set (snames c')" "snames c ! b \<in> set (snames c')"
    using ab by (simp_all add: snames_def c')
  have load: "load_length (saved iter c) c' (saved_length e) = add_length (snames c ! a) (snames c ! b) l c'"
    using ab n by (simp add: load_length_def saved_length_def proto_name_saved e)
  have "map_of (stops_by_name c') (snames c ! a) = Some a" "map_of (stops_by_name c') (snames c ! b) = Some b"
    using stop_lookup [OF ok, of a] stop_lookup [OF ok, of b] ab c' by (simp_all add: snames_def)
  moreover obtain c'' i j where r: "add_length (snames c ! a) (snames c ! b) l c' = Inr c''" "cat_ok c''"
      "all_buses c'' = all_buses c'" "all_stops c'' = all_stops c'"
      "map_of (stops_by_name c'') (snames c ! a) = Some i" "map_of (stops_by_name c'') (snames c ! b) = Some j"
      "length_between_stops c'' = um_emplace (i, j) l (length_between_stops c')"
    using add_length_ok [OF _ in_names(1), of "snames c ! b" l] in_names(2) c' by auto
  moreover have "stops_by_name c'' = stops_by_name c'"
    using r(2,4) c' by (simp add: cat_ok_def stops_ok_def snames_def)
  ultimately have "length_between_stops c'' = um_emplace (a, b) l (length_between_stops c')" by simp
  with r show "\<exists>c''. load_length (saved iter c) c' (saved_length e) = Inr c'' \<and> (cat_ok c'' \<and>
      all_stops c'' = all_stops c \<and> all_buses c'' = all_buses c \<and> length_between_stops c'' = ys @ [e])"
    using load c' um_emplace_last [OF fresh] e by auto
qed

lemma deserialize_saved:
  assumes c: "cat_ok c" and n: "length (all_stops c) < 2 ^ 31"
    and iter: "mset (iter (length_between_stops c)) = mset (length_between_stops c)"
  shows "bindR (save_catalogue iter c) deserialize_catalogue =
    Inr (c\<lparr>length_between_stops := iter (length_between_stops c)\<rparr>)"
proof -
  let ?c = "c\<lparr>length_between_stops := iter (length_between_stops c)\<rparr>"
  obtain c1 where c1: "foldR load_stop catalogue_new (map save_stop (all_stops c)) = Inr c1"
      "cat_ok c1" "all_stops c1 = all_stops c" "all_buses c1 = []" "length_between_stops c1 = []"
    using load_stops [OF c] by blast
  obtain c2 where c2: "foldR (load_bus (saved iter c)) c1 (map saved_bus (all_buses c)) = Inr c2"
      "cat_ok c2" "all_stops c2 = all_stops c" "all_buses c2 = all_buses c" "length_between_stops c2 = []"
    using load_buses [OF c n c1(2-5)] by blast
  obtain c3 where c3: "foldR (load_length (saved iter c)) c2
      (map saved_length (iter (length_between_stops c))) = Inr c3"
      "cat_ok c3" "all_stops c3 = all_stops c" "all_buses c3 = all_buses c"
      "length_between_stops c3 = iter (length_between_stops c)"
    using load_lengths [where iter = iter, OF c n iter c2(2-5)] by blast
  have "set (iter (length_between_stops c)) = set (length_between_stops c)"
    using iter by (metis set_mset_mset)
  then have "cat_ok ?c"
    using c um_ok_reorder [OF _ iter] by (simp add: cat_ok_def stops_ok_def snames_def bnames_def)
  then have "c3 = ?c" using c3 by (intro cat_ok_eqI) simp_all
  then show ?thesis
    using save_catalogue_eq [where iter = iter, OF c iter] c1(1) c2(1) c3(1)
    by (simp add: deserialize_catalogue_def) (simp add: saved_def)
qed

end
