(* ===== verification/Catalogue_Props.thy ===== *)
theory Catalogue_Props
  imports Catalogue_Proto
begin

text \<open>
  The properties of the transport catalogue, on every state its operations can build, and a
  small catalogue on which they are applied.
\<close>

definition demo_catalogue :: catalogue where
  "demo_catalogue = \<lparr>buses_by_name = [(''7'', 0)], stops_by_name = [(''A'', 0), (''B'', 1)],
     buses_in_stop = [(''A'', [''7'']), (''B'', [''7''])],
     length_between_stops = [((0, 1), 1000)],
     all_buses = [\<lparr>bus_name = ''7'', bus_stops = [0, 1], is_loop_trip = False\<rparr>],
     all_stops = [\<lparr>stop_name = ''A'', stop_coordinates = \<lparr>lat = 1, lng = 1\<rparr>\<rparr>,
                  \<lparr>stop_name = ''B'', stop_coordinates = \<lparr>lat = 1, lng = 0\<rparr>\<rparr>]\<rparr>"

lemma demo_ok: "cat_ok demo_catalogue"
  by (simp add: cat_ok_def stops_ok_def snames_def bnames_def by_name_def visits_def visit_bus_def
      note_visit_def demo_catalogue_def um_ok_def)

lemma demo_names: "snames demo_catalogue = [''A'', ''B'']"
  by (simp add: snames_def demo_catalogue_def)

text \<open>
  C20: \<^verbatim>\<open>AddStop\<close> keeps the catalogue consistent. A new name is appended; a known stop gets the new
  coordinates only where it still has none (both zero), and all else stays.
\<close>

theorem add_stop_correct:
  assumes "cat_ok c"
  shows "\<exists>c'. add_stop n loc c = Inr c' \<and> cat_ok c' \<and> all_buses c' = all_buses c \<and>
    length_between_stops c' = length_between_stops c \<and>
    all_stops c' = (if n \<in> set (snames c)
      then map (\<lambda>s. if stop_name s = n \<and> zero_coord (stop_coordinates s)
                    then \<lparr>stop_name = n, stop_coordinates = loc\<rparr> else s) (all_stops c)
      else all_stops c @ [\<lparr>stop_name = n, stop_coordinates = loc\<rparr>])"
  by (rule add_stop_ok [OF assms])

lemma add_stop_correct_witness:
  "\<exists>c'. add_stop ''C'' \<lparr>lat = 1, lng = 1\<rparr> demo_catalogue = Inr c' \<and> snames c' = [''A'', ''B'', ''C'']"
  using add_stop_correct [OF demo_ok, of "''C''" "\<lparr>lat = 1, lng = 1\<rparr>"]
  by (auto simp: snames_def demo_catalogue_def)

text \<open>
  C19: \<^verbatim>\<open>AddBus\<close> always succeeds: it appends one bus whose stops are, in order, those named, adds
  the stops it did not know and no others, and leaves every index consistent; so each of its
  stops lists the bus.
\<close>

theorem add_bus_correct:
  assumes "cat_ok c"
  shows "\<exists>c' deq ext. add_bus name stops is_loop c = Inr c' \<and> cat_ok c' \<and>
    all_stops c' = all_stops c @ ext \<and> set (map stop_name ext) \<subseteq> set stops \<and>
    all_buses c' = all_buses c @ [\<lparr>bus_name = name, bus_stops = deq, is_loop_trip = is_loop\<rparr>] \<and>
    map (\<lambda>i. snames c' ! i) deq = stops \<and> length_between_stops c' = length_between_stops c"
  by (rule add_bus_ok [OF assms])

lemma add_bus_correct_witness:
  "\<exists>c' deq. add_bus ''8'' [''B'', ''D''] True demo_catalogue = Inr c' \<and> cat_ok c' \<and>
     map (\<lambda>i. snames c' ! i) deq = [''B'', ''D'']"
  using add_bus_correct [OF demo_ok, of "''8''" "[''B'', ''D'']" True]
  by (elim exE conjE) (intro exI conjI)

text \<open>
  C21: \<^verbatim>\<open>AddLenghtBetweenStops\<close> on a known first stop succeeds, adds the second stop where it is
  new, keeps the catalogue consistent and records the length unless the pair already has one;
  on an unknown first stop it throws \<^verbatim>\<open>std::out_of_range\<close>.
\<close>

theorem add_length_correct:
  assumes "cat_ok c"
  shows "if first_stop \<in> set (snames c)
    then \<exists>c' a b. add_length first_stop second_stop len c = Inr c' \<and> cat_ok c' \<and>
      all_buses c' = all_buses c \<and> set (snames c') = insert second_stop (set (snames c)) \<and>
      map_of (stops_by_name c') first_stop = Some a \<and> map_of (stops_by_name c') second_stop = Some b \<and>
      map_of (length_between_stops c') = (case map_of (length_between_stops c) (a, b) of
        None \<Rightarrow> (map_of (length_between_stops c))((a, b) \<mapsto> len)
      | Some _ \<Rightarrow> map_of (length_between_stops c))
    else add_length first_stop second_stop len c = Inl Out_of_range"
proof (cases "first_stop \<in> set (snames c)")
  case True
  obtain c' a b where r: "add_length first_stop second_stop len c = Inr c'" "cat_ok c'"
      "all_buses c' = all_buses c"
      "all_stops c' = (if second_stop \<in> set (snames c) then all_stops c
        else all_stops c @ [\<lparr>stop_name = second_stop, stop_coordinates = \<lparr>lat = 0, lng = 0\<rparr>\<rparr>])"
      "map_of (stops_by_name c') first_stop = Some a" "map_of (stops_by_name c') second_stop = Some b"
      "length_between_stops c' = um_emplace (a, b) len (length_between_stops c)"
    using add_length_ok [OF assms True, of second_stop len] by blast
  have "set (snames c') = insert second_stop (set (snames c))"
    using r(4) by (auto simp: snames_def split: if_splits)
  then show ?thesis using r True by (auto simp: map_of_um_emplace)
next
  case False
  then show ?thesis using add_length_unknown assms by (simp add: cat_ok_def)
qed

lemma add_length_correct_witness:
  "add_length ''Z'' ''A'' 5 demo_catalogue = Inl Out_of_range"
  using add_length_correct [OF demo_ok, of "''Z''" "''A''" 5] by (simp add: demo_names)

text \<open>
  C22: \<^verbatim>\<open>GetInfoStop\<close> returns, sorted and without repetition, the names of exactly those buses whose
  route contains the stop.
\<close>

theorem get_info_stop_correct:
  assumes "cat_ok c" and "i < length (all_stops c)"
  shows "get_info_stop c (stop_name (all_stops c ! i)) = \<lparr>si_exists = True,
    si_buses = sorted_list_of_set {bus_name b | b. b \<in> set (all_buses c) \<and> i \<in> set (bus_stops b)}\<rparr>"
  by (rule get_info_stop_sorted [OF assms])

lemma get_info_stop_correct_witness:
  "si_buses (get_info_stop demo_catalogue ''B'') = [''7'']"
proof -
  have "{bus_name b | b. b \<in> set (all_buses demo_catalogue) \<and> 1 \<in> set (bus_stops b)} = {''7''}"
    by (auto simp: demo_catalogue_def)
  moreover have "stop_name (all_stops demo_catalogue ! 1) = ''B''" "1 < length (all_stops demo_catalogue)"
    by (simp_all add: demo_catalogue_def)
  ultimately show ?thesis using get_info_stop_correct [OF demo_ok, of 1] by simp
qed

text \<open>
  C14: \<^verbatim>\<open>GetInfoBus\<close> counts the stops of the whole trip (there and back unless it is a loop) and the
  distinct ones, and the route length is the exact sum of the road lengths of all legs, each in
  its direction of travel where that is recorded; as long as the sum fits \<^verbatim>\<open>int\<close>. The curvature is
  that length over the geographic one.
\<close>

theorem get_info_bus_correct:
  assumes "cat_ok c" and "map_of (buses_by_name c) n = Some i" and "b = all_buses c ! i"
    and "bus_stops b \<noteq> []" and "\<forall>p \<in> set (adjacent (travelled b)). leg c p \<noteq> None"
    and "(\<Sum>p \<leftarrow> adjacent (travelled b). the (leg c p)) < 2 ^ 31"
  shows "\<exists>r line. get_info_bus m c n = Inr r \<and> bi_exists r \<and>
    summation_line_length m c b = Inr line \<and> curvature r = route_length r / line \<and>
    route_length r = double_of_int (int (\<Sum>p \<leftarrow> adjacent (travelled b). the (leg c p))) \<and>
    quantity_stop r = word_of_nat (length (travelled b)) \<and>
    unique_stops r = word_of_nat (card (set (bus_stops b)))"
  by (rule get_info_bus_exact [OF assms])

definition demo_libm :: libm where
  "demo_libm = \<lparr>libm_sin = (\<lambda>x. x), libm_cos = (\<lambda>x. 1), libm_acos = (\<lambda>x. x), libm_reduce = foldl (+) 0\<rparr>"

lemma get_info_bus_correct_witness:
  "\<exists>r. get_info_bus demo_libm demo_catalogue ''7'' = Inr r \<and> route_length r = double_of_int 2000 \<and> quantity_stop r = 3"
proof -
  let ?b = "all_buses demo_catalogue ! 0"
  have t: "adjacent (travelled ?b) = [(1, 0), (0, 1)]"
    by (simp add: demo_catalogue_def travelled_def there_and_back_def adjacent_def)
  have l: "leg demo_catalogue (1, 0) = Some 1000" "leg demo_catalogue (0, 1) = Some 1000"
    by (simp_all add: leg_def demo_catalogue_def)
  have "map_of (buses_by_name demo_catalogue) ''7'' = Some 0" "bus_stops ?b \<noteq> []" "length (travelled ?b) = 3"
    by (simp_all add: demo_catalogue_def travelled_def there_and_back_def)
  then show ?thesis using get_info_bus_correct [OF demo_ok _ refl, of "''7''" 0 demo_libm] t l by auto
qed

text \<open>
  A length just recorded for a pair of stops is what \<^verbatim>\<open>GetLenghtBetweenStops\<close> returns for it.
\<close>

theorem get_length_after_add:
  assumes "cat_ok c" and "first_stop \<in> set (snames c)"
    and "add_length first_stop second_stop len c = Inr c'"
    and "\<forall>a b. map_of (stops_by_name c) first_stop = Some a \<longrightarrow>
      map_of (stops_by_name c) second_stop = Some b \<longrightarrow> map_of (length_between_stops c) (a, b) = None"
  shows "get_length c' first_stop second_stop = Inr len"
  by (rule get_length_added [OF assms])

lemma get_length_after_add_witness:
  "\<exists>c'. add_length ''B'' ''A'' 900 demo_catalogue = Inr c' \<and> get_length c' ''B'' ''A'' = Inr 900"
proof -
  have "''B'' \<in> set (snames demo_catalogue)" by (simp add: demo_names)
  moreover from this obtain c' where c': "add_length ''B'' ''A'' 900 demo_catalogue = Inr c'"
    using add_length_ok [OF demo_ok, of "''B''" "''A''" 900] by blast
  ultimately show ?thesis using get_length_after_add [OF demo_ok _ c'] by (simp add: demo_catalogue_def)
qed

text \<open>
  C10: Saving a catalogue and loading the message gives the same catalogue back, whatever the order
  in which the unordered map of lengths was traversed; only that map then is in that order.
\<close>

theorem catalogue_round_trip:
  assumes "cat_ok c" and "length (all_stops c) < 2 ^ 31"
    and "mset (iter (length_between_stops c)) = mset (length_between_stops c)"
  shows "bindR (save_catalogue iter c) deserialize_catalogue =
    Inr (c\<lparr>length_between_stops := iter (length_between_stops c)\<rparr>)"
  by (rule deserialize_saved [where iter = iter, OF assms])

lemma catalogue_round_trip_witness:
  "bindR (save_catalogue rev demo_catalogue) deserialize_catalogue = Inr demo_catalogue"
proof -
  have "length (all_stops demo_catalogue) < 2 ^ 31"
    "demo_catalogue\<lparr>length_between_stops := rev (length_between_stops demo_catalogue)\<rparr> = demo_catalogue"
    by (simp_all add: demo_catalogue_def)
  then show ?thesis using catalogue_round_trip [OF demo_ok, of rev] by simp
qed

end
