(* ===== verification/Transport_Router.thy ===== *)
theory Transport_Router
  imports Catalogue Router
begin

text \<open>
  \<^verbatim>\<open>transport_router.h\<close> and \<^verbatim>\<open>transport_router.cpp\<close> up to line 89: the graph built from the
  catalogue and the query. Every stop has two vertices: a passenger arrives at \<open>in\<close>, waits along
  the edge to \<open>out\<close>, and rides from there. The catalogue \<open>db_\<close> is held by reference and not
  changed, so it is an argument. The serialisation is in \<^verbatim>\<open>Router_Proto\<close>.
\<close>

record component_trip =
  ct_name :: string
  ct_weight :: double
  span_count :: "32 word option"

record trip_info =
  trip_items :: "component_trip list"
  total_time :: double

record routing_settings =
  bus_wait_time :: "16 word"
  bus_velocity :: "16 word"

record vertex_id =
  v_in :: nat
  v_out :: nat

record transport_router =
  tr_settings :: routing_settings
  total_vertex :: nat
  graph_of_stops :: "double graph"
  router_data :: "double routes_internal_data"
  stop_vertexs :: "(string, vertex_id) umap"
  info_about_edge :: "(nat, component_trip) umap"

section \<open>RouteInfo\<close>

definition trip_info_new :: trip_info where
  "trip_info_new = \<lparr>trip_items = [], total_time = 0\<rparr>"

definition add_ride_item :: "string \<Rightarrow> 32 word \<Rightarrow> double \<Rightarrow> trip_info \<Rightarrow> trip_info" where
  "add_ride_item bus_n cnt ride_time ti =
     ti\<lparr>trip_items := trip_items ti @ [\<lparr>ct_name = bus_n, ct_weight = ride_time, span_count = Some cnt\<rparr>]\<rparr>"

definition add_wait_item :: "string \<Rightarrow> double \<Rightarrow> trip_info \<Rightarrow> trip_info" where
  "add_wait_item stop_n time_wait ti =
     ti\<lparr>trip_items := trip_items ti @ [\<lparr>ct_name = stop_n, ct_weight = time_wait, span_count = None\<rparr>]\<rparr>"

definition addition_total_time :: "double \<Rightarrow> trip_info \<Rightarrow> trip_info" where
  "addition_total_time time ti = ti\<lparr>total_time := total_time ti + time\<rparr>"

section \<open>CreateGraph\<close>

definition calculate_time :: "catalogue \<Rightarrow> routing_settings \<Rightarrow> string \<Rightarrow> string \<Rightarrow> double result" where
  "calculate_time db rs first_stop second_stop =
     bindR (get_length db first_stop second_stop) (\<lambda>len.
       Inr (double_of_int (uint len) / (double_of_int 1000 * double_of_int (uint (bus_velocity rs)))
            * double_of_int 60))"

definition wait_time :: "routing_settings \<Rightarrow> double" where
  "wait_time rs = double_of_int (uint (bus_wait_time rs))"

definition create_vertex :: "transport_router \<Rightarrow> stop \<Rightarrow> transport_router result" where
  "create_vertex r s =
     (let name = stop_name s;
          v = (case map_of (stop_vertexs r) name of Some v \<Rightarrow> v | None \<Rightarrow> \<lparr>v_in = 0, v_out = 0\<rparr>);
          v = v\<lparr>v_in := total_vertex r\<rparr>;
          v = v\<lparr>v_out := total_vertex r + 1\<rparr>;
          r = r\<lparr>total_vertex := total_vertex r + 2, stop_vertexs := um_put name v (stop_vertexs r)\<rparr>
      in bindR (map_at (map_of (stop_vertexs r)) name) (\<lambda>v.
         bindR (add_edge (graph_of_stops r)
                  \<lparr>edge_from = v_in v, edge_to = v_out v, edge_weight = wait_time (tr_settings r)\<rparr>)
           (\<lambda>(g, eid).
              Inr (r\<lparr>graph_of_stops := g, info_about_edge := um_emplace eid
                     \<lparr>ct_name = name, ct_weight = wait_time (tr_settings r), span_count = None\<rparr>
                     (info_about_edge r)\<rparr>))))"

text \<open>
  The body of the inner loop, with \<open>time_to_road\<close>, \<open>stops_count\<close> and the previous stop as state.
\<close>

definition ride_to :: "catalogue \<Rightarrow> string \<Rightarrow> nat \<Rightarrow> transport_router \<times> double \<times> 32 word \<times> nat \<Rightarrow> nat \<Rightarrow>
    (transport_router \<times> double \<times> 32 word \<times> nat) result" where
  "ride_to db bus_n first_id st to_i =
     (let (r, time_to_road, stops_count, prev) = st in
      bindR (vec_idx (all_stops db) to_i) (\<lambda>s.
      bindR (map_at (map_of (stop_vertexs r)) (stop_name s)) (\<lambda>v.
      bindR (vec_idx (all_stops db) prev) (\<lambda>p.
      bindR (calculate_time db (tr_settings r) (stop_name p) (stop_name s)) (\<lambda>t.
        let time = time_to_road + t; cnt = stops_count + 1 in
        bindR (add_edge (graph_of_stops r)
                 \<lparr>edge_from = first_id, edge_to = v_in v, edge_weight = time\<rparr>) (\<lambda>(g, eid).
          Inr (r\<lparr>graph_of_stops := g, info_about_edge := um_emplace eid
                   \<lparr>ct_name = bus_n, ct_weight = time, span_count = Some cnt\<rparr> (info_about_edge r)\<rparr>,
               time, cnt, to_i)))))))"

fun rides :: "catalogue \<Rightarrow> string \<Rightarrow> transport_router \<Rightarrow> nat list \<Rightarrow> transport_router result" where
  "rides db bus_n r [] = Inr r"
| "rides db bus_n r (from_i # rest) =
     bindR (vec_idx (all_stops db) from_i) (\<lambda>s.
     bindR (map_at (map_of (stop_vertexs r)) (stop_name s)) (\<lambda>v.
     bindR (foldR (ride_to db bus_n (v_out v)) (r, 0, 0, from_i) rest) (\<lambda>(r, _).
       rides db bus_n r rest)))"

definition create_edge :: "catalogue \<Rightarrow> transport_router \<Rightarrow> bus \<Rightarrow> transport_router result" where
  "create_edge db r b =
     bindR (rides db (bus_name b) r (bus_stops b)) (\<lambda>r.
       if is_loop_trip b then Inr r else rides db (bus_name b) r (rev (bus_stops b)))"

definition create_graph :: "catalogue \<Rightarrow> transport_router \<Rightarrow> transport_router result" where
  "create_graph db r =
     bindR (foldR create_vertex r (all_stops db)) (\<lambda>r. foldR (create_edge db) r (all_buses db))"

definition transport_router_start :: "routing_settings \<Rightarrow> catalogue \<Rightarrow> transport_router" where
  "transport_router_start rs db = \<lparr>tr_settings = rs, total_vertex = 0,
     graph_of_stops = graph_new (length (all_stops db) * 2), router_data = [],
     stop_vertexs = [], info_about_edge = []\<rparr>"

definition transport_router_new :: "routing_settings \<Rightarrow> catalogue \<Rightarrow> transport_router result" where
  "transport_router_new rs db =
     bindR (create_graph db (transport_router_start rs db)) (\<lambda>r.
     bindR (router_new (graph_of_stops r)) (\<lambda>t. Inr (r\<lparr>router_data := t\<rparr>)))"

section \<open>GetRouteInfo\<close>

definition add_item :: "transport_router \<Rightarrow> trip_info \<Rightarrow> nat \<Rightarrow> trip_info result" where
  "add_item r ti eid =
     bindR (map_at (map_of (info_about_edge r)) eid) (\<lambda>info.
       let ti = (case span_count info of
                   Some cnt \<Rightarrow> add_ride_item (ct_name info) cnt (ct_weight info) ti
                 | None \<Rightarrow> add_wait_item (ct_name info) (ct_weight info) ti)
       in Inr (addition_total_time (ct_weight info) ti))"

definition get_route_info :: "transport_router \<Rightarrow> string \<Rightarrow> string \<Rightarrow> trip_info option result" where
  "get_route_info r from_n to_n =
     (if map_of (stop_vertexs r) from_n = None then Inl (Logic_error ''there is no starting stop'')
      else
        bindR (map_at (map_of (stop_vertexs r)) from_n) (\<lambda>f.
        bindR (map_at (map_of (stop_vertexs r)) to_n) (\<lambda>t.
        bindR (build_route (graph_of_stops r) (router_data r) (v_in f) (v_in t)) (\<lambda>route_info.
          case route_info of
            None \<Rightarrow> Inr None
          | Some ri \<Rightarrow>
              bindR (foldR (add_item r) trip_info_new (ri_edges ri)) (\<lambda>ti. Inr (Some ti))))))"

end
