(* ===== verification/Travel_Time.thy ===== *)
theory Travel_Time
  imports Transport_Router Ieee_Laws
begin

text \<open>
  The weights of the transport router's graph are non-negative doubles, never a NaN, as long as
  the velocity is not zero: the condition under which the router's contract applies.
\<close>

lemma nonneg_not_nan: "nonneg_double a \<Longrightarrow> \<not> is_nan a"
  by (simp add: nonneg_double_def)

lemma nonneg_signs:
  assumes "nonneg_double a" and "nonneg_double b" and "sign_of a \<noteq> sign_of b"
  shows "mag_of a = 0 \<or> mag_of b = 0"
  using assms by (cases "sign_of a") (simp_all add: nonneg_double_def)

lemma nonneg_times:
  assumes a: "nonneg_double a" and b: "nonneg_double b"
    and inf: "is_inf a \<longrightarrow> mag_of b \<noteq> 0" "is_inf b \<longrightarrow> mag_of a \<noteq> 0"
  shows "nonneg_double (a * b)"
proof -
  note nan = nonneg_not_nan [OF a] nonneg_not_nan [OF b]
  have inf0: "inf_mag \<noteq> 0" by (simp add: inf_mag_def)
  define s where "s \<longleftrightarrow> sign_of a \<noteq> sign_of b"
  have s: "s \<longrightarrow> mag_of a = 0 \<or> mag_of b = 0" using nonneg_signs [OF a b] by (simp add: s_def)
  show ?thesis
  proof (cases "is_inf a \<or> is_inf b")
    case True
    then have "a * b = pack s inf_mag"
      using nan inf by (auto simp: times_double_def Let_def s_def)
    moreover have "\<not> s" using True s inf inf0 by (auto simp: is_inf_def)
    ultimately show ?thesis by (simp add: nonneg_pack)
  next
    case False
    then have "a * b = pack s (round_mag (mant (mag_of a) * mant (mag_of b)) 1
        (int (expo (mag_of a)) + int (expo (mag_of b)) - 2148))"
      using nan by (simp add: times_double_def Let_def s_def)
    moreover have "s \<longrightarrow> round_mag (mant (mag_of a) * mant (mag_of b)) 1
        (int (expo (mag_of a)) + int (expo (mag_of b)) - 2148) = 0"
      using s by (auto simp: round_mag_def)
    ultimately show ?thesis using nonneg_pack [OF round_mag_le_inf] by simp
  qed
qed

lemma nonneg_divide:
  fixes a b :: double
  assumes a: "nonneg_double a" and b: "nonneg_double b" and zero: "mag_of b \<noteq> 0" and inf: "\<not> is_inf a"
  shows "nonneg_double (a / b)"
proof -
  note nan = nonneg_not_nan [OF a] nonneg_not_nan [OF b]
  define s where "s \<longleftrightarrow> sign_of a \<noteq> sign_of b"
  have s: "s \<longrightarrow> mag_of a = 0" using nonneg_signs [OF a b] zero by (simp add: s_def)
  show ?thesis
  proof (cases "is_inf b")
    case True
    then have "a / b = pack s 0" using nan inf by (simp add: divide_double_def Let_def s_def)
    then show ?thesis by (simp add: nonneg_pack)
  next
    case False
    then have "a / b = pack s (round_mag (mant (mag_of a)) (mant (mag_of b))
        (int (expo (mag_of a)) - int (expo (mag_of b))))"
      using nan inf zero by (simp add: divide_double_def Let_def s_def)
    moreover have "s \<longrightarrow> round_mag (mant (mag_of a)) (mant (mag_of b))
        (int (expo (mag_of a)) - int (expo (mag_of b))) = 0"
      using s by (auto simp: round_mag_def)
    ultimately show ?thesis using nonneg_pack [OF round_mag_le_inf] by simp
  qed
qed

text \<open>A positive integer below \<open>2 ^ 53\<close> is a double between \<open>1\<close> and infinity.\<close>

lemma mval_inf_mag: "2 ^ 53 < mval inf_mag"
  by (simp add: mval_def inf_mag_def mant_def expo_def)

lemma mval_of_int:
  assumes "0 \<le> i" and "i < 2 ^ 53"
  shows "mval (mag_of (double_of_int i)) = of_int i"
proof -
  have "\<not> sign_of (double_of_int i)"
    using assms round_mag_less by (simp add: double_of_int_def)
  then show ?thesis using double_of_int_exact [of i] assms by (simp add: dval_def)
qed

lemma of_int_finite:
  assumes "0 \<le> i" and "i < 2 ^ 53"
  shows "\<not> is_inf (double_of_int i)"
proof
  assume "is_inf (double_of_int i)"
  then have "mval inf_mag = of_int i" using mval_of_int [OF assms] by (simp add: is_inf_def)
  moreover have "real_of_int i < 2 ^ 53" using assms(2) of_int_less_iff [where ?'a = real, of i "2 ^ 53"] by simp
  ultimately show False using mval_inf_mag by simp
qed

lemma of_int_pos:
  assumes "0 < i" and "i < 2 ^ 53"
  shows "mag_of (double_of_int i) \<noteq> 0"
  using mval_of_int [of i] assms by (cases "mag_of (double_of_int i) = 0") auto

lemma of_int_plain:
  assumes "0 < i" and "i < 2 ^ 53"
  shows "\<not> is_nan (double_of_int i) \<and> \<not> is_inf (double_of_int i) \<and> mag_of (double_of_int i) \<noteq> 0 \<and>
    \<not> sign_of (double_of_int i)"
proof -
  have n: "nonneg_double (double_of_int i)" using assms by (intro nonneg_of_int) simp
  have p: "mag_of (double_of_int i) \<noteq> 0" by (rule of_int_pos [OF assms])
  have "\<not> is_inf (double_of_int i)" using assms by (intro of_int_finite) simp_all
  with n p show ?thesis unfolding nonneg_double_def by simp
qed

lemma times_of_int_pos:
  assumes i: "0 < i" "i < 2 ^ 53" and j: "0 < j" "j < 2 ^ 53"
  shows "mag_of (double_of_int i * double_of_int j) \<noteq> 0"
proof -
  let ?a = "double_of_int i" and ?b = "double_of_int j"
  define p e where "p = mant (mag_of ?a) * mant (mag_of ?b)"
    and "e = int (expo (mag_of ?a)) + int (expo (mag_of ?b)) - 2148"
  have fin: "\<not> is_inf ?a" "\<not> is_inf ?b" and nan: "\<not> is_nan ?a" "\<not> is_nan ?b"
    using of_int_finite i j nonneg_not_nan [OF nonneg_of_int] by simp_all
  have "?a * ?b = pack (sign_of ?a \<noteq> sign_of ?b) (round_mag p 1 e)"
    using fin nan by (simp add: times_double_def Let_def p_def e_def)
  then have m: "mag_of (?a * ?b) = round_mag p 1 e" using round_mag_less by simp
  have "real p * 2 powi e = mval (mag_of ?a) * mval (mag_of ?b)"
    by (simp add: p_def e_def mval_powi mult.assoc mult.left_commute flip: powi2_add)
  also have "\<dots> = real_of_int i * real_of_int j" using i j by (simp add: mval_of_int)
  finally have "round_mag p 1 e = rnd (real_of_int (i * j))" using round_mag_rnd [of 1 p e] by simp
  moreover have "1 \<le> i * j" using i(1) j(1) by (metis int_one_le_iff_zero_less zero_less_mult_iff)
  then have "rnd 1 \<le> rnd (real_of_int (i * j))" by (intro rnd_mono) linarith
  moreover have "rnd 1 = mag_of (double_of_int 1)"
    using rnd_mval [of "mag_of (double_of_int 1)"] mval_of_int [of 1] nonneg_mag_le [OF nonneg_of_int, of 1] by simp
  ultimately show ?thesis using m of_int_pos [of 1] by simp
qed

section \<open>Travel times\<close>

definition stop_n :: "catalogue \<Rightarrow> nat \<Rightarrow> string" where
  "stop_n db i = stop_name (all_stops db ! i)"

definition road :: "catalogue \<Rightarrow> nat \<times> nat \<Rightarrow> 32 word" where
  "road db p = (case get_length db (stop_n db (fst p)) (stop_n db (snd p)) of Inr l \<Rightarrow> l | Inl _ \<Rightarrow> 0)"

definition leg_time :: "catalogue \<Rightarrow> routing_settings \<Rightarrow> nat \<Rightarrow> nat \<Rightarrow> double" where
  "leg_time db rs i j = double_of_int (uint (road db (i, j)))
     / (double_of_int 1000 * double_of_int (uint (bus_velocity rs))) * double_of_int 60"

lemma nonneg_leg_time:
  assumes "bus_velocity rs \<noteq> 0"
  shows "nonneg_double (leg_time db rs i j)"
proof -
  let ?l = "uint (road db (i, j))" and ?v = "uint (bus_velocity rs)"
  have l: "0 \<le> ?l" "?l < 2 ^ 53" using uint_bounded [of "road db (i, j)"] by simp_all
  have v: "0 < ?v" "?v < 2 ^ 53" using uint_bounded [of "bus_velocity rs"] assms
    by (simp_all add: word_neq_0_conv word_less_def)
  have "nonneg_double (double_of_int 1000 * double_of_int ?v)"
    using v by (intro nonneg_times nonneg_of_int impI of_int_pos) simp_all
  then have "nonneg_double (double_of_int ?l / (double_of_int 1000 * double_of_int ?v))"
    using l v by (intro nonneg_divide nonneg_of_int of_int_finite times_of_int_pos) simp_all
  then show ?thesis unfolding leg_time_def
    by (rule nonneg_times) (use of_int_pos [of 60] of_int_finite [of 60] in \<open>simp_all add: nonneg_of_int\<close>)
qed

lemma nonneg_wait_time: "nonneg_double (wait_time rs)"
  by (simp add: wait_time_def nonneg_of_int)

end
