(* ===== verification/Transport_Graph.thy ===== *)
theory Transport_Graph
  imports Travel_Time Catalogue_Correct
begin

text \<open>
  What \<^verbatim>\<open>CreateGraph\<close> builds: \<open>waits\<close> and \<open>bus_rides\<close> list the edges with their descriptions in
  the order they are added, one edge per stop and one per contiguous part of a run of a bus. The
  constructor succeeds and its router is determined by them (\<open>transport_router_built\<close>).
\<close>

section \<open>The edges\<close>

type_synonym item = "double edge \<times> component_trip"

definition wait_item :: "catalogue \<Rightarrow> routing_settings \<Rightarrow> nat \<Rightarrow> component_trip" where
  "wait_item db rs i = \<lparr>ct_name = stop_n db i, ct_weight = wait_time rs, span_count = None\<rparr>"

definition waits :: "catalogue \<Rightarrow> routing_settings \<Rightarrow> nat \<Rightarrow> item list" where
  "waits db rs k = map (\<lambda>i. (\<lparr>edge_from = 2 * i, edge_to = 2 * i + 1, edge_weight = wait_time rs\<rparr>,
     wait_item db rs i)) [0..<k]"

fun run_time :: "(nat \<Rightarrow> nat \<Rightarrow> double) \<Rightarrow> double \<Rightarrow> nat \<Rightarrow> nat list \<Rightarrow> double" where
  "run_time tm t p [] = t"
| "run_time tm t p (s # ss) = run_time tm (t + tm p s) s ss"

fun rides_from :: "(nat \<Rightarrow> nat \<Rightarrow> double) \<Rightarrow> string \<Rightarrow> nat \<Rightarrow> double \<Rightarrow> 32 word \<Rightarrow> nat \<Rightarrow> nat list \<Rightarrow> item list" where
  "rides_from tm bn a t k p [] = []"
| "rides_from tm bn a t k p (s # ss) =
     (\<lparr>edge_from = 2 * a + 1, edge_to = 2 * s, edge_weight = t + tm p s\<rparr>,
      \<lparr>ct_name = bn, ct_weight = t + tm p s, span_count = Some (k + 1)\<rparr>) #
     rides_from tm bn a (t + tm p s) (k + 1) s ss"

fun run_rides :: "(nat \<Rightarrow> nat \<Rightarrow> double) \<Rightarrow> string \<Rightarrow> nat list \<Rightarrow> item list" where
  "run_rides tm bn [] = []"
| "run_rides tm bn (s # ss) = rides_from tm bn s 0 0 s ss @ run_rides tm bn ss"

definition runs :: "bus \<Rightarrow> nat list list" where
  "runs b = (if is_loop_trip b then [bus_stops b] else [bus_stops b, rev (bus_stops b)])"

definition bus_rides :: "(nat \<Rightarrow> nat \<Rightarrow> double) \<Rightarrow> bus \<Rightarrow> item list" where
  "bus_rides tm b = concat (map (run_rides tm (bus_name b)) (runs b))"

definition all_items :: "catalogue \<Rightarrow> routing_settings \<Rightarrow> item list" where
  "all_items db rs = waits db rs (length (all_stops db)) @
     concat (map (bus_rides (leg_time db rs)) (all_buses db))"

definition vertices :: "catalogue \<Rightarrow> nat \<Rightarrow> (string, vertex_id) umap" where
  "vertices db k = map (\<lambda>i. (stop_n db i, \<lparr>v_in = 2 * i, v_out = 2 * i + 1\<rparr>)) [0..<k]"

text \<open>The state of the router after the edges \<open>es\<close> and the vertices of \<open>k\<close> stops.\<close>

definition built_to :: "catalogue \<Rightarrow> routing_settings \<Rightarrow> nat \<Rightarrow> item list \<Rightarrow> transport_router \<Rightarrow> bool" where
  "built_to db rs k es r \<longleftrightarrow> tr_settings r = rs \<and> total_vertex r = 2 * k \<and> stop_vertexs r = vertices db k \<and>
     edges (graph_of_stops r) = map fst es \<and> info_about_edge r = enumerate 0 (map snd es) \<and>
     graph_wf (graph_of_stops r) \<and> get_vertex_count (graph_of_stops r) = 2 * length (all_stops db) \<and>
     router_data r = []"

lemma enumerate_snoc: "enumerate n (xs @ [x]) = enumerate n xs @ [(n + length xs, x)]"
  by (simp add: enumerate_append_eq)

lemma enumerate_fresh: "length xs \<notin> fst ` set (enumerate 0 xs)"
  by (auto simp: in_set_enumerate_eq)

text \<open>Adding one edge with its description, as both \<^verbatim>\<open>CreateVertex\<close> and \<^verbatim>\<open>CreateEdge\<close> do.\<close>

lemma add_item_step:
  assumes r: "built_to db rs k es r"
    and e: "edge_from e < 2 * length (all_stops db)" "edge_to e < 2 * length (all_stops db)"
  shows "\<exists>g. add_edge (graph_of_stops r) e = Inr (g, length es) \<and>
    built_to db rs k (es @ [(e, c)]) (r\<lparr>graph_of_stops := g,
      info_about_edge := um_emplace (length es) c (info_about_edge r)\<rparr>)"
proof -
  let ?g = "graph_of_stops r"
  have g: "graph_wf ?g" "get_vertex_count ?g = 2 * length (all_stops db)" "edges ?g = map fst es"
    using r by (simp_all add: built_to_def)
  obtain g' where g': "add_edge ?g e = Inr (g', get_edge_count ?g)"
    using add_edge_Inr [of e ?g] e g by auto
  have "edges g' = edges ?g @ [e]" using add_edge_count [OF g'] by simp
  moreover have "graph_wf g' \<and> get_vertex_count g' = get_vertex_count ?g"
    using add_edge_wf [OF g(1) _ g'] e g by simp
  moreover have "um_emplace (length es) c (info_about_edge r) = enumerate 0 (map snd (es @ [(e, c)]))"
    using r um_emplace_last [of "length es" "enumerate 0 (map snd es)" c] enumerate_fresh [of "map snd es"]
    by (simp add: built_to_def enumerate_snoc)
  moreover have "get_edge_count ?g = length es" using g by (simp add: get_edge_count_def)
  ultimately show ?thesis using r g' by (auto simp: built_to_def)
qed

section \<open>Vertices\<close>

lemma vertices_Suc: "vertices db (Suc k) = vertices db k @ [(stop_n db k, \<lparr>v_in = 2 * k, v_out = 2 * k + 1\<rparr>)]"
  by (simp add: vertices_def)

lemma waits_Suc: "waits db rs (Suc k) = waits db rs k @
    [(\<lparr>edge_from = 2 * k, edge_to = 2 * k + 1, edge_weight = wait_time rs\<rparr>, wait_item db rs k)]"
  by (simp add: waits_def)

lemma stop_n_eq_iff:
  assumes "stops_ok db" and "i < length (all_stops db)" and "j < length (all_stops db)"
  shows "stop_n db i = stop_n db j \<longleftrightarrow> i = j"
  using assms by (auto simp: stops_ok_def snames_def stop_n_def distinct_conv_nth)

lemma map_of_vertices:
  assumes "stops_ok db" and "k \<le> length (all_stops db)" and "i < k"
  shows "map_of (vertices db k) (stop_n db i) = Some \<lparr>v_in = 2 * i, v_out = 2 * i + 1\<rparr>"
  using assms
proof (induction k)
  case 0
  then show ?case by simp
next
  case (Suc k)
  show ?case
  proof (cases "i = k")
    case True
    have "stop_n db k \<notin> fst ` set (vertices db k)"
      using Suc.prems by (auto simp: vertices_def stop_n_eq_iff)
    then have "map_of (vertices db k) (stop_n db k) = None" by (simp add: map_of_eq_None_iff)
    then show ?thesis using True by (simp add: vertices_Suc map_add_def)
  next
    case False
    then have "map_of (vertices db k) (stop_n db i) = Some \<lparr>v_in = 2 * i, v_out = 2 * i + 1\<rparr>"
      "stop_n db i \<noteq> stop_n db k"
      using Suc by (simp_all add: stop_n_eq_iff)
    then show ?thesis by (simp add: vertices_Suc map_add_def)
  qed
qed

lemma map_of_vertices_None:
  "n \<notin> set (snames db) \<Longrightarrow> map_of (vertices db (length (all_stops db))) n = None"
  by (auto simp: vertices_def map_of_eq_None_iff stop_n_def snames_def)

lemma create_vertex_step:
  assumes db: "stops_ok db" and k: "k < length (all_stops db)" and r: "built_to db rs k es r"
  shows "\<exists>r'. create_vertex r (all_stops db ! k) = Inr r' \<and>
    built_to db rs (Suc k) (es @ [(\<lparr>edge_from = 2 * k, edge_to = 2 * k + 1, edge_weight = wait_time rs\<rparr>,
      wait_item db rs k)]) r'"
proof -
  let ?v = "\<lparr>v_in = 2 * k, v_out = 2 * k + 1\<rparr>" and ?n = "stop_name (all_stops db ! k)"
  define r1 where "r1 = r\<lparr>total_vertex := 2 * k + 2, stop_vertexs := vertices db (Suc k)\<rparr>"
  have fresh: "stop_n db k \<notin> fst ` set (vertices db k)"
    using k by (auto simp: vertices_def stop_n_eq_iff [OF db])
  then have none: "map_of (vertices db k) (stop_n db k) = None" by (simp add: map_of_eq_None_iff)
  have r1: "built_to db rs (Suc k) es r1" using r by (simp add: built_to_def r1_def)
  have put: "um_put (stop_n db k) ?v (vertices db k) = vertices db (Suc k)"
    using um_put_last [OF fresh] by (simp add: vertices_Suc)
  have look: "map_of (vertices db (Suc k)) (stop_n db k) = Some ?v"
    using map_of_vertices [OF db, of "Suc k" k] k by simp
  obtain g where g: "add_edge (graph_of_stops r1) \<lparr>edge_from = 2 * k, edge_to = 2 * k + 1, edge_weight = wait_time rs\<rparr>
      = Inr (g, length es)" "built_to db rs (Suc k) (es @ [(\<lparr>edge_from = 2 * k, edge_to = 2 * k + 1,
        edge_weight = wait_time rs\<rparr>, wait_item db rs k)]) (r1\<lparr>graph_of_stops := g,
      info_about_edge := um_emplace (length es) (wait_item db rs k) (info_about_edge r1)\<rparr>)"
    using add_item_step [OF r1, of "\<lparr>edge_from = 2 * k, edge_to = 2 * k + 1, edge_weight = wait_time rs\<rparr>"
        "wait_item db rs k"] k by auto
  have "create_vertex r (all_stops db ! k) = Inr (r1\<lparr>graph_of_stops := g,
      info_about_edge := um_emplace (length es) (wait_item db rs k) (info_about_edge r1)\<rparr>)"
    using r g(1) put look none
    by (simp add: create_vertex_def Let_def built_to_def r1_def stop_n_def [symmetric] wait_item_def)
  then show ?thesis using g(2) by blast
qed

lemma create_vertices:
  assumes db: "stops_ok db"
  shows "\<exists>r. foldR create_vertex (transport_router_start rs db) (all_stops db) = Inr r \<and>
    built_to db rs (length (all_stops db)) (waits db rs (length (all_stops db))) r"
proof -
  have "\<exists>r. foldR create_vertex (transport_router_start rs db) (map (\<lambda>k. all_stops db ! k) [0..<length (all_stops db)])
      = Inr r \<and> built_to db rs (length (all_stops db)) (waits db rs (length (all_stops db))) r"
    unfolding foldR_map
  proof (rule foldR_upt)
    show "built_to db rs 0 (waits db rs 0) (transport_router_start rs db)"
      by (simp add: built_to_def waits_def vertices_def transport_router_start_def mult.commute)
         (simp add: graph_new_def get_vertex_count_def)
    fix k r assume "k < length (all_stops db)" "built_to db rs k (waits db rs k) r"
    then show "\<exists>r'. create_vertex r (all_stops db ! k) = Inr r' \<and> built_to db rs (Suc k) (waits db rs (Suc k)) r'"
      using create_vertex_step [OF db] by (simp only: waits_Suc)
  qed
  then show ?thesis by (simp add: map_nth)
qed

section \<open>Rides\<close>

definition known :: "catalogue \<Rightarrow> nat \<Rightarrow> nat \<Rightarrow> bool" where
  "known db i j \<longleftrightarrow> (\<exists>l. get_length db (stop_n db i) (stop_n db j) = Inr l)"

definition roads_known :: "catalogue \<Rightarrow> bool" where
  "roads_known db \<longleftrightarrow> (\<forall>b \<in> set (all_buses db). \<forall>run \<in> set (runs b). successively (known db) run)"

lemma calculate_time_known:
  "known db i j \<Longrightarrow> calculate_time db rs (stop_n db i) (stop_n db j) = Inr (leg_time db rs i j)"
  by (auto simp: known_def calculate_time_def leg_time_def road_def)

abbreviation n_stops :: "catalogue \<Rightarrow> nat" where
  "n_stops db \<equiv> length (all_stops db)"

lemma snames_index:
  assumes "n \<in> set (snames db)"
  obtains i where "i < n_stops db" and "stop_n db i = n"
  using assms by (auto simp: snames_def in_set_conv_nth stop_n_def)

lemma ride_to_step:
  assumes db: "stops_ok db" and r: "built_to db rs (n_stops db) es r"
    and i: "a < n_stops db" "p < n_stops db" "s < n_stops db" and leg: "known db p s"
  shows "\<exists>r'. ride_to db bn (2 * a + 1) (r, t, k, p) s = Inr (r', t + leg_time db rs p s, k + 1, s) \<and>
    built_to db rs (n_stops db) (es @ [(\<lparr>edge_from = 2 * a + 1, edge_to = 2 * s,
      edge_weight = t + leg_time db rs p s\<rparr>, \<lparr>ct_name = bn, ct_weight = t + leg_time db rs p s,
      span_count = Some (k + 1)\<rparr>)]) r'"
proof -
  let ?t = "t + leg_time db rs p s"
  let ?c = "\<lparr>ct_name = bn, ct_weight = ?t, span_count = Some (k + 1)\<rparr>"
  have look: "map_of (stop_vertexs r) (stop_n db s) = Some \<lparr>v_in = 2 * s, v_out = 2 * s + 1\<rparr>"
    using map_of_vertices [OF db order_refl i(3)] r by (simp add: built_to_def)
  have rs: "tr_settings r = rs" using r by (simp add: built_to_def)
  obtain g where g: "add_edge (graph_of_stops r) \<lparr>edge_from = 2 * a + 1, edge_to = 2 * s, edge_weight = ?t\<rparr>
      = Inr (g, length es)" "built_to db rs (n_stops db) (es @ [(\<lparr>edge_from = 2 * a + 1, edge_to = 2 * s,
        edge_weight = ?t\<rparr>, ?c)]) (r\<lparr>graph_of_stops := g,
      info_about_edge := um_emplace (length es) ?c (info_about_edge r)\<rparr>)"
    using add_item_step [OF r, of "\<lparr>edge_from = 2 * a + 1, edge_to = 2 * s, edge_weight = ?t\<rparr>" ?c] i by auto
  have "ride_to db bn (2 * a + 1) (r, t, k, p) s = Inr (r\<lparr>graph_of_stops := g,
      info_about_edge := um_emplace (length es) ?c (info_about_edge r)\<rparr>, ?t, k + 1, s)"
    using look g(1) calculate_time_known [OF leg, of rs] i rs
    by (simp add: ride_to_def Let_def stop_n_def [symmetric])
  then show ?thesis using g(2) by blast
qed

lemma rides_from_step:
  assumes db: "stops_ok db" and a: "a < n_stops db"
  shows "built_to db rs (n_stops db) es r \<Longrightarrow> p < n_stops db \<Longrightarrow> \<forall>s \<in> set ss. s < n_stops db \<Longrightarrow>
    successively (known db) (p # ss) \<Longrightarrow>
    \<exists>r' t' k' p'. foldR (ride_to db bn (2 * a + 1)) (r, t, k, p) ss = Inr (r', t', k', p') \<and>
      built_to db rs (n_stops db) (es @ rides_from (leg_time db rs) bn a t k p ss) r'"
proof (induction ss arbitrary: r es t k p)
  case Nil
  then show ?case by simp
next
  case (Cons s ss)
  obtain r1 where r1: "ride_to db bn (2 * a + 1) (r, t, k, p) s = Inr (r1, t + leg_time db rs p s, k + 1, s)"
    "built_to db rs (n_stops db) (es @ [(\<lparr>edge_from = 2 * a + 1, edge_to = 2 * s,
      edge_weight = t + leg_time db rs p s\<rparr>, \<lparr>ct_name = bn, ct_weight = t + leg_time db rs p s,
      span_count = Some (k + 1)\<rparr>)]) r1"
    using ride_to_step [OF db Cons.prems(1) a, of p s bn t k] Cons.prems by auto
  from Cons.IH [OF r1(2), of s "t + leg_time db rs p s" "k + 1"] Cons.prems
  obtain r2 t2 k2 p2 where "foldR (ride_to db bn (2 * a + 1)) (r1, t + leg_time db rs p s, k + 1, s) ss =
      Inr (r2, t2, k2, p2)"
    "built_to db rs (n_stops db) (es @ rides_from (leg_time db rs) bn a t k p (s # ss)) r2"
    by auto
  then show ?case using r1(1) by auto
qed

lemma rides_run:
  assumes db: "stops_ok db"
  shows "built_to db rs (n_stops db) es r \<Longrightarrow> \<forall>s \<in> set run. s < n_stops db \<Longrightarrow>
    successively (known db) run \<Longrightarrow> \<exists>r'. rides db bn r run = Inr r' \<and>
      built_to db rs (n_stops db) (es @ run_rides (leg_time db rs) bn run) r'"
proof (induction run arbitrary: r es)
  case Nil
  then show ?case by simp
next
  case (Cons s ss)
  have look: "map_of (stop_vertexs r) (stop_name (all_stops db ! s)) = Some \<lparr>v_in = 2 * s, v_out = 2 * s + 1\<rparr>"
    using map_of_vertices [OF db order_refl, of s] Cons.prems by (simp add: built_to_def stop_n_def)
  obtain r1 t1 k1 p1 where r1: "foldR (ride_to db bn (2 * s + 1)) (r, 0, 0, s) ss = Inr (r1, t1, k1, p1)"
    "built_to db rs (n_stops db) (es @ rides_from (leg_time db rs) bn s 0 0 s ss) r1"
    using rides_from_step [OF db, of s rs es r s ss bn 0 0] Cons.prems by auto
  obtain r2 where "rides db bn r1 ss = Inr r2"
    "built_to db rs (n_stops db) ((es @ rides_from (leg_time db rs) bn s 0 0 s ss) @
      run_rides (leg_time db rs) bn ss) r2"
    using Cons.IH [OF r1(2)] Cons.prems by (cases ss) auto
  then show ?case using look r1(1) Cons.prems by simp
qed

lemma create_edge_step:
  assumes db: "cat_ok db" and b: "b \<in> set (all_buses db)"
    and leg: "\<forall>run \<in> set (runs b). successively (known db) run" and r: "built_to db rs (n_stops db) es r"
  shows "\<exists>r'. create_edge db r b = Inr r' \<and>
    built_to db rs (n_stops db) (es @ bus_rides (leg_time db rs) b) r'"
proof -
  have ok: "stops_ok db" and s: "\<forall>s \<in> set (bus_stops b). s < n_stops db"
    using db b by (auto simp: cat_ok_def)
  obtain r1 where r1: "rides db (bus_name b) r (bus_stops b) = Inr r1"
    "built_to db rs (n_stops db) (es @ run_rides (leg_time db rs) (bus_name b) (bus_stops b)) r1"
    using rides_run [OF ok r s, of "bus_name b"] leg by (auto simp: runs_def split: if_splits)
  show ?thesis
  proof (cases "is_loop_trip b")
    case True
    then show ?thesis using r1 by (simp add: create_edge_def bus_rides_def runs_def)
  next
    case False
    obtain r2 where "rides db (bus_name b) r1 (rev (bus_stops b)) = Inr r2"
      "built_to db rs (n_stops db) ((es @ run_rides (leg_time db rs) (bus_name b) (bus_stops b)) @
        run_rides (leg_time db rs) (bus_name b) (rev (bus_stops b))) r2"
      using rides_run [OF ok r1(2), of "rev (bus_stops b)" "bus_name b"] s leg False
      by (auto simp: runs_def)
    then show ?thesis using r1(1) False by (simp add: create_edge_def bus_rides_def runs_def)
  qed
qed

theorem create_graph_ok:
  assumes db: "cat_ok db" and roads: "roads_known db"
  shows "\<exists>r. create_graph db (transport_router_start rs db) = Inr r \<and>
    built_to db rs (n_stops db) (all_items db rs) r"
proof -
  have ok: "stops_ok db" using db by (simp add: cat_ok_def)
  let ?es = "\<lambda>bs. waits db rs (n_stops db) @ concat (map (bus_rides (leg_time db rs)) bs)"
  obtain r0 where r0: "foldR create_vertex (transport_router_start rs db) (all_stops db) = Inr r0"
    "built_to db rs (n_stops db) (waits db rs (n_stops db)) r0"
    using create_vertices [OF ok] by blast
  have "\<exists>r. foldR (create_edge db) r0 (all_buses db) = Inr r \<and> built_to db rs (n_stops db) (?es (all_buses db)) r"
  proof (rule foldR_prefix)
    show "built_to db rs (n_stops db) (?es []) r0" using r0(2) by simp
    fix ys b zs r
    assume "all_buses db = ys @ b # zs" "built_to db rs (n_stops db) (?es ys) r"
    then show "\<exists>r'. create_edge db r b = Inr r' \<and> built_to db rs (n_stops db) (?es (ys @ [b])) r'"
      using create_edge_step [OF db, of b rs "?es ys" r] roads by (simp add: roads_known_def)
  qed
  then show ?thesis using r0(1) by (auto simp: create_graph_def all_items_def)
qed

section \<open>A road is missing\<close>

definition no_length :: exn where
  "no_length = Logic_error ''Not found Lenght between this stops''"

lemma get_length_unknown:
  assumes db: "stops_ok db" and i: "i < n_stops db" "j < n_stops db" and no: "\<not> known db i j"
  shows "get_length db (stop_n db i) (stop_n db j) = Inl no_length"
proof -
  have "map_of (stops_by_name db) (stop_n db i) = Some i" "map_of (stops_by_name db) (stop_n db j) = Some j"
    using stop_lookup [OF db] i by (simp_all add: stop_n_def)
  then have "get_length db (stop_n db i) (stop_n db j) = (case map_of (length_between_stops db) (i, j) of
        Some l \<Rightarrow> Inr l
      | None \<Rightarrow> (case map_of (length_between_stops db) (j, i) of
          Some l \<Rightarrow> Inr l
        | None \<Rightarrow> if stop_n db i = stop_n db j then Inr 0 else Inl no_length))"
    by (simp add: get_length_def no_length_def cong: option.case_cong)
  with no show ?thesis
    by (cases "map_of (length_between_stops db) (i, j)"; cases "map_of (length_between_stops db) (j, i)")
      (simp_all add: known_def split: if_splits)
qed

lemma ride_to_fails:
  assumes db: "stops_ok db" and r: "built_to db rs (n_stops db) es r"
    and i: "p < n_stops db" "s < n_stops db" and no: "\<not> known db p s"
  shows "ride_to db bn v (r, t, k, p) s = Inl no_length"
proof -
  have "map_of (stop_vertexs r) (stop_n db s) = Some \<lparr>v_in = 2 * s, v_out = 2 * s + 1\<rparr>"
    using map_of_vertices [OF db order_refl i(2)] r by (simp add: built_to_def)
  then show ?thesis using get_length_unknown [OF db i no] i
    by (simp add: ride_to_def stop_n_def [symmetric] calculate_time_def)
qed

lemma rides_from_fails:
  assumes db: "stops_ok db" and a: "a < n_stops db"
  shows "built_to db rs (n_stops db) es r \<Longrightarrow> p < n_stops db \<Longrightarrow> \<forall>s \<in> set ss. s < n_stops db \<Longrightarrow>
    \<not> successively (known db) (p # ss) \<Longrightarrow>
    foldR (ride_to db bn (2 * a + 1)) (r, t, k, p) ss = Inl no_length"
proof (induction ss arbitrary: r es t k p)
  case Nil
  then show ?case by simp
next
  case (Cons s ss)
  show ?case
  proof (cases "known db p s")
    case False
    then show ?thesis using ride_to_fails [OF db Cons.prems(1,2) _ False] Cons.prems(3) by simp
  next
    case True
    obtain r1 where r1: "ride_to db bn (2 * a + 1) (r, t, k, p) s = Inr (r1, t + leg_time db rs p s, k + 1, s)"
      "\<exists>es. built_to db rs (n_stops db) es r1"
      using ride_to_step [OF db Cons.prems(1) a _ _ True, of bn t k] Cons.prems by auto
    then show ?thesis using Cons.IH [of _ r1 s] Cons.prems True by auto
  qed
qed

lemma rides_fails:
  assumes db: "stops_ok db" and r: "built_to db rs (n_stops db) es r"
    and run: "\<forall>s \<in> set run. s < n_stops db" "\<not> successively (known db) run"
  shows "rides db bn r run = Inl no_length"
proof (cases run)
  case Nil
  then show ?thesis using run by simp
next
  case (Cons s ss)
  have "map_of (stop_vertexs r) (stop_name (all_stops db ! s)) = Some \<lparr>v_in = 2 * s, v_out = 2 * s + 1\<rparr>"
    using map_of_vertices [OF db order_refl, of s] r run Cons by (simp add: built_to_def stop_n_def)
  then show ?thesis using rides_from_fails [OF db _ r, of s s ss bn 0 0] run Cons by simp
qed

lemma create_edge_fails:
  assumes db: "cat_ok db" and b: "b \<in> set (all_buses db)"
    and r: "built_to db rs (n_stops db) es r" and bad: "\<exists>run \<in> set (runs b). \<not> successively (known db) run"
  shows "create_edge db r b = Inl no_length"
proof -
  have ok: "stops_ok db" and s: "\<forall>s \<in> set (bus_stops b). s < n_stops db"
    using db b by (auto simp: cat_ok_def)
  show ?thesis
  proof (cases "successively (known db) (bus_stops b)")
    case False
    then show ?thesis using rides_fails [OF ok r s] by (simp add: create_edge_def)
  next
    case True
    then have back_run: "\<not> is_loop_trip b" "\<not> successively (known db) (rev (bus_stops b))"
      using bad by (auto simp: runs_def split: if_splits)
    obtain r1 where r1: "rides db (bus_name b) r (bus_stops b) = Inr r1"
      "built_to db rs (n_stops db) (es @ run_rides (leg_time db rs) (bus_name b) (bus_stops b)) r1"
      using rides_run [OF ok r s True] by blast
    then show ?thesis using rides_fails [OF ok r1(2) _ back_run(2)] s back_run(1) by (simp add: create_edge_def)
  qed
qed

theorem create_graph_fails:
  assumes db: "cat_ok db" and roads: "\<not> roads_known db"
  shows "create_graph db (transport_router_start rs db) = Inl no_length"
proof -
  have ok: "stops_ok db" using db by (simp add: cat_ok_def)
  let ?bad = "\<lambda>b. \<exists>run \<in> set (runs b). \<not> successively (known db) run"
  let ?P = "\<lambda>r. \<exists>es. built_to db rs (n_stops db) es r"
  obtain r0 where r0: "foldR create_vertex (transport_router_start rs db) (all_stops db) = Inr r0" "?P r0"
    using create_vertices [OF ok] by blast
  have "if \<exists>b \<in> set (all_buses db). ?bad b then foldR (create_edge db) r0 (all_buses db) = Inl no_length
    else \<exists>r. foldR (create_edge db) r0 (all_buses db) = Inr r \<and> ?P r"
  proof (rule foldR_fail)
    show "?P r0" by (rule r0(2))
    fix r b assume r: "?P r" and b: "b \<in> set (all_buses db)"
    then obtain es where es: "built_to db rs (n_stops db) es r" by blast
    show "if ?bad b then create_edge db r b = Inl no_length else \<exists>r'. create_edge db r b = Inr r' \<and> ?P r'"
    proof (cases "?bad b")
      case True
      then show ?thesis using create_edge_fails [OF db b es] by simp
    next
      case False
      then show ?thesis using create_edge_step [OF db b _ es] by auto
    qed
  qed
  moreover have "\<exists>b \<in> set (all_buses db). ?bad b" using roads by (simp add: roads_known_def)
  ultimately show ?thesis using r0(1) by (simp add: create_graph_def)
qed

end
