(* ===== verification/Transport_Router_Correct.thy ===== *)
theory Transport_Router_Correct
  imports Transport_Graph Router_Total
begin

text \<open>
  The contract of the transport router in terms of stops and buses. A \<open>hop\<close> rides one bus along a
  contiguous part of one of its runs; an \<open>itinerary\<close> waits and hops alternately. The paths of the
  graph between the arrival vertices of two stops are exactly the itineraries between them, so the
  router's contract becomes one about itineraries.
\<close>

section \<open>Itineraries\<close>

inductive hop :: "catalogue \<Rightarrow> routing_settings \<Rightarrow> nat \<Rightarrow> component_trip \<Rightarrow> nat \<Rightarrow> bool" for db rs where
  ride: "b \<in> set (all_buses db) \<Longrightarrow> run \<in> set (runs b) \<Longrightarrow> run = before @ i # q @ after \<Longrightarrow> q \<noteq> [] \<Longrightarrow>
    hop db rs i \<lparr>ct_name = bus_name b, ct_weight = run_time (leg_time db rs) 0 i q,
                 span_count = Some (word_of_nat (length q))\<rparr> (last q)"

inductive itinerary :: "catalogue \<Rightarrow> routing_settings \<Rightarrow> nat \<Rightarrow> component_trip list \<Rightarrow> nat \<Rightarrow> bool" for db rs where
  arrived: "itinerary db rs i [] i"
| board: "hop db rs i c j \<Longrightarrow> itinerary db rs j cs k \<Longrightarrow> itinerary db rs i (wait_item db rs i # c # cs) k"

inductive_cases hopE: "hop db rs i c j"
inductive_simps itinerary_Nil [simp]: "itinerary db rs i [] k"

section \<open>What the edges stand for\<close>

lemma set_rides_from:
  "x \<in> set (rides_from tm bn a t k p ss) \<longleftrightarrow> (\<exists>q post. q \<noteq> [] \<and> ss = q @ post \<and>
     x = (\<lparr>edge_from = 2 * a + 1, edge_to = 2 * last q, edge_weight = run_time tm t p q\<rparr>,
          \<lparr>ct_name = bn, ct_weight = run_time tm t p q, span_count = Some (k + word_of_nat (length q))\<rparr>))"
  (is "?in t k p ss \<longleftrightarrow> (\<exists>q post. q \<noteq> [] \<and> ss = q @ post \<and> x = ?item t k p q)")
proof (induction ss arbitrary: t k p)
  case Nil
  then show ?case by simp
next
  case (Cons s ss)
  have "?in t k p (s # ss) \<longleftrightarrow> x = ?item t k p [s] \<or> ?in (t + tm p s) (k + 1) s ss" by simp
  also have "\<dots> \<longleftrightarrow> x = ?item t k p [s] \<or>
      (\<exists>q post. q \<noteq> [] \<and> ss = q @ post \<and> x = ?item (t + tm p s) (k + 1) s q)"
    by (simp only: Cons.IH)
  also have "\<dots> \<longleftrightarrow> x = ?item t k p [s] \<or>
      (\<exists>q post. q \<noteq> [] \<and> ss = q @ post \<and> x = ?item t k p (s # q))"
  proof -
    have "?item (t + tm p s) (k + 1) s q = ?item t k p (s # q)" if "q \<noteq> []" for q
      using that by (simp add: add.assoc)
    then show ?thesis by (metis (no_types, lifting))
  qed
  also have "\<dots> \<longleftrightarrow> (\<exists>q post. q \<noteq> [] \<and> s # ss = q @ post \<and> x = ?item t k p q)" (is "?l \<longleftrightarrow> ?r")
  proof
    assume ?l
    then show ?r
    proof (elim disjE exE conjE)
      assume "x = ?item t k p [s]"
      then show ?r by (intro exI [of _ "[s]"] exI [of _ ss]) simp
    next
      fix q post assume "q \<noteq> []" "ss = q @ post" "x = ?item t k p (s # q)"
      then show ?r by (intro exI [of _ "s # q"] exI [of _ post]) simp
    qed
  next
    assume ?r
    then obtain q post where q: "q \<noteq> []" "s # ss = q @ post" "x = ?item t k p q" by blast
    then obtain q' where "q = s # q'" "ss = q' @ post" by (cases q) auto
    with q show ?l by (cases "q' = []") auto
  qed
  finally show ?case .
qed

lemma set_run_rides:
  "x \<in> set (run_rides tm bn run) \<longleftrightarrow> (\<exists>before i q post. run = before @ i # q @ post \<and> q \<noteq> [] \<and>
     x = (\<lparr>edge_from = 2 * i + 1, edge_to = 2 * last q, edge_weight = run_time tm 0 i q\<rparr>,
          \<lparr>ct_name = bn, ct_weight = run_time tm 0 i q, span_count = Some (word_of_nat (length q))\<rparr>))"
  (is "?in run \<longleftrightarrow> (\<exists>before i q post. run = before @ i # q @ post \<and> q \<noteq> [] \<and> x = ?item i q)")
proof (induction run)
  case Nil
  then show ?case by simp
next
  case (Cons s ss)
  have "?in (s # ss) \<longleftrightarrow> (\<exists>q post. q \<noteq> [] \<and> ss = q @ post \<and> x = ?item s q) \<or>
      (\<exists>before i q post. ss = before @ i # q @ post \<and> q \<noteq> [] \<and> x = ?item i q)"
    by (simp add: set_rides_from Cons.IH)
  also have "\<dots> \<longleftrightarrow> (\<exists>before i q post. s # ss = before @ i # q @ post \<and> q \<noteq> [] \<and> x = ?item i q)"
    (is "?l \<longleftrightarrow> ?r")
  proof
    assume ?l
    then show ?r
    proof (elim disjE exE conjE)
      fix q post assume "q \<noteq> []" "ss = q @ post" "x = ?item s q"
      then show ?r by (intro exI [of _ "[]"] exI [of _ s] exI [of _ q] exI [of _ post]) simp
    next
      fix before i q post assume "ss = before @ i # q @ post" "q \<noteq> []" "x = ?item i q"
      then show ?r by (intro exI [of _ "s # before"] exI [of _ i] exI [of _ q] exI [of _ post]) simp
    qed
  next
    assume ?r
    then obtain before i q post where r: "s # ss = before @ i # q @ post" "q \<noteq> []" "x = ?item i q" by blast
    then show ?l by (cases before) auto
  qed
  finally show ?case .
qed

lemma set_all_items:
  "(e, c) \<in> set (all_items db rs) \<longleftrightarrow>
     (\<exists>i < n_stops db. e = \<lparr>edge_from = 2 * i, edge_to = 2 * i + 1, edge_weight = wait_time rs\<rparr> \<and>
        c = wait_item db rs i) \<or>
     (\<exists>i j. hop db rs i c j \<and> e = \<lparr>edge_from = 2 * i + 1, edge_to = 2 * j, edge_weight = ct_weight c\<rparr>)"
proof -
  have "(\<exists>b \<in> set (all_buses db). (e, c) \<in> set (bus_rides (leg_time db rs) b)) \<longleftrightarrow>
      (\<exists>i j. hop db rs i c j \<and> e = \<lparr>edge_from = 2 * i + 1, edge_to = 2 * j, edge_weight = ct_weight c\<rparr>)"
    (is "?l \<longleftrightarrow> ?r")
  proof
    assume ?l
    then obtain b run before i q post where "b \<in> set (all_buses db)" "run \<in> set (runs b)"
      "run = before @ i # q @ post" "q \<noteq> []"
      "e = \<lparr>edge_from = 2 * i + 1, edge_to = 2 * last q, edge_weight = run_time (leg_time db rs) 0 i q\<rparr>"
      "c = \<lparr>ct_name = bus_name b, ct_weight = run_time (leg_time db rs) 0 i q,
        span_count = Some (word_of_nat (length q))\<rparr>"
      by (auto simp: bus_rides_def set_run_rides)
    then show ?r using hop.ride [of b db run before i q post rs] by auto
  next
    assume ?r
    then obtain i j where "hop db rs i c j"
      and e: "e = \<lparr>edge_from = 2 * i + 1, edge_to = 2 * j, edge_weight = ct_weight c\<rparr>" by blast
    then show ?l
    proof cases
      case (ride b run before q after)
      then have "(e, c) \<in> set (run_rides (leg_time db rs) (bus_name b) run)"
        unfolding set_run_rides using e by auto
      with ride show ?thesis by (auto simp: bus_rides_def)
    qed
  qed
  then show ?thesis by (auto simp: all_items_def waits_def)
qed

lemma hop_stops:
  assumes "cat_ok db" and "hop db rs i c j"
  shows "i < n_stops db" and "j < n_stops db"
proof -
  from assms(2) have "i < n_stops db \<and> j < n_stops db"
  proof cases
    case (ride b run before q after)
    have "set run = set (bus_stops b)" using ride(4) by (auto simp: runs_def split: if_splits)
    moreover have "i \<in> set run" "j \<in> set run" using ride by auto
    ultimately show ?thesis using assms(1) ride(3) by (auto simp: cat_ok_def)
  qed
  then show "i < n_stops db" "j < n_stops db" by simp_all
qed

lemma nonneg_run_time:
  "bus_velocity rs \<noteq> 0 \<Longrightarrow> nonneg_double t \<Longrightarrow> nonneg_double (run_time (leg_time db rs) t p q)"
  by (induction q arbitrary: t p) (auto intro: plus_nonneg(1) nonneg_leg_time)

lemma hop_weight: "bus_velocity rs \<noteq> 0 \<Longrightarrow> hop db rs i c j \<Longrightarrow> nonneg_double (ct_weight c)"
  by (auto elim!: hopE simp: nonneg_run_time)

lemma all_items_weights:
  "bus_velocity rs \<noteq> 0 \<Longrightarrow> edges g = map fst (all_items db rs) \<Longrightarrow> weights_ok nonneg_double g"
  by (auto simp: weights_ok_def set_all_items nonneg_wait_time hop_weight)

section \<open>Paths are itineraries\<close>

definition info_of :: "catalogue \<Rightarrow> routing_settings \<Rightarrow> nat \<Rightarrow> component_trip" where
  "info_of db rs eid = snd (all_items db rs ! eid)"

lemma edge_cases:
  assumes g: "edges g = map fst (all_items db rs)" and e: "eid < length (edges g)"
  obtains i where "edge_from (edges g ! eid) = 2 * i" and "edge_to (edges g ! eid) = 2 * i + 1"
      and "info_of db rs eid = wait_item db rs i"
  | i j where "edge_from (edges g ! eid) = 2 * i + 1" and "edge_to (edges g ! eid) = 2 * j"
      and "hop db rs i (info_of db rs eid) j"
proof -
  have "(edges g ! eid, info_of db rs eid) \<in> set (all_items db rs)"
    using e g by (simp add: info_of_def)
  then show ?thesis unfolding set_all_items using that by fastforce
qed

lemma path_itinerary:
  assumes g: "edges g = map fst (all_items db rs)"
  shows "path g (2 * i) ids (2 * j) \<Longrightarrow> itinerary db rs i (map (info_of db rs) ids) j"
proof (induction ids arbitrary: i rule: induct_list012)
  case 1
  then show ?case by simp
next
  case (2 x)
  from 2 have x: "x < length (edges g)" "edge_from (edges g ! x) = 2 * i" "edge_to (edges g ! x) = 2 * j" by auto
  from g x(1) have False by (cases rule: edge_cases) (use x in presburger)+
  then show ?case ..
next
  case (3 x y ids)
  have x: "x < length (edges g)" "edge_from (edges g ! x) = 2 * i"
    and y: "y < length (edges g)" "edge_from (edges g ! y) = edge_to (edges g ! x)"
    and rest: "path g (edge_to (edges g ! y)) ids (2 * j)" using "3.prems" by auto
  from g x(1) have wait: "edge_to (edges g ! x) = 2 * i + 1 \<and> info_of db rs x = wait_item db rs i"
  proof (cases rule: edge_cases)
    case (1 k)
    then have "k = i" using x(2) by simp
    with 1 show ?thesis by simp
  next
    case (2 k l)
    with x(2) have False by presburger
    then show ?thesis ..
  qed
  from g y(1) obtain k where "edge_to (edges g ! y) = 2 * k" "hop db rs i (info_of db rs y) k"
  proof (cases rule: edge_cases)
    case (1 l)
    with y(2) wait have False by presburger
    then show ?thesis ..
  next
    case (2 l k)
    then have "l = i" using y(2) wait by simp
    with 2 that show ?thesis by blast
  qed
  with rest "3.IH"(1) [of k] wait show ?case by (auto intro: itinerary.board)
qed

lemma edge_exists:
  assumes "edges g = map fst (all_items db rs)" and "(e, c) \<in> set (all_items db rs)"
  obtains eid where "eid < length (edges g)" and "edges g ! eid = e" and "info_of db rs eid = c"
proof -
  obtain eid where "eid < length (all_items db rs)" "all_items db rs ! eid = (e, c)"
    using assms(2) by (auto simp: in_set_conv_nth)
  then show ?thesis using that [of eid] assms(1) by (simp add: info_of_def)
qed

lemma itinerary_path:
  assumes g: "edges g = map fst (all_items db rs)" and db: "cat_ok db"
  shows "itinerary db rs i cs j \<Longrightarrow> \<exists>ids. path g (2 * i) ids (2 * j) \<and> map (info_of db rs) ids = cs"
proof (induction rule: itinerary.induct)
  case (arrived i)
  then show ?case by (intro exI [of _ "[]"]) simp
next
  case (board i c j cs k)
  then obtain ids where ids: "path g (2 * j) ids (2 * k)" "map (info_of db rs) ids = cs" by blast
  have i: "i < n_stops db" using hop_stops [OF db board(1)] by simp
  obtain x where "x < length (edges g)" "edges g ! x = \<lparr>edge_from = 2 * i, edge_to = 2 * i + 1, edge_weight = wait_time rs\<rparr>"
      "info_of db rs x = wait_item db rs i"
    using edge_exists [OF g] i set_all_items by (metis (no_types, lifting))
  moreover obtain y where "y < length (edges g)" "edges g ! y = \<lparr>edge_from = 2 * i + 1, edge_to = 2 * j, edge_weight = ct_weight c\<rparr>"
      "info_of db rs y = c"
    using edge_exists [OF g] board(1) set_all_items by (metis (no_types, lifting))
  ultimately show ?case using ids by (intro exI [of _ "x # y # ids"]) simp
qed

section \<open>GetRouteInfo\<close>

definition item_weights :: "component_trip list \<Rightarrow> double" where
  "item_weights cs = foldl (+) 0 (map ct_weight cs)"

lemma map_of_enumerate: "map_of (enumerate 0 xs) k = (if k < length xs then Some (xs ! k) else None)"
proof (induction xs rule: rev_induct)
  case Nil
  then show ?case by simp
next
  case (snoc x xs)
  have "map_of (enumerate 0 xs) (length xs) = None"
    using enumerate_fresh [of xs] by (simp add: map_of_eq_None_iff)
  then show ?case using snoc by (auto simp: enumerate_snoc map_add_def nth_append less_Suc_eq split: option.splits)
qed

lemma add_items:
  assumes info: "info_about_edge r = enumerate 0 (map snd es)"
  shows "\<forall>eid \<in> set ids. eid < length es \<Longrightarrow> foldR (add_item r) ti ids =
    Inr \<lparr>trip_items = trip_items ti @ map (\<lambda>eid. snd (es ! eid)) ids,
         total_time = foldl (+) (total_time ti) (map (\<lambda>eid. ct_weight (snd (es ! eid))) ids)\<rparr>"
proof (induction ids arbitrary: ti)
  case Nil
  then show ?case by simp
next
  case (Cons eid ids)
  let ?c = "snd (es ! eid)"
  have "add_item r ti eid = Inr \<lparr>trip_items = trip_items ti @ [?c], total_time = total_time ti + ct_weight ?c\<rparr>"
    using Cons.prems info
    by (cases ?c; cases ti) (simp add: add_item_def map_of_enumerate add_ride_item_def add_wait_item_def
        addition_total_time_def Let_def split: option.split)
  then show ?case using Cons by simp
qed

lemma path_ids: "path g u ids v \<Longrightarrow> \<forall>eid \<in> set ids. eid < length (edges g)"
  by (induction ids arbitrary: u) auto

text \<open>A built router: its graph is the one of the catalogue and its table answers the queries.\<close>

definition router_ok :: "catalogue \<Rightarrow> routing_settings \<Rightarrow> transport_router \<Rightarrow> bool" where
  "router_ok db rs r \<longleftrightarrow> built_to db rs (n_stops db) (all_items db rs) (r\<lparr>router_data := []\<rparr>) \<and>
     table_ok nonneg_double (graph_of_stops r) (router_data r) \<and> answers (graph_of_stops r) (router_data r)"

theorem transport_router_new_ok:
  assumes db: "cat_ok db" and roads: "roads_known db" and v: "bus_velocity rs \<noteq> 0"
  shows "\<exists>r. transport_router_new rs db = Inr r \<and> router_ok db rs r"
proof -
  obtain r where r: "create_graph db (transport_router_start rs db) = Inr r"
    "built_to db rs (n_stops db) (all_items db rs) r"
    using create_graph_ok [OF db roads] by blast
  then have g: "graph_wf (graph_of_stops r)" "edges (graph_of_stops r) = map fst (all_items db rs)"
    by (simp_all add: built_to_def)
  obtain t where t: "router_new (graph_of_stops r) = Inr t" "answers (graph_of_stops r) t"
      "table_ok nonneg_double (graph_of_stops r) t"
    using dbl.router_answers [OF g(1) all_items_weights [OF v g(2)]] by blast
  have "r\<lparr>router_data := t, router_data := []\<rparr> = r" using r(2) by (cases r) (simp add: built_to_def)
  then have "router_ok db rs (r\<lparr>router_data := t\<rparr>)" using r(2) t(2,3) by (simp add: router_ok_def)
  then show ?thesis using r(1) t(1) by (simp add: transport_router_new_def)
qed

lemma route_lookup:
  assumes db: "cat_ok db" and r: "router_ok db rs r" and i: "i < n_stops db"
  shows "map_of (stop_vertexs r) (stop_n db i) = Some \<lparr>v_in = 2 * i, v_out = 2 * i + 1\<rparr>"
  using map_of_vertices [OF _ order_refl i] r db by (simp add: router_ok_def built_to_def cat_ok_def)

lemma router_okD_graph:
  assumes "router_ok db rs r"
  shows "edges (graph_of_stops r) = map fst (all_items db rs)"
    and "get_vertex_count (graph_of_stops r) = 2 * n_stops db"
    and "info_about_edge r = enumerate 0 (map snd (all_items db rs))"
  using assms by (simp_all add: router_ok_def built_to_def)

text \<open>The trip a route of the graph stands for, which is what the query returns.\<close>

definition trip_of :: "catalogue \<Rightarrow> routing_settings \<Rightarrow> nat list \<Rightarrow> trip_info" where
  "trip_of db rs ids = \<lparr>trip_items = map (info_of db rs) ids, total_time = item_weights (map (info_of db rs) ids)\<rparr>"

lemma get_route_info_trip:
  assumes db: "cat_ok db" and r: "router_ok db rs r" and ij: "i < n_stops db" "j < n_stops db"
  shows "case build_route (graph_of_stops r) (router_data r) (2 * i) (2 * j) of
      Inl e \<Rightarrow> False
    | Inr None \<Rightarrow> \<not> (\<exists>ids. path (graph_of_stops r) (2 * i) ids (2 * j)) \<and>
        get_route_info r (stop_n db i) (stop_n db j) = Inr None
    | Inr (Some ri) \<Rightarrow> path (graph_of_stops r) (2 * i) (ri_edges ri) (2 * j) \<and>
        get_route_info r (stop_n db i) (stop_n db j) = Inr (Some (trip_of db rs (ri_edges ri)))"
proof -
  let ?g = "graph_of_stops r" and ?es = "all_items db rs"
  note g = router_okD_graph [OF r]
  have ans: "case build_route ?g (router_data r) (2 * i) (2 * j) of
       Inl e \<Rightarrow> False | Inr None \<Rightarrow> \<not> (\<exists>ids. path ?g (2 * i) ids (2 * j))
     | Inr (Some ri) \<Rightarrow> path ?g (2 * i) (ri_edges ri) (2 * j)"
    using r ij g(2) by (simp add: router_ok_def answers_def)
  have q: "get_route_info r (stop_n db i) (stop_n db j) =
      bindR (build_route ?g (router_data r) (2 * i) (2 * j)) (\<lambda>route_info. case route_info of
            None \<Rightarrow> Inr None
          | Some ri \<Rightarrow> bindR (foldR (add_item r) trip_info_new (ri_edges ri)) (\<lambda>ti. Inr (Some ti)))"
    using route_lookup [OF db r ij(1)] route_lookup [OF db r ij(2)] by (simp add: get_route_info_def)
  have items: "foldR (add_item r) trip_info_new ids = Inr (trip_of db rs ids)" if p: "path ?g u ids v" for u ids v
  proof -
    have "\<forall>eid \<in> set ids. eid < length ?es" using path_ids [OF p] g(1) by simp
    then show ?thesis
      using add_items [OF g(3)] by (simp add: trip_info_new_def trip_of_def item_weights_def info_of_def comp_def)
  qed
  show ?thesis using ans q items by (auto split: sum.splits option.splits)
qed

theorem get_route_info_ok:
  assumes db: "cat_ok db" and r: "router_ok db rs r" and ij: "i < n_stops db" "j < n_stops db"
  shows "case get_route_info r (stop_n db i) (stop_n db j) of
      Inl e \<Rightarrow> False
    | Inr None \<Rightarrow> \<not> (\<exists>cs. itinerary db rs i cs j)
    | Inr (Some ti) \<Rightarrow> itinerary db rs i (trip_items ti) j \<and> total_time ti = item_weights (trip_items ti)"
proof -
  note g = router_okD_graph(1) [OF r]
  have "itinerary db rs i (trip_items (trip_of db rs ids)) j \<and>
      total_time (trip_of db rs ids) = item_weights (trip_items (trip_of db rs ids))"
    if "path (graph_of_stops r) (2 * i) ids (2 * j)" for ids
    using path_itinerary [OF g that] by (simp add: trip_of_def)
  then show ?thesis
    using get_route_info_trip [OF db r ij] itinerary_path [OF g db, of i _ j]
    by (auto split: sum.splits option.splits)
qed

lemma get_route_info_unknown:
  assumes db: "cat_ok db" and r: "router_ok db rs r"
  shows "f \<notin> set (snames db) \<Longrightarrow> get_route_info r f t = Inl (Logic_error ''there is no starting stop'')"
    and "f \<in> set (snames db) \<Longrightarrow> t \<notin> set (snames db) \<Longrightarrow> get_route_info r f t = Inl Out_of_range"
proof -
  have sv: "stop_vertexs r = vertices db (n_stops db)" using r by (simp add: router_ok_def built_to_def)
  show "get_route_info r f t = Inl (Logic_error ''there is no starting stop'')" if "f \<notin> set (snames db)"
    using map_of_vertices_None [OF that] by (simp add: get_route_info_def sv)
  show "get_route_info r f t = Inl Out_of_range" if f: "f \<in> set (snames db)" and t: "t \<notin> set (snames db)"
  proof -
    obtain i where "i < n_stops db" "stop_n db i = f" using f by (rule snames_index)
    then show ?thesis using route_lookup [OF db r, of i] map_of_vertices_None [OF t]
      by (simp add: get_route_info_def sv)
  qed
qed

end
