(* ===== verification/Router_Proto.thy ===== *)
theory Router_Proto
  imports Transport_Router
begin

text \<open>
  The serialisation of the transport router, \<^verbatim>\<open>transport_router.cpp\<close> lines 91-251, with the messages
  of \<^verbatim>\<open>transport_router.proto\<close> as records of their fields. \<open>map_orders\<close> holds the orders in which the
  two unordered maps of the router and the two maps of the message are traversed.
\<close>

record proto_settings =
  pr_bus_wait_time :: "32 word"
  pr_bus_velocity :: "32 word"

record proto_vertex_id =
  pv_in :: "32 word"
  pv_out :: "32 word"

record proto_edge =
  pe_from :: "32 word"
  pe_to :: "32 word"
  pe_weight :: double

record proto_graph =
  pg_edges :: "proto_edge list"
  pg_incidence_lists :: "32 word list list"

record proto_component_trip =
  pct_name :: string
  pct_weight :: double
  pct_span_count :: "32 word option"

record proto_route_internal_data =
  pri_is_initialisation :: bool
  pri_weight :: double
  pri_prev_edge :: "32 word option"

record proto_transport_router =
  ptr_settings :: proto_settings
  ptr_total_vertex :: "32 word"
  ptr_graph_of_stops :: proto_graph
  ptr_router :: "proto_route_internal_data list list"
  ptr_stop_vertexs :: "(32 word, proto_vertex_id) umap"
  ptr_info_about_edge :: "(32 word, proto_component_trip) umap"
  ptr_stops :: "string list"

record map_orders =
  ord_vertexs :: "(string, vertex_id) umap \<Rightarrow> (string \<times> vertex_id) list"
  ord_info :: "(nat, component_trip) umap \<Rightarrow> (nat \<times> component_trip) list"
  ord_proto_vertexs :: "(32 word, proto_vertex_id) umap \<Rightarrow> (32 word \<times> proto_vertex_id) list"
  ord_proto_info :: "(32 word, proto_component_trip) umap \<Rightarrow> (32 word \<times> proto_component_trip) list"

section \<open>Saving\<close>

definition save_routing_settings :: "transport_router \<Rightarrow> proto_settings" where
  "save_routing_settings r = \<lparr>pr_bus_wait_time = ucast (bus_wait_time (tr_settings r)),
     pr_bus_velocity = ucast (bus_velocity (tr_settings r))\<rparr>"

text \<open>Line 104 stores \<^verbatim>\<open>edge.from\<close> as the target.\<close>

definition save_edge :: "double edge \<Rightarrow> proto_edge" where
  "save_edge e = \<lparr>pe_from = word_of_nat (edge_from e), pe_to = word_of_nat (edge_from e),
     pe_weight = edge_weight e\<rparr>"

definition save_graph :: "transport_router \<Rightarrow> proto_graph result" where
  "save_graph r =
     (let g = graph_of_stops r in
      bindR (mapR (get_edge g) [0..<get_edge_count g]) (\<lambda>es.
        Inr \<lparr>pg_edges = map save_edge es,
             pg_incidence_lists = map (map word_of_nat) (incidence_lists g)\<rparr>))"

definition save_route_data :: "double route_internal_data option \<Rightarrow> proto_route_internal_data" where
  "save_route_data data =
     (case data of
        Some d \<Rightarrow> \<lparr>pri_is_initialisation = True, pri_weight = rid_weight d,
                   pri_prev_edge = map_option word_of_nat (prev_edge d)\<rparr>
      | None \<Rightarrow> \<lparr>pri_is_initialisation = False, pri_weight = 0, pri_prev_edge = None\<rparr>)"

definition save_router :: "transport_router \<Rightarrow> proto_route_internal_data list list" where
  "save_router r = map (map save_route_data) (router_data r)"

definition name_stops :: "catalogue \<Rightarrow> (string, 32 word) smap" where
  "name_stops db = foldl (\<lambda>m i. sm_put (stop_name (all_stops db ! i)) (word_of_nat i) m) []
     [0..<length (all_stops db)]"

definition save_vertex :: "(string, 32 word) smap \<Rightarrow> (32 word, proto_vertex_id) umap \<Rightarrow> string \<times> vertex_id \<Rightarrow>
    (32 word, proto_vertex_id) umap result" where
  "save_vertex ids m p =
     (let (name, v) = p in
      bindR (map_at (map_of ids) name) (\<lambda>k.
        Inr (um_put k \<lparr>pv_in = word_of_nat (v_in v), pv_out = word_of_nat (v_out v)\<rparr> m)))"

definition save_component :: "component_trip \<Rightarrow> proto_component_trip" where
  "save_component c = \<lparr>pct_name = ct_name c, pct_weight = ct_weight c, pct_span_count = span_count c\<rparr>"

definition save_transport_router :: "map_orders \<Rightarrow> catalogue \<Rightarrow> transport_router \<Rightarrow>
    proto_transport_router result" where
  "save_transport_router ord db r =
     bindR (save_graph r) (\<lambda>g.
     bindR (foldR (save_vertex (name_stops db)) [] (ord_vertexs ord (stop_vertexs r))) (\<lambda>vs.
       Inr \<lparr>ptr_settings = save_routing_settings r, ptr_total_vertex = word_of_nat (total_vertex r),
            ptr_graph_of_stops = g, ptr_router = save_router r, ptr_stop_vertexs = vs,
            ptr_info_about_edge =
              foldl (\<lambda>m (eid, c). um_put (word_of_nat eid) (save_component c) m) []
                (ord_info ord (info_about_edge r)),
            ptr_stops = map stop_name (all_stops db)\<rparr>))"

section \<open>Loading\<close>

definition load_edge :: "proto_edge \<Rightarrow> double edge" where
  "load_edge e = \<lparr>edge_from = unat (pe_from e), edge_to = unat (pe_to e), edge_weight = pe_weight e\<rparr>"

definition load_route_data :: "proto_route_internal_data \<Rightarrow> double route_internal_data option" where
  "load_route_data p =
     (if pri_is_initialisation p
      then Some \<lparr>rid_weight = pri_weight p, prev_edge = map_option unat (pri_prev_edge p)\<rparr>
      else None)"

definition load_vertex :: "catalogue \<Rightarrow> string list \<Rightarrow> (string, vertex_id) umap \<Rightarrow>
    32 word \<times> proto_vertex_id \<Rightarrow> (string, vertex_id) umap result" where
  "load_vertex db stops m p =
     (let (k, v) = p in
      bindR (vec_idx stops (unat k)) (\<lambda>n. bindR (get_stop db n) (\<lambda>s.
        Inr (um_put (stop_name s) \<lparr>v_in = unat (pv_in v), v_out = unat (pv_out v)\<rparr> m))))"

definition load_component :: "catalogue \<Rightarrow> (nat, component_trip) umap \<Rightarrow> 32 word \<times> proto_component_trip \<Rightarrow>
    (nat, component_trip) umap result" where
  "load_component db m p =
     (let (k, c) = p in
      bindR (if pct_span_count c \<noteq> None
             then bindR (get_bus db (pct_name c)) (\<lambda>b. Inr (bus_name b))
             else bindR (get_stop db (pct_name c)) (\<lambda>s. Inr (stop_name s))) (\<lambda>n.
        Inr (um_put (unat k) \<lparr>ct_name = n, ct_weight = pct_weight c, span_count = pct_span_count c\<rparr> m)))"

text \<open>The constructor from a graph and a table of routes.\<close>

definition transport_router_of :: "double graph \<Rightarrow> double routes_internal_data \<Rightarrow> transport_router" where
  "transport_router_of g t = \<lparr>tr_settings = \<lparr>bus_wait_time = 0, bus_velocity = 0\<rparr>, total_vertex = 0,
     graph_of_stops = g, router_data = t, stop_vertexs = [], info_about_edge = []\<rparr>"

definition deserialize_transport_router :: "map_orders \<Rightarrow> proto_transport_router \<Rightarrow> catalogue \<Rightarrow>
    transport_router result" where
  "deserialize_transport_router ord p db =
     (let g = graph_of_lists (map load_edge (pg_edges (ptr_graph_of_stops p)))
                (map (map unat) (pg_incidence_lists (ptr_graph_of_stops p)));
          t = map (map load_route_data) (ptr_router p);
          r = transport_router_of g t;
          r = r\<lparr>tr_settings := \<lparr>bus_wait_time = ucast (pr_bus_wait_time (ptr_settings p)),
                                bus_velocity = ucast (pr_bus_velocity (ptr_settings p))\<rparr>,
                total_vertex := unat (ptr_total_vertex p)\<rparr>
      in bindR (foldR (load_vertex db (ptr_stops p)) [] (ord_proto_vertexs ord (ptr_stop_vertexs p))) (\<lambda>vs.
         bindR (foldR (load_component db) [] (ord_proto_info ord (ptr_info_about_edge p))) (\<lambda>info.
           Inr (r\<lparr>stop_vertexs := vs, info_about_edge := info\<rparr>))))"

end
