(* ===== verification/Router_Round_Trip.thy ===== *)
theory Router_Round_Trip
  imports Transport_Router_Correct Router_Proto Catalogue_Proto
begin

text \<open>
  Saving and loading the transport router. The loaded router answers every query as the saved
  one. Line 104 of \<^verbatim>\<open>transport_router.cpp\<close> stores the source of an edge as its target, so the
  loaded graph is not the saved one: the answers agree because \<^verbatim>\<open>BuildRoute\<close> only reads sources.
\<close>

section \<open>Answers depend on the sources of edges only\<close>

lemma collect_edges_mono:
  "collect_edges g t u e acc = Some y \<Longrightarrow> prev_step g t = prev_step g' t \<Longrightarrow> collect_edges g' t u e acc = Some y"
proof (induction g t u e acc y rule: collect_edges.raw_induct [rotated, consumes 1])
  case (1 rec g t u e acc y)
  then show ?case
    by (subst collect_edges.simps) (auto split: option.splits sum.splits)
qed

lemma collect_edges_cong:
  assumes "prev_step g t = prev_step g' t"
  shows "collect_edges g t u e acc = collect_edges g' t u e acc"
  using collect_edges_mono [OF _ assms] collect_edges_mono [OF _ assms [symmetric]]
  by (metis not_Some_eq)

lemma build_route_cong:
  assumes "map edge_from (edges g') = map edge_from (edges g)"
  shows "build_route g' t = build_route g t"
proof -
  have len: "length (edges g') = length (edges g)" using assms by (metis length_map)
  have "edge_from (edges g' ! eid) = edge_from (edges g ! eid)" if "eid < length (edges g)" for eid
    using assms that len by (metis nth_map)
  then have "prev_step g' t = prev_step g t"
    using len by (auto simp: fun_eq_iff prev_step_def get_edge_def vec_at_def)
  then have "collect_edges g' t = collect_edges g t" by (intro ext) (rule collect_edges_cong)
  then show ?thesis by (intro ext) (simp only: build_route_def)
qed

section \<open>Loops that fill a map\<close>

lemma foldR_puts:
  assumes "\<And>m x. x \<in> set xs \<Longrightarrow> step m x = Inr (um_put (k x) (v x) m)" and "distinct (map k xs)"
  shows "foldR step [] xs = Inr (map (\<lambda>x. (k x, v x)) xs)"
proof -
  have "\<exists>m. foldR step [] xs = Inr m \<and> m = map (\<lambda>x. (k x, v x)) xs"
  proof (rule foldR_prefix)
    fix ys x zs m
    assume "xs = ys @ x # zs" "m = map (\<lambda>x. (k x, v x)) ys"
    then show "\<exists>m'. step m x = Inr m' \<and> m' = map (\<lambda>x. (k x, v x)) (ys @ [x])"
      using assms by (auto simp: image_image intro!: um_put_last)
  qed simp
  then show ?thesis by simp
qed

lemma foldl_puts:
  assumes "distinct (map k xs)"
  shows "foldl (\<lambda>m x. um_put (k x) (v x) m) [] xs = map (\<lambda>x. (k x, v x)) xs"
  using foldR_puts [of xs "\<lambda>m x. Inr (um_put (k x) (v x) m)" k v] assms foldR_pure by (metis sum.inject(2))

lemma distinct_map_mset: "mset ys = mset xs \<Longrightarrow> distinct (map f ys) = distinct (map f xs)"
  by (metis mset_eq_imp_distinct_iff mset_map)

section \<open>Sizes\<close>

text \<open>Stops, vertices and edges have 32-bit ids in the message.\<close>

definition fits :: "transport_router \<Rightarrow> bool" where
  "fits r \<longleftrightarrow> get_vertex_count (graph_of_stops r) < 2 ^ 32 \<and> length (edges (graph_of_stops r)) < 2 ^ 32"

definition orders_ok :: "map_orders \<Rightarrow> bool" where
  "orders_ok ord \<longleftrightarrow> (\<forall>m. mset (ord_vertexs ord m) = mset m) \<and> (\<forall>m. mset (ord_info ord m) = mset m) \<and>
     (\<forall>m. mset (ord_proto_vertexs ord m) = mset m) \<and> (\<forall>m. mset (ord_proto_info ord m) = mset m)"

interpretation ids: codec "word_of_nat :: nat \<Rightarrow> 32 word" unat "\<lambda>i. i < 2 ^ 32"
  by unfold_locales (simp add: unat_of_nat take_bit_nat_eq_self)

lemmas unat_word_32 = ids.decode_encode
lemmas word_32_inj = ids.encode_inj

lemma ucast_settings: "(ucast (ucast (w :: 16 word) :: 32 word) :: 16 word) = w"
  by (rule ucast_up_ucast_id) (simp add: is_up)

section \<open>The graph and the table\<close>

lemma load_save_edge:
  "edge_from e < 2 ^ 32 \<Longrightarrow> load_edge (save_edge e) = e\<lparr>edge_to := edge_from e\<rparr>"
  by (cases e) (simp add: load_edge_def save_edge_def unat_word_32)

definition fits_edge :: "double route_internal_data option \<Rightarrow> bool" where
  "fits_edge x \<longleftrightarrow> pred_option (\<lambda>d. pred_option (\<lambda>e. e < 2 ^ 32) (prev_edge d)) x"

interpretation routes: codec save_route_data load_route_data fits_edge
proof unfold_locales
  fix x assume "fits_edge x"
  then show "load_route_data (save_route_data x) = x"
    using ids.decode_option
    by (cases x) (auto simp: fits_edge_def load_route_data_def save_route_data_def)
qed

lemma table_prev_edges:
  assumes t: "table_ok ok g t" and row: "row \<in> set t" and x: "Some d \<in> set row" and e: "prev_edge d = Some e"
  shows "e < length (edges g)"
proof -
  have sh: "shape (get_vertex_count g) t" using t by (simp add: table_ok_def)
  obtain i where i: "i < get_vertex_count g" "row = t ! i"
    using row sh by (auto simp: in_set_conv_nth shape_def)
  then obtain j where j: "j < get_vertex_count g" "t ! i ! j = Some d"
    using x sh by (auto simp: in_set_conv_nth shape_def)
  have "row_ok ok g (get_vertex_count g) i (\<lambda>j. t ! i ! j)" using t i by (simp add: table_ok_def)
  then show ?thesis using j e by (auto simp: row_ok_def)
qed

lemma load_save_table:
  assumes "table_ok ok (graph_of_stops r) (router_data r)" and "fits r"
  shows "map (map load_route_data) (save_router r) = router_data r"
proof -
  have "fits_edge x" if "row \<in> set (router_data r)" "x \<in> set row" for row x
    using that table_prev_edges [OF assms(1) that(1)] assms(2)
    by (cases x; cases "prev_edge (the x)") (force simp: fits_edge_def fits_def)+
  then show ?thesis unfolding save_router_def by (intro routes.decode_maps) blast
qed

section \<open>The maps\<close>

lemma sm_put_map: "map (map_prod id f) (sm_put k v m) = sm_put k (f v) (map (map_prod id f) m)"
  by (induction k v m rule: sm_put.induct) auto

lemma name_stops_ids: "name_stops db = map (map_prod id word_of_nat) (proto_stop_ids db)"
proof -
  have "foldl (\<lambda>m i. sm_put (stop_name (all_stops db ! i)) (word_of_nat i) m) (map (map_prod id word_of_nat) m) xs =
      map (map_prod id word_of_nat) (foldl (\<lambda>m i. sm_put (stop_name (all_stops db ! i)) i m) m xs)" for m xs
    by (induction xs arbitrary: m) (simp_all flip: sm_put_map)
  from this [of "[]"] show ?thesis by (simp add: name_stops_def proto_stop_ids_def)
qed

lemma map_of_name_stops:
  assumes "stops_ok db" and "i < n_stops db"
  shows "map_of (name_stops db) (stop_n db i) = Some (word_of_nat i)"
proof -
  have "map_of (name_stops db) = map_option word_of_nat \<circ> map_of (proto_stop_ids db)"
    unfolding name_stops_ids by (simp add: map_prod_def id_def map_of_map)
  then show ?thesis using proto_stop_ids_lookup [OF assms] by (simp add: stop_n_def)
qed

lemma get_stop_n: "stops_ok db \<Longrightarrow> i < n_stops db \<Longrightarrow> get_stop db (stop_n db i) = Inr (all_stops db ! i)"
  using stop_lookup [of db i] by (simp add: get_stop_def stop_n_def)

definition proto_vertex :: "string \<times> vertex_id \<Rightarrow> 32 word \<times> proto_vertex_id" where
  "proto_vertex x = (word_of_nat (v_in (snd x) div 2),
     \<lparr>pv_in = word_of_nat (v_in (snd x)), pv_out = word_of_nat (v_out (snd x))\<rparr>)"

definition loaded_vertex :: "catalogue \<Rightarrow> 32 word \<times> proto_vertex_id \<Rightarrow> string \<times> vertex_id" where
  "loaded_vertex db y = (stop_n db (unat (fst y)), \<lparr>v_in = unat (pv_in (snd y)), v_out = unat (pv_out (snd y))\<rparr>)"

lemma loaded_proto_vertex:
  assumes "2 * n_stops db < 2 ^ 32" and "x \<in> set (vertices db (n_stops db))"
  shows "loaded_vertex db (proto_vertex x) = x"
proof -
  obtain i where i: "i < n_stops db" "x = (stop_n db i, \<lparr>v_in = 2 * i, v_out = 2 * i + 1\<rparr>)"
    using assms(2) by (auto simp: vertices_def)
  then have u: "unat (word_of_nat (2 * i) :: 32 word) = 2 * i" "unat (word_of_nat (2 * i + 1) :: 32 word) = 2 * i + 1"
    "unat (word_of_nat i :: 32 word) = i" "2 * i div 2 = i"
    using assms(1) by (intro unat_word_32; simp)+ simp
  show ?thesis
    unfolding i(2) loaded_vertex_def proto_vertex_def
    by (simp only: fst_conv snd_conv vertex_id.simps proto_vertex_id.simps u)
qed

interpretation verts: codec proto_vertex "loaded_vertex db"
  "\<lambda>x. 2 * n_stops db < 2 ^ 32 \<and> x \<in> set (vertices db (n_stops db))" for db
  by unfold_locales (simp add: loaded_proto_vertex)

lemma save_vertices:
  assumes db: "stops_ok db" and n: "2 * n_stops db < 2 ^ 32" and xs: "mset xs = mset (vertices db (n_stops db))"
  shows "foldR (save_vertex (name_stops db)) [] xs = Inr (map proto_vertex xs)"
proof -
  have set: "set xs = set (vertices db (n_stops db))" using xs by (metis set_mset_mset)
  have "distinct (map (fst \<circ> proto_vertex) (vertices db (n_stops db)))"
    using n word_32_inj by (auto simp: vertices_def proto_vertex_def distinct_map inj_on_def)
  then have "distinct (map (fst \<circ> proto_vertex) xs)" using distinct_map_mset [OF xs] by metis
  moreover have "save_vertex (name_stops db) m x = Inr (um_put ((fst \<circ> proto_vertex) x) ((snd \<circ> proto_vertex) x) m)"
    if "x \<in> set xs" for m x
    using that map_of_name_stops [OF db] unfolding set
    by (auto simp: vertices_def save_vertex_def proto_vertex_def)
  ultimately have "foldR (save_vertex (name_stops db)) [] xs =
      Inr (map (\<lambda>x. ((fst \<circ> proto_vertex) x, (snd \<circ> proto_vertex) x)) xs)"
    by (intro foldR_puts) (simp_all add: comp_def)
  then show ?thesis by simp
qed

lemma load_vertices:
  assumes db: "stops_ok db" and n: "2 * n_stops db < 2 ^ 32"
    and ys: "mset ys = mset (map proto_vertex (vertices db (n_stops db)))"
  shows "\<exists>vs. foldR (load_vertex db (map stop_name (all_stops db))) [] ys = Inr vs \<and>
    mset vs = mset (vertices db (n_stops db))"
proof -
  let ?vs = "vertices db (n_stops db)" and ?f = "loaded_vertex db"
  have ms: "mset (map ?f ys) = mset ?vs" using n ys by (intro verts.decode_mset) simp_all
  have "distinct (map fst ?vs)" using stop_n_eq_iff [OF db] by (auto simp: vertices_def distinct_map inj_on_def)
  then have "distinct (map fst (map ?f ys))" using distinct_map_mset [OF ms] by metis
  moreover have "load_vertex db (map stop_name (all_stops db)) m y = Inr (um_put ((fst \<circ> ?f) y) ((snd \<circ> ?f) y) m)"
    if "y \<in> set ys" for m y
  proof -
    have "set ys = proto_vertex ` set ?vs" using ys by (metis mset_eq_setD set_map)
    with that have "y \<in> proto_vertex ` set ?vs" by simp
    then obtain x where "y = proto_vertex x" "x \<in> set ?vs" by (rule imageE)
    then obtain i where i: "i < n_stops db"
      "y = proto_vertex (stop_n db i, \<lparr>v_in = 2 * i, v_out = 2 * i + 1\<rparr>)"
      by (auto simp: vertices_def)
    then have "unat (fst y) = i" using n by (simp add: proto_vertex_def unat_word_32)
    then show ?thesis using i get_stop_n [OF db i(1)]
      by (simp add: load_vertex_def loaded_vertex_def stop_n_def split_beta)
  qed
  ultimately have "foldR (load_vertex db (map stop_name (all_stops db))) [] ys =
      Inr (map (\<lambda>y. ((fst \<circ> ?f) y, (snd \<circ> ?f) y)) ys)"
    by (intro foldR_puts) (simp_all add: comp_def)
  then show ?thesis using ms by (intro exI [of _ "map ?f ys"]) simp
qed

text \<open>A description names a bus where it counts spans and a stop otherwise.\<close>

definition names_ok :: "catalogue \<Rightarrow> component_trip \<Rightarrow> bool" where
  "names_ok db c \<longleftrightarrow> ct_name c \<in> set (if span_count c \<noteq> None then bnames db else snames db)"

definition proto_info :: "nat \<times> component_trip \<Rightarrow> 32 word \<times> proto_component_trip" where
  "proto_info x = (word_of_nat (fst x), save_component (snd x))"

definition loaded_info :: "32 word \<times> proto_component_trip \<Rightarrow> nat \<times> component_trip" where
  "loaded_info y = (unat (fst y), \<lparr>ct_name = pct_name (snd y), ct_weight = pct_weight (snd y),
     span_count = pct_span_count (snd y)\<rparr>)"

interpretation infos: codec proto_info loaded_info "\<lambda>x. fst x < 2 ^ 32"
proof unfold_locales
  fix x :: "nat \<times> component_trip" assume "fst x < 2 ^ 32"
  then show "loaded_info (proto_info x) = x"
    by (cases x) (simp add: loaded_info_def proto_info_def save_component_def unat_word_32)
qed

lemma load_component_named:
  assumes db: "cat_ok db" and c: "names_ok db c"
  shows "load_component db m (k, save_component c) = Inr (um_put (unat k) c m)"
proof (cases "span_count c")
  case None
  then have "ct_name c \<in> set (snames db)" using c by (simp add: names_ok_def)
  then obtain i where "i < n_stops db" "stop_n db i = ct_name c" by (rule snames_index)
  then have "get_stop db (ct_name c) = Inr (all_stops db ! i) \<and> stop_name (all_stops db ! i) = ct_name c"
    using get_stop_n [of db i] db by (auto simp: cat_ok_def stop_n_def)
  then show ?thesis using None by (cases c) (simp add: load_component_def save_component_def)
next
  case (Some k')
  then have "ct_name c \<in> set (bnames db)" using c by (simp add: names_ok_def)
  then obtain i where "map_of (buses_by_name db) (ct_name c) = Some i" "i < length (all_buses db)"
      "bus_name (all_buses db ! i) = ct_name c"
    using bus_lookup [OF db] by blast
  then have "get_bus db (ct_name c) = Inr (all_buses db ! i) \<and> bus_name (all_buses db ! i) = ct_name c"
    by (simp add: get_bus_def)
  then show ?thesis using Some by (cases c) (simp add: load_component_def save_component_def)
qed

lemma load_infos:
  assumes db: "cat_ok db" and xs: "distinct (map fst xs)"
    and x: "\<forall>x \<in> set xs. fst x < 2 ^ 32 \<and> names_ok db (snd x)"
    and ys: "mset ys = mset (map proto_info xs)"
  shows "\<exists>infos. foldR (load_component db) [] ys = Inr infos \<and> mset infos = mset xs"
proof -
  have ms: "mset (map loaded_info ys) = mset xs" using x ys by (intro infos.decode_mset) simp_all
  have "distinct (map fst (map loaded_info ys))" using xs distinct_map_mset [OF ms] by metis
  moreover have "load_component db m y = Inr (um_put ((fst \<circ> loaded_info) y) ((snd \<circ> loaded_info) y) m)"
    if "y \<in> set ys" for m y
  proof -
    have "set ys = proto_info ` set xs" using ys by (metis mset_eq_setD set_map)
    with that have "y \<in> proto_info ` set xs" by simp
    then obtain x0 where x0: "y = proto_info x0" "x0 \<in> set xs" by (rule imageE)
    then have ok: "names_ok db (snd x0)" and l: "loaded_info y = x0" "unat (word_of_nat (fst x0) :: 32 word) = fst x0"
      using x infos.decode_encode unat_word_32 by simp_all
    show ?thesis using load_component_named [OF db ok, of m "word_of_nat (fst x0)"]
      by (simp add: l comp_def) (simp add: x0(1) proto_info_def)
  qed
  ultimately have "foldR (load_component db) [] ys =
      Inr (map (\<lambda>y. ((fst \<circ> loaded_info) y, (snd \<circ> loaded_info) y)) ys)"
    by (intro foldR_puts) (simp_all add: comp_def)
  then show ?thesis using ms by (intro exI [of _ "map loaded_info ys"]) simp
qed

section \<open>The round trip\<close>

lemma hop_name:
  assumes "hop db rs i c j"
  shows "ct_name c \<in> set (bnames db) \<and> span_count c \<noteq> None"
  using assms by cases (auto simp: bnames_def)

lemma info_names_ok:
  assumes "(e, c) \<in> set (all_items db rs)"
  shows "names_ok db c"
proof -
  from assms show ?thesis unfolding set_all_items
  proof (elim disjE exE conjE)
    fix i assume "i < n_stops db" "c = wait_item db rs i"
    then show ?thesis by (auto simp: names_ok_def wait_item_def snames_def stop_n_def)
  next
    fix i j assume "hop db rs i c j"
    then show ?thesis using hop_name by (simp add: names_ok_def)
  qed
qed

lemma save_graph_ok:
  "save_graph r = Inr \<lparr>pg_edges = map save_edge (edges (graph_of_stops r)),
     pg_incidence_lists = map (map word_of_nat) (incidence_lists (graph_of_stops r))\<rparr>"
proof -
  let ?g = "graph_of_stops r"
  have "mapR (get_edge ?g) [0..<get_edge_count ?g] = Inr (map (\<lambda>i. edges ?g ! i) [0..<get_edge_count ?g])"
    by (rule mapR_pure) (simp add: get_edge_def get_edge_count_def)
  then show ?thesis by (simp add: save_graph_def get_edge_count_def map_nth Let_def)
qed

text \<open>What is left of the edge vector after a round trip.\<close>

definition retargeted :: "double graph \<Rightarrow> double graph" where
  "retargeted g = g\<lparr>edges := map (\<lambda>e. e\<lparr>edge_to := edge_from e\<rparr>) (edges g)\<rparr>"

lemma load_save_graph:
  assumes wf: "graph_wf g" and v: "get_vertex_count g < 2 ^ 32" and e: "length (edges g) < 2 ^ 32"
  shows "graph_of_lists (map load_edge (map save_edge (edges g))) (map (map unat) (map (map word_of_nat :: nat list \<Rightarrow> 32 word list) (incidence_lists g)))
    = retargeted g"
proof -
  have "edge_from x < 2 ^ 32" if "x \<in> set (edges g)" for x using wf v that by (auto simp: graph_wf_def)
  then have "map load_edge (map save_edge (edges g)) = map (\<lambda>e. e\<lparr>edge_to := edge_from e\<rparr>) (edges g)"
    by (simp add: load_save_edge)
  moreover have "i < 2 ^ 32" if row: "row \<in> set (incidence_lists g)" and i: "i \<in> set row" for row i
  proof -
    obtain u where "u < get_vertex_count g" "row = incidence_lists g ! u"
      using row by (auto simp: in_set_conv_nth get_vertex_count_def)
    then have "row = outgoing g u" using wf by (simp add: graph_wf_def)
    then show ?thesis using i e by (simp add: set_outgoing)
  qed
  then have "map (map unat) (map (map word_of_nat :: nat list \<Rightarrow> 32 word list) (incidence_lists g)) = incidence_lists g"
    by (intro ids.decode_maps) blast
  ultimately show ?thesis by (simp only: graph_of_lists_def retargeted_def) simp
qed

text \<open>Two routers that answer alike.\<close>

lemma get_route_info_cong:
  assumes "map edge_from (edges (graph_of_stops r')) = map edge_from (edges (graph_of_stops r))"
    and "router_data r' = router_data r" and "map_of (stop_vertexs r') = map_of (stop_vertexs r)"
    and "map_of (info_about_edge r') = map_of (info_about_edge r)"
  shows "get_route_info r' f t = get_route_info r f t"
proof -
  have "add_item r' = add_item r" by (intro ext) (simp only: add_item_def assms(4))
  then show ?thesis using assms(2,3) build_route_cong [OF assms(1)] by (simp add: get_route_info_def)
qed

text \<open>What a built router gives to save.\<close>

lemma router_okD:
  assumes "router_ok db rs r"
  shows "edges (graph_of_stops r) = map fst (all_items db rs)"
    and "get_vertex_count (graph_of_stops r) = 2 * n_stops db" and "graph_wf (graph_of_stops r)"
    and "info_about_edge r = enumerate 0 (map snd (all_items db rs))"
    and "stop_vertexs r = vertices db (n_stops db)" and "total_vertex r = 2 * n_stops db"
    and "table_ok nonneg_double (graph_of_stops r) (router_data r)" and "tr_settings r = rs"
  using assms by (simp_all add: router_ok_def built_to_def)

lemma infos_named:
  assumes r: "router_ok db rs r" and fits: "fits r" and ms: "mset infos = mset (info_about_edge r)"
  shows "distinct (map fst infos) \<and> (\<forall>x \<in> set infos. fst x < 2 ^ 32 \<and> names_ok db (snd x))"
proof
  let ?es = "all_items db rs"
  have ms': "mset infos = mset (enumerate 0 (map snd ?es))" using ms router_okD(4) [OF r] by simp
  then have set: "set infos = set (enumerate 0 (map snd ?es))" by (metis set_mset_mset)
  show "distinct (map fst infos)"
    using distinct_map_mset [OF ms'] by (metis distinct_upt map_fst_enumerate)
  have m: "length ?es < 2 ^ 32" using fits router_okD(1) [OF r] by (simp add: fits_def)
  show "\<forall>x \<in> set infos. fst x < 2 ^ 32 \<and> names_ok db (snd x)"
  proof
    fix x assume "x \<in> set infos"
    then obtain k where "k < length ?es" "x = (k, snd (?es ! k))"
      unfolding set by (auto simp: in_set_enumerate_eq prod_eq_iff)
    then show "fst x < 2 ^ 32 \<and> names_ok db (snd x)"
      using m info_names_ok [of "fst (?es ! k)" "snd (?es ! k)" db rs] by simp
  qed
qed

lemma save_infos:
  assumes "distinct (map fst infos)" and "\<forall>x \<in> set infos. fst x < 2 ^ 32"
  shows "foldl (\<lambda>m (eid, c). um_put (word_of_nat eid) (save_component c) m) [] infos = map proto_info infos"
proof -
  have "inj_on (\<lambda>x. word_of_nat (fst x) :: 32 word) (set infos)"
    using assms word_32_inj by (auto simp: inj_on_def distinct_map)
  then have "distinct (map (\<lambda>x. word_of_nat (fst x) :: 32 word) infos)"
    using assms(1) by (simp add: distinct_map)
  from foldl_puts [OF this, of "\<lambda>x. save_component (snd x)"]
  have "foldl (\<lambda>m x. um_put (word_of_nat (fst x)) (save_component (snd x)) m) [] infos = map proto_info infos"
    by (simp add: proto_info_def)
  then show ?thesis by (simp add: split_beta')
qed

definition saved_router :: "map_orders \<Rightarrow> catalogue \<Rightarrow> transport_router \<Rightarrow> proto_transport_router" where
  "saved_router ord db r = \<lparr>ptr_settings = save_routing_settings r, ptr_total_vertex = word_of_nat (total_vertex r),
      ptr_graph_of_stops = \<lparr>pg_edges = map save_edge (edges (graph_of_stops r)),
        pg_incidence_lists = map (map word_of_nat) (incidence_lists (graph_of_stops r))\<rparr>,
      ptr_router = save_router r, ptr_stop_vertexs = map proto_vertex (ord_vertexs ord (stop_vertexs r)),
      ptr_info_about_edge = map proto_info (ord_info ord (info_about_edge r)),
      ptr_stops = map stop_name (all_stops db)\<rparr>"

lemma save_transport_router_ok:
  assumes db: "cat_ok db" and r: "router_ok db rs r" and fits: "fits r" and ord: "orders_ok ord"
  shows "save_transport_router ord db r = Inr (saved_router ord db r)"
proof -
  have ok: "stops_ok db" and n: "2 * n_stops db < 2 ^ 32"
    using db fits router_okD(2) [OF r] by (simp_all add: cat_ok_def fits_def)
  have "mset (ord_vertexs ord (stop_vertexs r)) = mset (vertices db (n_stops db))"
    using ord router_okD(5) [OF r] by (simp add: orders_ok_def)
  from save_vertices [OF ok n this] infos_named [OF r fits, of "ord_info ord (info_about_edge r)"] ord
  show ?thesis
    by (simp add: save_transport_router_def save_graph_ok saved_router_def save_infos orders_ok_def)
qed

lemma load_graph_and_table:
  assumes r: "router_ok db rs r" and fits: "fits r" and p: "p = saved_router ord db r"
  shows "graph_of_lists (map load_edge (pg_edges (ptr_graph_of_stops p)))
      (map (map unat) (pg_incidence_lists (ptr_graph_of_stops p))) = retargeted (graph_of_stops r)"
    and "map (map load_route_data) (ptr_router p) = router_data r"
    and "\<lparr>bus_wait_time = ucast (pr_bus_wait_time (ptr_settings p)),
        bus_velocity = ucast (pr_bus_velocity (ptr_settings p))\<rparr> = tr_settings r"
    and "unat (ptr_total_vertex p) = total_vertex r"
proof -
  have n: "2 * n_stops db < 2 ^ 32" using fits router_okD(2) [OF r] by (simp add: fits_def)
  show "graph_of_lists (map load_edge (pg_edges (ptr_graph_of_stops p)))
      (map (map unat) (pg_incidence_lists (ptr_graph_of_stops p))) = retargeted (graph_of_stops r)"
    using load_save_graph [OF router_okD(3) [OF r]] fits
    by (simp only: p saved_router_def fits_def proto_transport_router.simps proto_graph.simps)
  show "map (map load_route_data) (ptr_router p) = router_data r"
    using load_save_table [OF router_okD(7) [OF r] fits] by (simp add: p saved_router_def)
  show "\<lparr>bus_wait_time = ucast (pr_bus_wait_time (ptr_settings p)),
        bus_velocity = ucast (pr_bus_velocity (ptr_settings p))\<rparr> = tr_settings r"
    by (simp add: p saved_router_def save_routing_settings_def ucast_settings)
  show "unat (ptr_total_vertex p) = total_vertex r"
    using unat_word_32 [OF n] router_okD(6) [OF r] by (simp only: p saved_router_def proto_transport_router.simps)
qed

lemma load_maps:
  assumes db: "cat_ok db" and r: "router_ok db rs r" and fits: "fits r" and ord: "orders_ok ord"
    and p: "p = saved_router ord db r"
  obtains vs infos where
    "foldR (load_vertex db (ptr_stops p)) [] (ord_proto_vertexs ord (ptr_stop_vertexs p)) = Inr vs"
    "foldR (load_component db) [] (ord_proto_info ord (ptr_info_about_edge p)) = Inr infos"
    "map_of vs = map_of (stop_vertexs r)" "map_of infos = map_of (info_about_edge r)"
proof -
  have ok: "stops_ok db" and n: "2 * n_stops db < 2 ^ 32"
    using db fits router_okD(2) [OF r] by (simp_all add: cat_ok_def fits_def)
  let ?infos = "ord_info ord (info_about_edge r)"
  have ms: "mset ?infos = mset (info_about_edge r)" using ord by (simp add: orders_ok_def)
  obtain vs where vs: "foldR (load_vertex db (ptr_stops p)) [] (ord_proto_vertexs ord (ptr_stop_vertexs p)) = Inr vs"
    "mset vs = mset (stop_vertexs r)"
    using load_vertices [OF ok n, of "ord_proto_vertexs ord (ptr_stop_vertexs p)"] ord router_okD(5) [OF r]
    by (auto simp: p saved_router_def orders_ok_def)
  obtain infos where infos: "foldR (load_component db) [] (ord_proto_info ord (ptr_info_about_edge p)) = Inr infos"
    "mset infos = mset (info_about_edge r)"
    using load_infos [OF db _ _, of ?infos "ord_proto_info ord (ptr_info_about_edge p)"]
      infos_named [OF r fits ms] ord by (auto simp: p saved_router_def orders_ok_def)
  have "um_ok (stop_vertexs r)" using stop_n_eq_iff [OF ok] router_okD(5) [OF r]
    by (auto simp: um_ok_def vertices_def distinct_map inj_on_def)
  then have a: "map_of vs = map_of (stop_vertexs r)" using vs(2) by (rule map_of_reorder)
  have "um_ok (info_about_edge r)" using router_okD(4) [OF r] by (simp add: um_ok_def)
  then have b: "map_of infos = map_of (info_about_edge r)" using infos(2) by (rule map_of_reorder)
  show thesis by (rule that [OF vs(1) infos(1) a b])
qed

theorem deserialize_saved_router:
  assumes db: "cat_ok db" and r: "router_ok db rs r" and fits: "fits r" and ord: "orders_ok ord"
  shows "\<exists>p r'. save_transport_router ord db r = Inr p \<and> deserialize_transport_router ord p db = Inr r' \<and>
    (\<forall>f t. get_route_info r' f t = get_route_info r f t) \<and> tr_settings r' = tr_settings r \<and>
    total_vertex r' = total_vertex r \<and> router_data r' = router_data r \<and>
    graph_of_stops r' = retargeted (graph_of_stops r)"
proof -
  define p where "p = saved_router ord db r"
  obtain vs infos where maps:
    "foldR (load_vertex db (ptr_stops p)) [] (ord_proto_vertexs ord (ptr_stop_vertexs p)) = Inr vs"
    "foldR (load_component db) [] (ord_proto_info ord (ptr_info_about_edge p)) = Inr infos"
    "map_of vs = map_of (stop_vertexs r)" "map_of infos = map_of (info_about_edge r)"
    using load_maps [OF db r fits ord p_def] by blast
  define r' where "r' = \<lparr>tr_settings = tr_settings r, total_vertex = total_vertex r,
      graph_of_stops = retargeted (graph_of_stops r), router_data = router_data r,
      stop_vertexs = vs, info_about_edge = infos\<rparr>"
  have "deserialize_transport_router ord p db = Inr r'"
    using maps(1,2) load_graph_and_table [OF r fits p_def]
    by (simp add: deserialize_transport_router_def r'_def transport_router_of_def)
  moreover have "get_route_info r' f t = get_route_info r f t" for f t
    using maps(3,4) by (intro get_route_info_cong) (simp_all add: r'_def retargeted_def)
  ultimately show ?thesis
    using save_transport_router_ok [OF assms] by (intro exI [of _ p] exI [of _ r']) (simp add: p_def r'_def)
qed

end
