(* ===== verification/Transport_Props.thy ===== *)
theory Transport_Props
  imports Router_Round_Trip Catalogue_Props
begin

text \<open>
  The properties of the transport router, on every consistent catalogue, with the two stops and
  the bus of \<open>demo_catalogue\<close> as the example.
\<close>

definition demo_settings :: routing_settings where
  "demo_settings = \<lparr>bus_wait_time = 6, bus_velocity = 40\<rparr>"

lemma demo_roads: "roads_known demo_catalogue"
  by (simp add: roads_known_def runs_def known_def demo_catalogue_def stop_n_def get_length_def)

lemma demo_velocity: "bus_velocity demo_settings \<noteq> 0"
  by (simp add: demo_settings_def)

lemma demo_stops: "n_stops demo_catalogue = 2" "stop_n demo_catalogue 0 = ''A''" "stop_n demo_catalogue 1 = ''B''"
  by (simp_all add: demo_catalogue_def stop_n_def)

text \<open>
  C4: On a consistent catalogue whose consecutive stops all have a road length, and with a velocity
  other than zero, the constructor of \<^verbatim>\<open>TransportRouter\<close> succeeds, and \<^verbatim>\<open>GetRouteInfo\<close> between any two
  stops answers without an exception: with an itinerary of waits and rides between them and the
  sum of its times, or with nothing exactly when there is no itinerary.
\<close>

theorem routes_are_itineraries:
  assumes "cat_ok db" and "roads_known db" and "bus_velocity rs \<noteq> 0"
  shows "\<exists>r. transport_router_new rs db = Inr r \<and> (\<forall>i < n_stops db. \<forall>j < n_stops db.
    case get_route_info r (stop_n db i) (stop_n db j) of
      Inl e \<Rightarrow> False
    | Inr None \<Rightarrow> \<not> (\<exists>cs. itinerary db rs i cs j)
    | Inr (Some ti) \<Rightarrow> itinerary db rs i (trip_items ti) j \<and> total_time ti = item_weights (trip_items ti))"
proof -
  obtain r where r: "transport_router_new rs db = Inr r" "router_ok db rs r"
    using transport_router_new_ok [OF assms] by blast
  show ?thesis using r(1) get_route_info_ok [OF assms(1) r(2)] by (intro exI [of _ r]) blast
qed

lemma routes_are_itineraries_witness:
  "\<exists>r ti. transport_router_new demo_settings demo_catalogue = Inr r \<and>
     get_route_info r ''A'' ''B'' = Inr (Some ti) \<and> itinerary demo_catalogue demo_settings 0 (trip_items ti) 1"
proof -
  let ?b = "all_buses demo_catalogue ! 0"
  have b: "?b \<in> set (all_buses demo_catalogue)" "[0, 1] \<in> set (runs ?b)" by (simp_all add: demo_catalogue_def runs_def)
  have "\<exists>c. hop demo_catalogue demo_settings 0 c 1"
    using hop.ride [OF b, of "[]" 0 "[1]" "[]" demo_settings] by auto
  then have it: "\<exists>cs. itinerary demo_catalogue demo_settings 0 cs 1"
    by (meson itinerary.arrived itinerary.board)
  obtain r where r: "transport_router_new demo_settings demo_catalogue = Inr r"
    "\<forall>i < n_stops demo_catalogue. \<forall>j < n_stops demo_catalogue.
      case get_route_info r (stop_n demo_catalogue i) (stop_n demo_catalogue j) of
        Inl e \<Rightarrow> False
      | Inr None \<Rightarrow> \<not> (\<exists>cs. itinerary demo_catalogue demo_settings i cs j)
      | Inr (Some ti) \<Rightarrow> itinerary demo_catalogue demo_settings i (trip_items ti) j \<and>
          total_time ti = item_weights (trip_items ti)"
    using routes_are_itineraries [OF demo_ok demo_roads demo_velocity] by blast
  have "case get_route_info r ''A'' ''B'' of
        Inl e \<Rightarrow> False
      | Inr None \<Rightarrow> \<not> (\<exists>cs. itinerary demo_catalogue demo_settings 0 cs 1)
      | Inr (Some ti) \<Rightarrow> itinerary demo_catalogue demo_settings 0 (trip_items ti) 1 \<and>
          total_time ti = item_weights (trip_items ti)"
    using r(2) [rule_format, of 0 1] unfolding demo_stops by simp
  then show ?thesis using r(1) it by (auto split: sum.splits option.splits)
qed

text \<open>
  C33: When some bus drives between two stops without a recorded length, the constructor throws
  \<^verbatim>\<open>std::logic_error\<close> and no router exists.
\<close>

theorem missing_road_throws:
  assumes "cat_ok db" and "\<not> roads_known db"
  shows "transport_router_new rs db = Inl (Logic_error ''Not found Lenght between this stops'')"
  using create_graph_fails [OF assms] by (simp add: transport_router_new_def no_length_def)

lemma missing_road_throws_witness:
  "transport_router_new demo_settings (demo_catalogue\<lparr>length_between_stops := []\<rparr>) =
     Inl (Logic_error ''Not found Lenght between this stops'')"
proof (rule missing_road_throws)
  show "cat_ok (demo_catalogue\<lparr>length_between_stops := []\<rparr>)"
    using demo_ok by (simp add: cat_ok_def stops_ok_def snames_def bnames_def)
  show "\<not> roads_known (demo_catalogue\<lparr>length_between_stops := []\<rparr>)"
    by (simp add: roads_known_def runs_def known_def demo_catalogue_def stop_n_def get_length_def)
qed

text \<open>
  C13: The edges of the built graph and their descriptions are exactly one wait per stop, from its
  arrival to its departure vertex, and one ride per contiguous part of a run of a bus, from the
  departure vertex of its first stop to the arrival vertex of its last; the edge weighs what its
  description says.
\<close>

theorem graph_edges_exact:
  assumes "cat_ok db" and "roads_known db"
  shows "\<exists>r. create_graph db (transport_router_start rs db) = Inr r \<and> graph_wf (graph_of_stops r) \<and>
    (\<forall>e c. (\<exists>eid. eid < get_edge_count (graph_of_stops r) \<and> edges (graph_of_stops r) ! eid = e \<and>
        map_of (info_about_edge r) eid = Some c) \<longleftrightarrow>
      (\<exists>i < n_stops db. e = \<lparr>edge_from = 2 * i, edge_to = 2 * i + 1, edge_weight = wait_time rs\<rparr> \<and>
         c = wait_item db rs i) \<or>
      (\<exists>i j. hop db rs i c j \<and> e = \<lparr>edge_from = 2 * i + 1, edge_to = 2 * j, edge_weight = ct_weight c\<rparr>))"
proof -
  obtain r where r: "create_graph db (transport_router_start rs db) = Inr r"
    "built_to db rs (n_stops db) (all_items db rs) r"
    using create_graph_ok [OF assms] by blast
  have "(\<exists>eid. eid < get_edge_count (graph_of_stops r) \<and> edges (graph_of_stops r) ! eid = e \<and>
      map_of (info_about_edge r) eid = Some c) \<longleftrightarrow> (e, c) \<in> set (all_items db rs)" for e c
    using r(2) by (auto simp: built_to_def get_edge_count_def map_of_enumerate in_set_conv_nth prod_eq_iff)
  then show ?thesis using r by (simp only: set_all_items) (auto simp: built_to_def)
qed

lemma graph_edges_exact_witness:
  "\<exists>r eid. create_graph demo_catalogue (transport_router_start demo_settings demo_catalogue) = Inr r \<and>
     edges (graph_of_stops r) ! eid = \<lparr>edge_from = 2, edge_to = 3, edge_weight = wait_time demo_settings\<rparr>"
proof -
  have "\<exists>i < n_stops demo_catalogue. \<lparr>edge_from = 2, edge_to = 3, edge_weight = wait_time demo_settings\<rparr> =
      \<lparr>edge_from = 2 * i, edge_to = 2 * i + 1, edge_weight = wait_time demo_settings\<rparr> \<and>
      wait_item demo_catalogue demo_settings 1 = wait_item demo_catalogue demo_settings i"
    by (intro exI [of _ 1]) (simp add: demo_stops)
  then show ?thesis using graph_edges_exact [OF demo_ok demo_roads, of demo_settings] by blast
qed

text \<open>
  C34: A query from an unknown stop throws \<^verbatim>\<open>std::logic_error\<close>; one to an unknown stop throws
  \<^verbatim>\<open>std::out_of_range\<close> (from \<^verbatim>\<open>at\<close>): the code checks only the first.
\<close>

theorem unknown_stop_throws:
  assumes "cat_ok db" and "roads_known db" and "bus_velocity rs \<noteq> 0" and "transport_router_new rs db = Inr r"
  shows "if f \<notin> set (snames db) then get_route_info r f t = Inl (Logic_error ''there is no starting stop'')
    else if t \<notin> set (snames db) then get_route_info r f t = Inl Out_of_range
    else \<exists>x. get_route_info r f t = Inr x"
proof -
  have ok: "router_ok db rs r" using transport_router_new_ok [OF assms(1-3)] assms(4) by simp
  have "\<exists>x. get_route_info r f t = Inr x" if f: "f \<in> set (snames db)" and t: "t \<in> set (snames db)"
  proof -
    obtain i where i: "i < n_stops db" "stop_n db i = f" by (rule snames_index [OF f])
    obtain j where j: "j < n_stops db" "stop_n db j = t" by (rule snames_index [OF t])
    from get_route_info_ok [OF assms(1) ok i(1) j(1)] i j show ?thesis by (auto split: sum.splits)
  qed
  then show ?thesis using get_route_info_unknown [OF assms(1) ok] by simp
qed

lemma unknown_stop_throws_witness:
  "\<exists>r. transport_router_new demo_settings demo_catalogue = Inr r \<and> get_route_info r ''A'' ''Z'' = Inl Out_of_range"
proof -
  obtain r where r: "transport_router_new demo_settings demo_catalogue = Inr r"
    using transport_router_new_ok [OF demo_ok demo_roads demo_velocity] by blast
  from unknown_stop_throws [OF demo_ok demo_roads demo_velocity this, of "''A''" "''Z''"] r
  show ?thesis by (simp add: demo_names)
qed

text \<open>
  C9: A router built from a catalogue, saved and loaded again answers every query as before,
  whatever the orders in which the unordered maps are traversed, as long as vertex and edge ids fit
  32 bits.
\<close>

theorem router_round_trip:
  assumes "cat_ok db" and "roads_known db" and "bus_velocity rs \<noteq> 0" and "transport_router_new rs db = Inr r"
    and "fits r" and "orders_ok ord"
  shows "\<exists>p r'. save_transport_router ord db r = Inr p \<and> deserialize_transport_router ord p db = Inr r' \<and>
    (\<forall>f t. get_route_info r' f t = get_route_info r f t) \<and> tr_settings r' = rs"
proof -
  have ok: "router_ok db rs r" using transport_router_new_ok [OF assms(1-3)] assms(4) by simp
  show ?thesis
    using deserialize_saved_router [OF assms(1) ok assms(5,6)] router_okD(8) [OF ok] by metis
qed

definition demo_orders :: map_orders where
  "demo_orders = \<lparr>ord_vertexs = rev, ord_info = rev, ord_proto_vertexs = rev, ord_proto_info = rev\<rparr>"

lemma demo_orders_ok: "orders_ok demo_orders"
  by (simp add: orders_ok_def demo_orders_def)

lemma demo_fits:
  assumes "router_ok demo_catalogue demo_settings r"
  shows "fits r"
proof -
  have "length (all_items demo_catalogue demo_settings) = 4"
    by (simp add: all_items_def waits_def bus_rides_def runs_def demo_catalogue_def)
  then show ?thesis using router_okD(1,2) [OF assms] by (simp add: fits_def demo_stops)
qed

lemma router_round_trip_witness:
  "\<exists>r p r'. transport_router_new demo_settings demo_catalogue = Inr r \<and>
     save_transport_router demo_orders demo_catalogue r = Inr p \<and>
     deserialize_transport_router demo_orders p demo_catalogue = Inr r' \<and>
     get_route_info r' ''A'' ''B'' = get_route_info r ''A'' ''B''"
proof -
  obtain r where r: "transport_router_new demo_settings demo_catalogue = Inr r"
    "router_ok demo_catalogue demo_settings r"
    using transport_router_new_ok [OF demo_ok demo_roads demo_velocity] by blast
  from router_round_trip [OF demo_ok demo_roads demo_velocity r(1) demo_fits [OF r(2)] demo_orders_ok] r(1)
  show ?thesis by blast
qed

text \<open>
  C37: The loaded graph is not the saved one: every edge comes back as a loop at its source, for
  \<^verbatim>\<open>SaveGraphToProto\<close> stores \<^verbatim>\<open>edge.from\<close> as the target.
\<close>

theorem saved_targets_lost:
  assumes "cat_ok db" and "roads_known db" and "bus_velocity rs \<noteq> 0" and "transport_router_new rs db = Inr r"
    and "fits r" and "orders_ok ord" and "all_stops db \<noteq> []"
  shows "\<exists>p r'. save_transport_router ord db r = Inr p \<and> deserialize_transport_router ord p db = Inr r' \<and>
    (\<forall>e \<in> set (edges (graph_of_stops r')). edge_to e = edge_from e) \<and> graph_of_stops r' \<noteq> graph_of_stops r"
proof -
  have ok: "router_ok db rs r" using transport_router_new_ok [OF assms(1-3)] assms(4) by simp
  obtain p r' where pr: "save_transport_router ord db r = Inr p" "deserialize_transport_router ord p db = Inr r'"
    "graph_of_stops r' = retargeted (graph_of_stops r)"
    using deserialize_saved_router [OF assms(1) ok assms(5,6)] by blast
  have loops: "\<forall>e \<in> set (edges (graph_of_stops r')). edge_to e = edge_from e" by (simp add: pr(3) retargeted_def)
  have "(\<lparr>edge_from = 2 * 0, edge_to = 2 * 0 + 1, edge_weight = wait_time rs\<rparr>, wait_item db rs 0) \<in> set (all_items db rs)"
    using assms(7) unfolding set_all_items by blast
  then have "\<lparr>edge_from = 0, edge_to = 1, edge_weight = wait_time rs\<rparr> \<in> set (edges (graph_of_stops r))"
    using router_okD(1) [OF ok] by force
  with loops have "graph_of_stops r' \<noteq> graph_of_stops r" by force
  with pr loops show ?thesis by blast
qed

lemma saved_targets_lost_witness:
  "\<exists>r p r'. transport_router_new demo_settings demo_catalogue = Inr r \<and>
     save_transport_router demo_orders demo_catalogue r = Inr p \<and>
     deserialize_transport_router demo_orders p demo_catalogue = Inr r' \<and> graph_of_stops r' \<noteq> graph_of_stops r"
proof -
  obtain r where r: "transport_router_new demo_settings demo_catalogue = Inr r"
    "router_ok demo_catalogue demo_settings r"
    using transport_router_new_ok [OF demo_ok demo_roads demo_velocity] by blast
  have "all_stops demo_catalogue \<noteq> []" by (simp add: demo_catalogue_def)
  from saved_targets_lost [OF demo_ok demo_roads demo_velocity r(1) demo_fits [OF r(2)] demo_orders_ok this] r(1)
  show ?thesis by blast
qed

end
