(* ===== verification/Svg.thy ===== *)
theory Svg
  imports Decimal
begin

text \<open>
  \<^verbatim>\<open>svg.h\<close> and \<^verbatim>\<open>svg.cpp\<close>: the SVG primitives, their fluent setters and the printing of a document.
  An output stream is the text written to it. The template \<^verbatim>\<open>PathProps<Owner>\<close> is the record
  \<open>path_props\<close> the primitives extend, so its setters work on each of them. The setters' default
  arguments are the definitions \<open>none_color\<close>, \<open>Cap_Round\<close> and \<open>Join_Round\<close>.
\<close>

record rgb =
  red :: "8 word"
  green :: "8 word"
  blue :: "8 word"

record rgba = rgb +
  opacity :: double

datatype color = Mono | Color_name string | Rgb_color rgb | Rgba_color rgba

definition none_color :: color where
  "none_color = Color_name ''none''"

datatype stroke_line_cap = Cap_Butt | Cap_Round | Cap_Square

datatype stroke_line_join = Join_Arcs | Join_Bevel | Join_Miter | Join_Miter_Clip | Join_Round

section \<open>Output operators\<close>

fun cap_str :: "stroke_line_cap \<Rightarrow> string" where
  "cap_str Cap_Butt = ''butt''"
| "cap_str Cap_Round = ''round''"
| "cap_str Cap_Square = ''square''"

fun join_str :: "stroke_line_join \<Rightarrow> string" where
  "join_str Join_Arcs = ''arcs''"
| "join_str Join_Bevel = ''bevel''"
| "join_str Join_Miter = ''miter''"
| "join_str Join_Miter_Clip = ''miter-clip''"
| "join_str Join_Round = ''round''"

definition byte_str :: "8 word \<Rightarrow> string" where
  "byte_str w = dec (unat w)"

definition rgb_str :: "rgb \<Rightarrow> string" where
  "rgb_str c = ''rgb('' @ byte_str (red c) @ '','' @ byte_str (green c) @ '','' @ byte_str (blue c) @ '')''"

definition rgba_str :: "rgba \<Rightarrow> string" where
  "rgba_str c = ''rgba('' @ byte_str (red c) @ '','' @ byte_str (green c) @ '','' @ byte_str (blue c) @
     '','' @ double_str (opacity c) @ '')''"

fun color_str :: "color \<Rightarrow> string" where
  "color_str Mono = ''none''"
| "color_str (Rgb_color c) = rgb_str c"
| "color_str (Rgba_color c) = rgba_str c"
| "color_str (Color_name s) = s"

section \<open>PathProps\<close>

record path_props =
  fill_color :: color
  stroke_color :: color
  stroke_width :: "double option"
  stroke_cap :: "stroke_line_cap option"
  stroke_join :: "stroke_line_join option"

definition set_fill_color :: "color \<Rightarrow> 'a path_props_scheme \<Rightarrow> 'a path_props_scheme" where
  "set_fill_color c p = p\<lparr>fill_color := c\<rparr>"

definition set_stroke_color :: "color \<Rightarrow> 'a path_props_scheme \<Rightarrow> 'a path_props_scheme" where
  "set_stroke_color c p = p\<lparr>stroke_color := c\<rparr>"

definition set_stroke_width :: "double \<Rightarrow> 'a path_props_scheme \<Rightarrow> 'a path_props_scheme" where
  "set_stroke_width w p = p\<lparr>stroke_width := Some w\<rparr>"

definition set_stroke_line_cap :: "stroke_line_cap \<Rightarrow> 'a path_props_scheme \<Rightarrow> 'a path_props_scheme" where
  "set_stroke_line_cap c p = p\<lparr>stroke_cap := Some c\<rparr>"

definition set_stroke_line_join :: "stroke_line_join \<Rightarrow> 'a path_props_scheme \<Rightarrow> 'a path_props_scheme" where
  "set_stroke_line_join j p = p\<lparr>stroke_join := Some j\<rparr>"

text \<open>An attribute: \<open> name="value"\<close>.\<close>

definition attr :: "string \<Rightarrow> string \<Rightarrow> string" where
  "attr name v = '' '' @ name @ ''='' @ [CHR 0x22] @ v @ [CHR 0x22]"

definition render_attrs :: "'a path_props_scheme \<Rightarrow> string" where
  "render_attrs p =
     (if fill_color p \<noteq> Mono then attr ''fill'' (color_str (fill_color p)) else []) @
     (if stroke_color p \<noteq> Mono then attr ''stroke'' (color_str (stroke_color p)) else []) @
     (case stroke_width p of Some w \<Rightarrow> attr ''stroke-width'' (double_str w) | None \<Rightarrow> []) @
     (case stroke_cap p of Some c \<Rightarrow> attr ''stroke-linecap'' (cap_str c) | None \<Rightarrow> []) @
     (case stroke_join p of Some j \<Rightarrow> attr ''stroke-linejoin'' (join_str j) | None \<Rightarrow> [])"

section \<open>Points and primitives\<close>

record point =
  p_x :: double
  p_y :: double

definition point_default :: point where
  "point_default = \<lparr>p_x = 0, p_y = 0\<rparr>"

record circle = path_props +
  center :: point
  radius :: double

record polyline = path_props +
  points :: "point list"

record text_obj = path_props +
  t_pos :: point
  t_offset :: point
  t_size :: "32 word"
  font_family :: string
  font_weight :: string
  t_data :: string

definition props_default :: path_props where
  "props_default = \<lparr>fill_color = Mono, stroke_color = Mono, stroke_width = None, stroke_cap = None,
     stroke_join = None\<rparr>"

definition circle_new :: circle where
  "circle_new = path_props.extend props_default \<lparr>center = point_default, radius = 1\<rparr>"

definition polyline_new :: polyline where
  "polyline_new = path_props.extend props_default \<lparr>points = []\<rparr>"

definition text_new :: text_obj where
  "text_new = path_props.extend props_default
     \<lparr>t_pos = point_default, t_offset = point_default, t_size = 1, font_family = [], font_weight = [], t_data = []\<rparr>"

definition set_center :: "point \<Rightarrow> circle \<Rightarrow> circle" where
  "set_center p c = c\<lparr>center := p\<rparr>"

definition set_radius :: "double \<Rightarrow> circle \<Rightarrow> circle" where
  "set_radius r c = c\<lparr>radius := r\<rparr>"

definition add_point :: "point \<Rightarrow> polyline \<Rightarrow> polyline" where
  "add_point p l = l\<lparr>points := points l @ [p]\<rparr>"

definition set_position :: "point \<Rightarrow> text_obj \<Rightarrow> text_obj" where
  "set_position p t = t\<lparr>t_pos := p\<rparr>"

definition set_offset :: "point \<Rightarrow> text_obj \<Rightarrow> text_obj" where
  "set_offset p t = t\<lparr>t_offset := p\<rparr>"

definition set_font_size :: "32 word \<Rightarrow> text_obj \<Rightarrow> text_obj" where
  "set_font_size s t = t\<lparr>t_size := s\<rparr>"

definition set_font_family :: "string \<Rightarrow> text_obj \<Rightarrow> text_obj" where
  "set_font_family s t = t\<lparr>font_family := s\<rparr>"

definition set_font_weight :: "string \<Rightarrow> text_obj \<Rightarrow> text_obj" where
  "set_font_weight s t = t\<lparr>font_weight := s\<rparr>"

section \<open>SetData\<close>

definition characters_to_replace :: "(char \<times> string) list" where
  "characters_to_replace = [(CHR ''&'', ''&amp;''), (CHR 0x22, ''&quot;''), (CHR 0x27, ''&apos;''),
     (CHR ''<'', ''&lt;''), (CHR ''>'', ''&gt;'')]"

text \<open>\<^verbatim>\<open>data.find(c, pos)\<close>\<close>

definition find_char :: "char \<Rightarrow> string \<Rightarrow> nat \<Rightarrow> nat option" where
  "find_char c s start = find (\<lambda>i. s ! i = c) [start..<length s]"

text \<open>
  The loop of \<^verbatim>\<open>SetData\<close> for one character: the search starts behind \<open>pos\<close>, which is \<open>0\<close> at first.
\<close>

lemma find_char_Some: "find_char c s start = Some i \<longleftrightarrow>
    start \<le> i \<and> i < length s \<and> s ! i = c \<and> (\<forall>j. start \<le> j \<longrightarrow> j < i \<longrightarrow> s ! j \<noteq> c)"
proof -
  have "find_char c s start = Some i \<longleftrightarrow> (\<exists>k < length s - start. s ! (start + k) = c \<and> i = start + k \<and>
      (\<forall>j < k. s ! (start + j) \<noteq> c))"
    unfolding find_char_def find_Some_iff by (auto simp: nth_upt)
  also have "\<dots> \<longleftrightarrow> start \<le> i \<and> i < length s \<and> s ! i = c \<and> (\<forall>j. start \<le> j \<longrightarrow> j < i \<longrightarrow> s ! j \<noteq> c)"
    by (auto simp: le_iff_add)
  finally show ?thesis .
qed

partial_function (option) replace_char :: "char \<Rightarrow> string \<Rightarrow> string \<Rightarrow> nat \<Rightarrow> string option" where
  "replace_char c to s pos =
     (case find_char c s (pos + 1) of
        None \<Rightarrow> Some s
      | Some pos' \<Rightarrow> replace_char c to (take pos' s @ to @ drop (pos' + 1) s) pos')"

definition set_data :: "string \<Rightarrow> text_obj \<Rightarrow> text_obj result" where
  "set_data s t =
     bindR (foldR (\<lambda>s (symvol, to). case replace_char symvol to s 0 of
                     None \<Rightarrow> Inl Diverges | Some s' \<Rightarrow> Inr s') s characters_to_replace)
       (\<lambda>s. Inr (t\<lparr>t_data := s\<rparr>))"

section \<open>Rendering\<close>

datatype svg_object = Circle circle | Polyline polyline | Text text_obj

text \<open>\<^verbatim>\<open>RenderContext\<close> without its stream.\<close>

record render_context =
  rc_indent_step :: nat
  rc_indent :: nat

definition svg_indented :: "render_context \<Rightarrow> render_context" where
  "svg_indented rc = rc\<lparr>rc_indent := rc_indent rc + rc_indent_step rc\<rparr>"

definition render_indent :: "render_context \<Rightarrow> string" where
  "render_indent rc = replicate (rc_indent rc) CHR '' ''"

definition point_str :: "point \<Rightarrow> string" where
  "point_str p = double_str (p_x p) @ '','' @ double_str (p_y p)"

definition render_circle :: "circle \<Rightarrow> string" where
  "render_circle c = ''<circle'' @ attr ''cx'' (double_str (p_x (center c))) @
     attr ''cy'' (double_str (p_y (center c))) @ attr ''r'' (double_str (radius c)) @
     render_attrs c @ ''/>''"

fun render_points :: "point list \<Rightarrow> string" where
  "render_points [] = []"
| "render_points (p # ps) = point_str p @ concat (map (\<lambda>q. '' '' @ point_str q) ps)"

definition render_polyline :: "polyline \<Rightarrow> string" where
  "render_polyline l = ''<polyline'' @ attr ''points'' (render_points (points l)) @ render_attrs l @ ''/>''"

definition render_text :: "text_obj \<Rightarrow> string" where
  "render_text t = ''<text'' @ render_attrs t @
     attr ''x'' (double_str (p_x (t_pos t))) @ attr ''y'' (double_str (p_y (t_pos t))) @
     attr ''dx'' (double_str (p_x (t_offset t))) @ attr ''dy'' (double_str (p_y (t_offset t))) @
     attr ''font-size'' (dec (unat (t_size t))) @
     (if font_family t = [] then [] else attr ''font-family'' (font_family t)) @
     (if font_weight t = [] then [] else attr ''font-weight'' (font_weight t)) @
     ''>'' @ t_data t @ ''</text>''"

fun render_object :: "svg_object \<Rightarrow> string" where
  "render_object (Circle c) = render_circle c"
| "render_object (Polyline l) = render_polyline l"
| "render_object (Text t) = render_text t"

definition newline :: string where
  "newline = [CHR 0x0A]"

definition svg_render :: "render_context \<Rightarrow> svg_object \<Rightarrow> string" where
  "svg_render rc obj = render_indent rc @ render_object obj @ newline"

type_synonym svg_document = "svg_object list"

definition add_ptr :: "svg_object \<Rightarrow> svg_document \<Rightarrow> svg_document" where
  "add_ptr obj d = d @ [obj]"

definition svg_header :: string where
  "svg_header = ''<?xml'' @ attr ''version'' ''1.0'' @ attr ''encoding'' ''UTF-8'' @ '' ?>'' @ newline @
     ''<svg'' @ attr ''xmlns'' ''http://www.w3.org/2000/svg'' @ attr ''version'' ''1.1'' @ ''>'' @ newline"

definition render_document :: "svg_document \<Rightarrow> string" where
  "render_document d =
     (let context_rc = \<lparr>rc_indent_step = 2, rc_indent = 2\<rparr>
      in svg_header @ concat (map (svg_render context_rc) d) @ ''</svg>'')"

end
