(* ===== verification/Map_Render.thy ===== *)
theory Map_Render
  imports Svg Catalogue
begin

text \<open>
  \<^verbatim>\<open>map_renderer.h\<close> and \<^verbatim>\<open>map_renderer.cpp\<close>: the projection of coordinates to the canvas, the drawing
  of routes, stops and their names, and the settings' serialisation with the messages of
  \<^verbatim>\<open>map_renderer.proto\<close> and \<^verbatim>\<open>svg.proto\<close>. An \<^verbatim>\<open>int\<close> is its 32 bits.
\<close>

section \<open>SphereProjector\<close>

definition epsilon :: double where
  "epsilon = double_of_decimal False 1 (-6)"

definition is_zero :: "double \<Rightarrow> bool" where
  "is_zero v \<longleftrightarrow> abs_double v < epsilon"

text \<open>
  \<^verbatim>\<open>std::minmax_element\<close> on a non-empty range: the first smallest and the last largest element.
\<close>

definition minmax_element :: "('a \<Rightarrow> double) \<Rightarrow> 'a \<Rightarrow> 'a list \<Rightarrow> 'a \<times> 'a" where
  "minmax_element key x xs =
     foldl (\<lambda>(lo, hi) y. (if key y < key lo then y else lo, if key y < key hi then hi else y)) (x, x) xs"

record sphere_projector =
  sp_padding :: double
  min_lon :: double
  max_lat :: double
  zoom_coeff :: double

text \<open>\<^verbatim>\<open>std::min(a, b)\<close> is \<^verbatim>\<open>b < a ? b : a\<close>.\<close>

definition zoom_of :: "double option \<Rightarrow> double option \<Rightarrow> double" where
  "zoom_of width_zoom height_zoom =
     (case (width_zoom, height_zoom) of
        (Some w, Some h) \<Rightarrow> min_double w h
      | (Some w, None) \<Rightarrow> w
      | (None, Some h) \<Rightarrow> h
      | (None, None) \<Rightarrow> 0)"

definition axis_zoom :: "double \<Rightarrow> double \<Rightarrow> double \<Rightarrow> double option" where
  "axis_zoom extent padding width_c =
     (if \<not> is_zero width_c then Some ((extent - double_of_int 2 * padding) / width_c) else None)"

definition sphere_projector_new :: "coordinates list \<Rightarrow> double \<Rightarrow> double \<Rightarrow> double \<Rightarrow> sphere_projector" where
  "sphere_projector_new cs max_width max_height padding =
     (case cs of
        [] \<Rightarrow> \<lparr>sp_padding = padding, min_lon = 0, max_lat = 0, zoom_coeff = 0\<rparr>
      | c # rest \<Rightarrow>
          let (left_c, right_c) = minmax_element lng c rest;
              (bottom_c, top_c) = minmax_element lat c rest
          in \<lparr>sp_padding = padding, min_lon = lng left_c, max_lat = lat top_c,
              zoom_coeff = zoom_of (axis_zoom max_width padding (lng right_c - lng left_c))
                             (axis_zoom max_height padding (lat top_c - lat bottom_c))\<rparr>)"

definition project :: "sphere_projector \<Rightarrow> coordinates \<Rightarrow> point" where
  "project sp c = \<lparr>p_x = (lng c - min_lon sp) * zoom_coeff sp + sp_padding sp,
     p_y = (max_lat sp - lat c) * zoom_coeff sp + sp_padding sp\<rparr>"

section \<open>Settings\<close>

record map_size =
  ms_width :: double
  ms_height :: double
  ms_padding :: double

record label =
  font_size :: "32 word"
  label_offset :: "double \<times> double"

record element_size =
  line_width :: double
  stop_radius :: double

record map_settings =
  size_of_map :: map_size
  element_sizes :: element_size
  bus_label :: label
  stop_label :: label
  underlayer_color :: color
  underlayer_width :: double
  color_palette :: "color list"

definition map_settings_new :: "map_size \<Rightarrow> element_size \<Rightarrow> label \<Rightarrow> label \<Rightarrow> color \<Rightarrow> double \<Rightarrow> color list \<Rightarrow>
    map_settings" where
  "map_settings_new sz es bl sl uc uw cp =
     \<lparr>size_of_map = sz, element_sizes = es, bus_label = bl, stop_label = sl, underlayer_color = uc,
      underlayer_width = uw, color_palette = cp\<rparr>"

definition map_settings_default :: map_settings where
  "map_settings_default = \<lparr>size_of_map = \<lparr>ms_width = 0, ms_height = 0, ms_padding = 0\<rparr>,
     element_sizes = \<lparr>line_width = 0, stop_radius = 0\<rparr>,
     bus_label = \<lparr>font_size = 0, label_offset = (0, 0)\<rparr>,
     stop_label = \<lparr>font_size = 0, label_offset = (0, 0)\<rparr>,
     underlayer_color = Mono, underlayer_width = 0, color_palette = []\<rparr>"

definition offset_point :: "label \<Rightarrow> point" where
  "offset_point l = \<lparr>p_x = fst (label_offset l), p_y = snd (label_offset l)\<rparr>"

text \<open>\<^verbatim>\<open>color_palette_[color_counter % color_palette_.size()]\<close>; division by zero is undefined.\<close>

definition palette_color :: "map_settings \<Rightarrow> nat \<Rightarrow> color result" where
  "palette_color ms color_counter =
     (if color_palette ms = [] then Inl Undefined_behaviour
      else vec_idx (color_palette ms) (color_counter mod length (color_palette ms)))"

section \<open>MapRender\<close>

text \<open>A \<^verbatim>\<open>MapRender\<close> holds its settings and nothing else.\<close>

type_synonym map_render = map_settings

definition map_render_new :: "map_settings \<Rightarrow> map_render" where
  "map_render_new setings = setings"

definition get_setings :: "map_render \<Rightarrow> map_settings" where
  "get_setings r = r"

definition set_settings :: "map_settings \<Rightarrow> map_render \<Rightarrow> map_render" where
  "set_settings setings r = setings"

text \<open>\<^verbatim>\<open>pop_back\<close> of an empty deque is undefined.\<close>

definition way_stops :: "bus \<Rightarrow> nat list result" where
  "way_stops b =
     (if is_loop_trip b then Inr (bus_stops b)
      else if bus_stops b = [] then Inl Undefined_behaviour
      else Inr (bus_stops b @ rev (butlast (bus_stops b))))"

definition render_way :: "catalogue \<Rightarrow> map_settings \<Rightarrow> bus \<Rightarrow> nat \<Rightarrow> sphere_projector \<Rightarrow> polyline result" where
  "render_way db ms b color_counter sp =
     bindR (palette_color ms color_counter) (\<lambda>col.
       let vereda = set_stroke_line_join Join_Round (set_stroke_line_cap Cap_Round
             (set_fill_color none_color (set_stroke_color col
               (set_stroke_width (line_width (element_sizes ms)) polyline_new))))
       in bindR (way_stops b) (\<lambda>ss.
          foldR (\<lambda>v i. bindR (vec_idx (all_stops db) i) (\<lambda>s.
            Inr (add_point (project sp (stop_coordinates s)) v))) vereda ss))"

definition underlayer :: "map_settings \<Rightarrow> text_obj \<Rightarrow> text_obj" where
  "underlayer ms t = set_stroke_line_join Join_Round (set_stroke_line_cap Cap_Round
     (set_stroke_width (underlayer_width ms) (set_stroke_color (underlayer_color ms)
       (set_fill_color (underlayer_color ms) t))))"

definition place_label :: "label \<Rightarrow> point \<Rightarrow> text_obj \<Rightarrow> text_obj" where
  "place_label l p t = set_font_family ''Verdana'' (set_font_size (font_size l)
     (set_offset (offset_point l) (set_position p t)))"

definition render_name_bus :: "map_settings \<Rightarrow> string \<Rightarrow> nat \<Rightarrow> point \<Rightarrow> (text_obj \<times> text_obj) result" where
  "render_name_bus ms name_bus color_counter p =
     bindR (set_data name_bus text_new) (\<lambda>background.
       let background = set_font_weight ''bold'' (place_label (bus_label ms) p (underlayer ms background))
       in bindR (set_data name_bus text_new) (\<lambda>title.
          bindR (palette_color ms color_counter) (\<lambda>col.
            let title = set_font_weight ''bold'' (place_label (bus_label ms) p (set_fill_color col title))
            in Inr (background, title))))"

definition render_stop :: "map_settings \<Rightarrow> point \<Rightarrow> circle" where
  "render_stop ms p = set_fill_color (Color_name ''white'')
     (set_radius (stop_radius (element_sizes ms)) (set_center p circle_new))"

definition render_name_stop :: "map_settings \<Rightarrow> string \<Rightarrow> point \<Rightarrow> (text_obj \<times> text_obj) result" where
  "render_name_stop ms name_stop p =
     bindR (set_data name_stop text_new) (\<lambda>background.
       let background = place_label (stop_label ms) p (underlayer ms background)
       in bindR (set_data name_stop text_new) (\<lambda>title.
            let title = place_label (stop_label ms) p (set_fill_color (Color_name ''black'') title)
            in Inr (background, title)))"

section \<open>Serialisation\<close>

record proto_rgb =
  prgb_red :: "32 word"
  prgb_green :: "32 word"
  prgb_blue :: "32 word"

record proto_rgba = proto_rgb +
  prgb_opacity :: double

text \<open>A \<^verbatim>\<open>oneof\<close>: nothing set, or one of the alternatives.\<close>

datatype proto_color = PC_unset | PC_mono bool | PC_str string | PC_rgb proto_rgb | PC_rgba proto_rgba

record proto_map_size =
  pms_width :: double
  pms_height :: double
  pms_padding :: double

record proto_element_size =
  pes_line_width :: double
  pes_stop_radius :: double

record proto_label =
  pl_font_size :: "32 word"
  pl_offset :: "double list"

record proto_map_settings =
  pm_size :: proto_map_size
  pm_element_size :: proto_element_size
  pm_bus_label :: proto_label
  pm_stop_label :: proto_label
  pm_underlayer_color :: proto_color
  pm_underlayer_width :: double
  pm_color_palette :: "proto_color list"

definition set_proto_rgb :: "rgb \<Rightarrow> proto_rgb" where
  "set_proto_rgb c = \<lparr>prgb_red = ucast (red c), prgb_green = ucast (green c), prgb_blue = ucast (blue c)\<rparr>"

definition set_proto_rgba :: "rgba \<Rightarrow> proto_rgba" where
  "set_proto_rgba c = \<lparr>prgb_red = ucast (red c), prgb_green = ucast (green c), prgb_blue = ucast (blue c),
     prgb_opacity = opacity c\<rparr>"

fun set_proto_color :: "color \<Rightarrow> proto_color" where
  "set_proto_color Mono = PC_mono True"
| "set_proto_color (Color_name s) = PC_str s"
| "set_proto_color (Rgb_color c) = PC_rgb (set_proto_rgb c)"
| "set_proto_color (Rgba_color c) = PC_rgba (set_proto_rgba c)"

definition set_svg_rgb :: "proto_rgb \<Rightarrow> rgb" where
  "set_svg_rgb p = \<lparr>red = ucast (prgb_red p), green = ucast (prgb_green p), blue = ucast (prgb_blue p)\<rparr>"

definition set_svg_rgba :: "proto_rgba \<Rightarrow> rgba" where
  "set_svg_rgba p = \<lparr>red = ucast (prgb_red p), green = ucast (prgb_green p), blue = ucast (prgb_blue p),
     opacity = prgb_opacity p\<rparr>"

fun set_svg_color :: "proto_color \<Rightarrow> color" where
  "set_svg_color (PC_mono _) = Mono"
| "set_svg_color (PC_str s) = Color_name s"
| "set_svg_color (PC_rgb p) = Rgb_color (set_svg_rgb p)"
| "set_svg_color (PC_rgba p) = Rgba_color (set_svg_rgba p)"
| "set_svg_color PC_unset = Mono"

definition save_map_size :: "map_size \<Rightarrow> proto_map_size" where
  "save_map_size z = \<lparr>pms_width = ms_width z, pms_height = ms_height z, pms_padding = ms_padding z\<rparr>"

definition load_map_size :: "proto_map_size \<Rightarrow> map_size" where
  "load_map_size p = \<lparr>ms_width = pms_width p, ms_height = pms_height p, ms_padding = pms_padding p\<rparr>"

definition save_element_size :: "element_size \<Rightarrow> proto_element_size" where
  "save_element_size z = \<lparr>pes_line_width = line_width z, pes_stop_radius = stop_radius z\<rparr>"

definition load_element_size :: "proto_element_size \<Rightarrow> element_size" where
  "load_element_size p = \<lparr>line_width = pes_line_width p, stop_radius = pes_stop_radius p\<rparr>"

definition save_label :: "label \<Rightarrow> proto_label" where
  "save_label l = \<lparr>pl_font_size = font_size l, pl_offset = [fst (label_offset l), snd (label_offset l)]\<rparr>"

definition save_map_render :: "map_settings \<Rightarrow> proto_map_settings" where
  "save_map_render ms = \<lparr>pm_size = save_map_size (size_of_map ms),
     pm_element_size = save_element_size (element_sizes ms),
     pm_bus_label = save_label (bus_label ms), pm_stop_label = save_label (stop_label ms),
     pm_underlayer_color = set_proto_color (underlayer_color ms),
     pm_underlayer_width = underlayer_width ms,
     pm_color_palette = map set_proto_color (color_palette ms)\<rparr>"

definition load_label :: "proto_label \<Rightarrow> label result" where
  "load_label p =
     bindR (vec_idx (pl_offset p) 0) (\<lambda>x. bindR (vec_idx (pl_offset p) 1) (\<lambda>y.
       Inr \<lparr>font_size = pl_font_size p, label_offset = (x, y)\<rparr>))"

definition deserialize_map_render :: "proto_map_settings \<Rightarrow> map_settings result" where
  "deserialize_map_render p =
     bindR (load_label (pm_bus_label p)) (\<lambda>bl. bindR (load_label (pm_stop_label p)) (\<lambda>sl.
       Inr \<lparr>size_of_map = load_map_size (pm_size p), element_sizes = load_element_size (pm_element_size p),
            bus_label = bl, stop_label = sl,
            underlayer_color = set_svg_color (pm_underlayer_color p),
            underlayer_width = pm_underlayer_width p,
            color_palette = map set_svg_color (pm_color_palette p)\<rparr>))"

end
