(* ===== verification/Request_Handler.thy ===== *)
theory Request_Handler
  imports Map_Render Router_Proto Catalogue_Proto
begin

text \<open>
  \<^verbatim>\<open>request_handler.h\<close>, \<^verbatim>\<open>request_handler.cpp\<close> and \<^verbatim>\<open>serialization.cpp\<close>: the three statistics
  requests over the catalogue, the renderer and the router, and the saved base as one message.
  What is not the repository's code is gathered in \<open>platform\<close>: the C library's functions, the
  traversal orders of unordered maps and protobuf's wire format.
\<close>

record common =
  c_map_settings :: proto_map_settings
  c_catalogue :: proto_catalogue
  c_router :: proto_transport_router

record platform =
  pf_libm :: libm
  pf_buses_order :: "(string, nat) umap \<Rightarrow> (string \<times> nat) list"
  pf_lengths_order :: "(nat \<times> nat, 32 word) umap \<Rightarrow> ((nat \<times> nat) \<times> 32 word) list"
  pf_router_orders :: map_orders
  pf_serialize :: "common \<Rightarrow> string"
  pf_parse :: "string \<Rightarrow> common option"

text \<open>The router is a shared pointer, which may be null.\<close>

record request_handler =
  rh_db :: catalogue
  rh_render :: map_settings
  rh_router :: "transport_router option"

definition request_handler_new :: "catalogue \<Rightarrow> map_settings \<Rightarrow> transport_router option \<Rightarrow> request_handler" where
  "request_handler_new db ms router = \<lparr>rh_db = db, rh_render = ms, rh_router = router\<rparr>"

definition get_route_stat :: "request_handler \<Rightarrow> string \<Rightarrow> string \<Rightarrow> trip_info option result" where
  "get_route_stat h from_n to_n =
     (case rh_router h of None \<Rightarrow> Inl Undefined_behaviour | Some r \<Rightarrow> get_route_info r from_n to_n)"

definition get_bus_stat :: "platform \<Rightarrow> request_handler \<Rightarrow> string \<Rightarrow> bus_info result" where
  "get_bus_stat pf h bus_n = get_info_bus (pf_libm pf) (rh_db h) bus_n"

section \<open>RenderMap\<close>

text \<open>\<^verbatim>\<open>std::set<std::string_view>::insert\<close>\<close>

definition set_insert :: "string \<Rightarrow> string list \<Rightarrow> string list" where
  "set_insert x xs = (if x \<in> set xs then xs else insort x xs)"

definition collect_stop :: "catalogue \<Rightarrow> string \<Rightarrow> coordinates list \<times> string list \<times> string list \<Rightarrow> nat \<Rightarrow>
    (coordinates list \<times> string list \<times> string list) result" where
  "collect_stop db name_bus st i =
     (let (cs, set_name_bus, set_name_stop) = st in
      bindR (vec_idx (all_stops db) i) (\<lambda>s.
        Inr (cs @ [stop_coordinates s], set_insert name_bus set_name_bus,
             set_insert (stop_name s) set_name_stop)))"

definition collect_bus :: "catalogue \<Rightarrow> coordinates list \<times> string list \<times> string list \<Rightarrow> string \<times> nat \<Rightarrow>
    (coordinates list \<times> string list \<times> string list) result" where
  "collect_bus db st p =
     (let (name_bus, i) = p in
      bindR (vec_idx (all_buses db) i) (\<lambda>b. foldR (collect_stop db name_bus) st (bus_stops b)))"

definition draw_way :: "catalogue \<Rightarrow> map_settings \<Rightarrow> sphere_projector \<Rightarrow> svg_document \<times> nat \<Rightarrow> string \<Rightarrow>
    (svg_document \<times> nat) result" where
  "draw_way db ms sp st name_bus =
     (let (doc, color_counter) = st in
      bindR (get_bus db name_bus) (\<lambda>b.
      bindR (render_way db ms b color_counter sp) (\<lambda>vereda.
        Inr (add_ptr (Polyline vereda) doc, color_counter + 1))))"

definition draw_label :: "catalogue \<Rightarrow> map_settings \<Rightarrow> sphere_projector \<Rightarrow> string \<Rightarrow> nat \<Rightarrow> nat \<Rightarrow>
    svg_document \<Rightarrow> svg_document result" where
  "draw_label db ms sp name_bus color_counter i doc =
     bindR (vec_idx (all_stops db) i) (\<lambda>s.
     bindR (render_name_bus ms name_bus color_counter (project sp (stop_coordinates s))) (\<lambda>(a, b).
       Inr (add_ptr (Text b) (add_ptr (Text a) doc))))"

definition draw_bus_name :: "catalogue \<Rightarrow> map_settings \<Rightarrow> sphere_projector \<Rightarrow> svg_document \<times> nat \<Rightarrow> string \<Rightarrow>
    (svg_document \<times> nat) result" where
  "draw_bus_name db ms sp st name_bus =
     (let (doc, color_counter) = st in
      bindR (get_bus db name_bus) (\<lambda>b.
        let stops = bus_stops b in
        bindR (if is_loop_trip b then Inr True
               else bindR (vec_idx stops 0) (\<lambda>x. bindR (vec_idx stops (length stops - 1)) (\<lambda>y. Inr (x = y))))
          (\<lambda>one_label.
            if one_label
            then bindR (vec_idx stops 0) (\<lambda>x.
                 bindR (draw_label db ms sp name_bus color_counter x doc) (\<lambda>doc.
                   Inr (doc, color_counter + 1)))
            else bindR (vec_idx stops 0) (\<lambda>x. bindR (vec_idx stops (length stops - 1)) (\<lambda>y.
                 bindR (draw_label db ms sp name_bus color_counter x doc) (\<lambda>doc.
                 bindR (draw_label db ms sp name_bus color_counter y doc) (\<lambda>doc.
                   Inr (doc, color_counter + 1))))))))"

definition draw_stop :: "catalogue \<Rightarrow> map_settings \<Rightarrow> sphere_projector \<Rightarrow> svg_document \<Rightarrow> string \<Rightarrow>
    svg_document result" where
  "draw_stop db ms sp doc n =
     bindR (get_stop db n) (\<lambda>s.
       Inr (add_ptr (Circle (render_stop ms (project sp (stop_coordinates s)))) doc))"

definition draw_stop_name :: "catalogue \<Rightarrow> map_settings \<Rightarrow> sphere_projector \<Rightarrow> svg_document \<Rightarrow> string \<Rightarrow>
    svg_document result" where
  "draw_stop_name db ms sp doc n =
     bindR (get_stop db n) (\<lambda>s.
     bindR (render_name_stop ms n (project sp (stop_coordinates s))) (\<lambda>(a, b).
       Inr (add_ptr (Text b) (add_ptr (Text a) doc))))"

definition render_map :: "platform \<Rightarrow> request_handler \<Rightarrow> svg_document result" where
  "render_map pf h =
     (let db = rh_db h; ms = rh_render h in
      bindR (foldR (collect_bus db) ([], [], []) (pf_buses_order pf (buses_by_name db)))
        (\<lambda>(cs, set_name_bus, set_name_stop).
          let sp = sphere_projector_new cs (ms_width (size_of_map ms)) (ms_height (size_of_map ms))
                     (ms_padding (size_of_map ms)) in
          bindR (foldR (draw_way db ms sp) ([], 0) set_name_bus) (\<lambda>(doc, _).
          bindR (foldR (draw_bus_name db ms sp) (doc, 0) set_name_bus) (\<lambda>(doc, _).
          bindR (foldR (draw_stop db ms sp) doc set_name_stop) (\<lambda>doc.
            foldR (draw_stop_name db ms sp) doc set_name_stop)))))"

section \<open>Serialization and Deserialization\<close>

definition serialization :: "platform \<Rightarrow> catalogue \<Rightarrow> map_settings \<Rightarrow> transport_router \<Rightarrow> string result" where
  "serialization pf db mr tr =
     bindR (save_catalogue (pf_lengths_order pf) db) (\<lambda>c.
     bindR (save_transport_router (pf_router_orders pf) db tr) (\<lambda>r.
       Inr (pf_serialize pf \<lparr>c_map_settings = save_map_render mr, c_catalogue = c, c_router = r\<rparr>)))"

text \<open>A file that does not exist or does not parse leaves both arguments and yields no router.\<close>

definition deserialization :: "platform \<Rightarrow> catalogue \<Rightarrow> map_settings \<Rightarrow> string option \<Rightarrow>
    (catalogue \<times> map_settings \<times> transport_router option) result" where
  "deserialization pf db mr file =
     (case Option.bind file (pf_parse pf) of
        None \<Rightarrow> Inr (db, mr, None)
      | Some msg \<Rightarrow>
          bindR (deserialize_catalogue (c_catalogue msg)) (\<lambda>db.
          bindR (deserialize_map_render (c_map_settings msg)) (\<lambda>mr.
          bindR (deserialize_transport_router (pf_router_orders pf) (c_router msg) db) (\<lambda>r.
            Inr (db, mr, Some r)))))"

end
