(* ===== verification/Svg_Text.thy ===== *)
theory Svg_Text
  imports Svg
begin

text \<open>
  What \<^verbatim>\<open>Text::SetData\<close> computes. Its loop ends, since no replacement contains the replaced
  character again behind its first place, and it replaces every special character except one at
  the beginning of the text, where the search never looks.
\<close>

definition replaced :: "char \<Rightarrow> string \<Rightarrow> string \<Rightarrow> string" where
  "replaced c to s = concat (map (\<lambda>d. if d = c then to else [d]) s)"

lemma replaced_simps [simp]:
  "replaced c to [] = []" "replaced c to (d # s) = (if d = c then to else [d]) @ replaced c to s"
  "replaced c to (s @ t) = replaced c to s @ replaced c to t"
  by (simp_all add: replaced_def)

lemma replaced_none: "c \<notin> set s \<Longrightarrow> replaced c to s = s"
  by (induction s) auto

lemma find_char_None: "find_char c s start = None \<longleftrightarrow> c \<notin> set (drop start s)"
proof -
  have "find_char c s start = None \<longleftrightarrow> (\<forall>i. start \<le> i \<longrightarrow> i < length s \<longrightarrow> s ! i \<noteq> c)"
    by (auto simp: find_char_def find_None_iff)
  also have "\<dots> \<longleftrightarrow> (\<forall>k < length s - start. s ! (start + k) \<noteq> c)"
  proof (intro iffI allI impI)
    fix k assume "\<forall>i. start \<le> i \<longrightarrow> i < length s \<longrightarrow> s ! i \<noteq> c" "k < length s - start"
    then show "s ! (start + k) \<noteq> c" by simp
  next
    fix i assume a: "\<forall>k < length s - start. s ! (start + k) \<noteq> c" and i: "start \<le> i" "i < length s"
    show "s ! i \<noteq> c" using a [rule_format, of "i - start"] i by simp
  qed
  also have "\<dots> \<longleftrightarrow> c \<notin> set (drop start s)" by (auto simp: in_set_conv_nth)
  finally show ?thesis .
qed

lemma find_char_split:
  assumes "find_char c s start = Some i"
  obtains mid where "drop start s = mid @ c # drop (i + 1) s" and "c \<notin> set mid"
    and "take i s = take start s @ mid" and "i < length s"
proof -
  have i: "start \<le> i" "i < length s" "s ! i = c" "\<forall>j. start \<le> j \<longrightarrow> j < i \<longrightarrow> s ! j \<noteq> c"
    using assms unfolding find_char_Some by blast+
  define mid where "mid = take (i - start) (drop start s)"
  have "drop start s = mid @ drop i s" using i(1) by (simp add: mid_def) (metis append_take_drop_id drop_drop le_add_diff_inverse2)
  moreover have "drop i s = c # drop (i + 1) s" using i by (simp add: Cons_nth_drop_Suc flip: i(3))
  moreover have "c \<notin> set mid" using i by (auto simp: mid_def in_set_conv_nth)
  moreover have "take i s = take start s @ mid"
    using i(1) by (simp add: mid_def flip: take_add)
  ultimately show thesis using that i(2) by simp
qed

theorem replace_char_ok:
  assumes to: "to \<noteq> []" "c \<notin> set (tl to)"
  shows "replace_char c to s pos = Some (take (pos + 1) s @ replaced c to (drop (pos + 1) s))"
proof (induction "count_list (drop (pos + 1) s) c" arbitrary: s pos rule: less_induct)
  case less
  show ?case
  proof (cases "find_char c s (pos + 1)")
    case None
    then have "replaced c to (drop (pos + 1) s) = drop (pos + 1) s"
      unfolding find_char_None by (rule replaced_none)
    then show ?thesis using None by (simp add: replace_char.simps)
  next
    case (Some i)
    then obtain mid where mid: "drop (pos + 1) s = mid @ c # drop (i + 1) s" "c \<notin> set mid"
      "take i s = take (pos + 1) s @ mid" "i < length s" by (rule find_char_split)
    define s' where "s' = take i s @ to @ drop (i + 1) s"
    obtain t ts where t: "to = t # ts" using to(1) by (cases to) auto
    have s': "take (i + 1) s' = take i s @ [t]" "drop (i + 1) s' = ts @ drop (i + 1) s"
      using mid(4) by (simp_all add: s'_def t)
    have "count_list (drop (i + 1) s') c < count_list (drop (pos + 1) s) c"
      using to(2) mid(2) by (simp only: s'(2) mid(1)) (simp add: t count_list_0_iff [THEN iffD2])
    then have "replace_char c to s' i = Some (take (i + 1) s' @ replaced c to (drop (i + 1) s'))" by (rule less)
    also have "take (i + 1) s' @ replaced c to (drop (i + 1) s') =
        take (pos + 1) s @ replaced c to (drop (pos + 1) s)"
      using to(2) mid(2) by (simp only: s' mid(1,3)) (simp add: replaced_none t)
    finally show ?thesis using Some by (simp add: replace_char.simps s'_def)
  qed
qed

section \<open>SetData\<close>

definition xml_escape :: "char \<Rightarrow> string" where
  "xml_escape c = (case map_of characters_to_replace c of Some s \<Rightarrow> s | None \<Rightarrow> [c])"

definition escaped_text :: "string \<Rightarrow> string" where
  "escaped_text s = take 1 s @ concat (map xml_escape (drop 1 s))"

lemma replaced_concat: "replaced c to (concat (map f s)) = concat (map (\<lambda>d. replaced c to (f d)) s)"
  by (induction s) simp_all

lemma set_data_ok: "set_data s t = Inr (t\<lparr>t_data := escaped_text s\<rparr>)"
proof -
  let ?r = "\<lambda>(c, to) s. replaced c to s"
  have step: "replace_char c to (take 1 x @ y) 0 = Some (take 1 x @ replaced c to y)"
    if "(c, to) \<in> set characters_to_replace" "x = [] \<longrightarrow> y = []" for c to x y
  proof -
    have "to \<noteq> [] \<and> c \<notin> set (tl to)" using that(1) by (auto simp: characters_to_replace_def)
    then show ?thesis using replace_char_ok [of to c "take 1 x @ y" 0] that(2) by (cases x) simp_all
  qed
  have "foldR (\<lambda>s (symvol, to). case replace_char symvol to s 0 of None \<Rightarrow> Inl Diverges | Some s' \<Rightarrow> Inr s')
      (take 1 s @ y) cs = Inr (take 1 s @ foldl (\<lambda>y p. ?r p y) y cs)"
    if "set cs \<subseteq> set characters_to_replace" "s = [] \<longrightarrow> y = []" for cs y
    using that
  proof (induction cs arbitrary: y)
    case (Cons p cs)
    obtain c to where p: "p = (c, to)" by (cases p)
    have "s = [] \<longrightarrow> replaced c to y = []" using Cons.prems(2) by simp
    then show ?case using Cons.IH [of "replaced c to y"] Cons.prems step [of c to s y] p by simp
  qed simp
  from this [of characters_to_replace "drop 1 s"]
  have "foldR (\<lambda>s (symvol, to). case replace_char symvol to s 0 of None \<Rightarrow> Inl Diverges | Some s' \<Rightarrow> Inr s')
      s characters_to_replace = Inr (take 1 s @ foldl (\<lambda>y p. ?r p y) (drop 1 s) characters_to_replace)"
    by simp
  moreover have "foldl (\<lambda>y p. ?r p y) x characters_to_replace = concat (map xml_escape x)" for x
  proof -
    have app: "foldl (\<lambda>y p. ?r p y) (x @ y) cs = foldl (\<lambda>y p. ?r p y) x cs @ foldl (\<lambda>y p. ?r p y) y cs" for x y cs
      by (induction cs arbitrary: x y) (auto split: prod.split)
    have one: "foldl (\<lambda>y p. ?r p y) [d] characters_to_replace = xml_escape d" for d
      by (simp add: characters_to_replace_def xml_escape_def)
    have none: "foldl (\<lambda>y p. ?r p y) [] characters_to_replace = []" by (simp add: characters_to_replace_def)
    show ?thesis
    proof (induction x)
      case Nil
      then show ?case by (simp only: none list.map concat.simps)
    next
      case (Cons d x)
      show ?case using app [of "[d]" x characters_to_replace]
        by (simp only: append_Cons append_Nil one Cons.IH list.map concat.simps)
    qed
  qed
  ultimately show ?thesis by (simp only: set_data_def escaped_text_def bindR_Inr)
qed

lemma xml_escape_safe:
  "d \<in> set (xml_escape c) \<Longrightarrow> d \<noteq> CHR ''<'' \<and> d \<noteq> CHR ''>'' \<and> d \<noteq> CHR 0x22 \<and> d \<noteq> CHR 0x27"
  by (auto simp: xml_escape_def characters_to_replace_def split: if_splits)

end
