(* ===== verification/Map_Correct.thy ===== *)
theory Map_Correct
  imports Request_Handler Svg_Text Transport_Graph
begin

text \<open>
  The map as a function of the catalogue. \<open>map_objects\<close> lists the objects to draw: a line per bus
  with stops, its labels, a circle per stop of a bus and its label, each layer in the order of
  names. \<^verbatim>\<open>RenderMap\<close> computes it whenever the palette is not empty (\<open>render_map_ok\<close>).
\<close>

section \<open>The projector's corners\<close>

lemma skey_less: "\<not> is_nan a \<Longrightarrow> \<not> is_nan b \<Longrightarrow> a < b \<longleftrightarrow> skey a < skey b"
  by (simp add: less_double_def)

lemma minmax_element_ok:
  assumes "\<forall>y \<in> insert x (set xs). \<not> is_nan (key y)"
  shows "case minmax_element key x xs of (lo, hi) \<Rightarrow> lo \<in> insert x (set xs) \<and> hi \<in> insert x (set xs) \<and>
    (\<forall>y \<in> insert x (set xs). \<not> key y < key lo \<and> \<not> key hi < key y)"
  using assms
proof (induction xs rule: rev_induct)
  case Nil
  then show ?case by (simp add: minmax_element_def skey_less)
next
  case (snoc z xs)
  obtain lo hi where m: "minmax_element key x xs = (lo, hi)" by (cases "minmax_element key x xs")
  then have ih: "lo \<in> insert x (set xs)" "hi \<in> insert x (set xs)"
    "\<forall>y \<in> insert x (set xs). \<not> key y < key lo \<and> \<not> key hi < key y"
    using snoc by auto
  have lt: "key a < key b \<longleftrightarrow> skey (key a) < skey (key b)"
    if "a \<in> insert z (insert x (set xs))" "b \<in> insert z (insert x (set xs))" for a b
    using snoc.prems that by (intro skey_less) auto
  define lo' hi' where "lo' = (if key z < key lo then z else lo)" and "hi' = (if key z < key hi then hi else z)"
  have "minmax_element key x (xs @ [z]) = (lo', hi')"
    using m by (simp add: minmax_element_def lo'_def hi'_def)
  moreover have "lo' \<in> insert x (set (xs @ [z]))" "hi' \<in> insert x (set (xs @ [z]))"
    using ih by (auto simp: lo'_def hi'_def)
  moreover have "\<not> key y < key lo' \<and> \<not> key hi' < key y" if "y \<in> insert x (set (xs @ [z]))" for y
  proof -
    have k: "y = z \<or> \<not> skey (key y) < skey (key lo) \<and> \<not> skey (key hi) < skey (key y)"
      using that ih lt [of y lo] lt [of hi y] by auto
    have "y \<in> insert z (insert x (set xs))" using that by auto
    then show ?thesis
      using k lt [of y lo'] lt [of hi' y] lt [of z lo] lt [of z hi] ih(1,2)
      by (auto simp: lo'_def hi'_def split: if_splits)
  qed
  ultimately show ?case by simp
qed

lemma sphere_projector_corner:
  assumes "\<forall>c \<in> set cs. \<not> is_nan (lng c) \<and> \<not> is_nan (lat c)" and "c \<in> set cs"
  shows "\<not> lng c < min_lon (sphere_projector_new cs w h p) \<and> \<not> max_lat (sphere_projector_new cs w h p) < lat c"
proof -
  obtain c0 rest where cs: "cs = c0 # rest" using assms(2) by (cases cs) auto
  show ?thesis
    using minmax_element_ok [of c0 rest lng] minmax_element_ok [of c0 rest lat] assms
    by (auto simp: cs sphere_projector_new_def split: prod.splits)
qed

section \<open>Serialisation\<close>

lemma ucast_channel: "(ucast (ucast (w :: 8 word) :: 32 word) :: 8 word) = w"
  by (rule ucast_up_ucast_id) (simp add: is_up)

interpretation colors: codec set_proto_color set_svg_color "\<lambda>_. True"
proof unfold_locales
  fix c show "set_svg_color (set_proto_color c) = c"
    by (cases c) (auto simp: set_proto_rgb_def set_svg_rgb_def set_proto_rgba_def set_svg_rgba_def ucast_channel)
qed

lemma load_save_label [simp]: "load_label (save_label l) = Inr l"
  by (cases l) (auto simp: load_label_def save_label_def)

lemma load_save_sizes [simp]:
  "load_map_size (save_map_size z) = z" "load_element_size (save_element_size e) = e"
  by (simp_all add: load_map_size_def save_map_size_def load_element_size_def save_element_size_def)

lemma load_save_map_render: "deserialize_map_render (save_map_render ms) = Inr ms"
  using colors.decode_map [of "color_palette ms"]
  by (cases ms) (simp add: deserialize_map_render_def save_map_render_def colors.decode_encode del: map_map)

section \<open>The objects of the map\<close>

definition coord :: "catalogue \<Rightarrow> nat \<Rightarrow> coordinates" where
  "coord db i = stop_coordinates (all_stops db ! i)"

definition bus_of :: "catalogue \<Rightarrow> string \<Rightarrow> bus" where
  "bus_of db n = all_buses db ! the (map_of (buses_by_name db) n)"

definition stop_of :: "catalogue \<Rightarrow> string \<Rightarrow> nat" where
  "stop_of db n = the (map_of (stops_by_name db) n)"

definition drawn_buses :: "catalogue \<Rightarrow> string set" where
  "drawn_buses db = {n \<in> set (bnames db). bus_stops (bus_of db n) \<noteq> []}"

definition drawn_stops :: "catalogue \<Rightarrow> string set" where
  "drawn_stops db = {stop_n db i | i n. n \<in> set (bnames db) \<and> i \<in> set (bus_stops (bus_of db n))}"

definition drawn_places :: "catalogue \<Rightarrow> coordinates set" where
  "drawn_places db = {coord db i | i n. n \<in> set (bnames db) \<and> i \<in> set (bus_stops (bus_of db n))}"

definition line_color :: "map_settings \<Rightarrow> nat \<Rightarrow> color" where
  "line_color ms k = color_palette ms ! (k mod length (color_palette ms))"

definition way_style :: "map_settings \<Rightarrow> nat \<Rightarrow> polyline" where
  "way_style ms k = set_stroke_line_join Join_Round (set_stroke_line_cap Cap_Round
     (set_fill_color none_color (set_stroke_color (line_color ms k)
       (set_stroke_width (line_width (element_sizes ms)) polyline_new))))"

definition route_of :: "bus \<Rightarrow> nat list" where
  "route_of b = (if is_loop_trip b then bus_stops b else bus_stops b @ rev (butlast (bus_stops b)))"

definition way_object :: "catalogue \<Rightarrow> map_settings \<Rightarrow> sphere_projector \<Rightarrow> nat \<times> string \<Rightarrow> svg_object" where
  "way_object db ms sp p = (case p of (k, n) \<Rightarrow>
     Polyline ((way_style ms k)\<lparr>points := map (\<lambda>i. project sp (coord db i)) (route_of (bus_of db n))\<rparr>))"

definition text_with :: "string \<Rightarrow> text_obj" where
  "text_with s = text_new\<lparr>t_data := escaped_text s\<rparr>"

definition bus_texts :: "map_settings \<Rightarrow> string \<Rightarrow> nat \<Rightarrow> point \<Rightarrow> svg_object list" where
  "bus_texts ms n k p =
     [Text (set_font_weight ''bold'' (place_label (bus_label ms) p (underlayer ms (text_with n)))),
      Text (set_font_weight ''bold'' (place_label (bus_label ms) p
        (set_fill_color (line_color ms k) (text_with n))))]"

definition ends :: "bus \<Rightarrow> nat list" where
  "ends b = (let s = bus_stops b in if is_loop_trip b \<or> hd s = last s then [hd s] else [hd s, last s])"

definition bus_labels :: "catalogue \<Rightarrow> map_settings \<Rightarrow> sphere_projector \<Rightarrow> nat \<times> string \<Rightarrow> svg_object list" where
  "bus_labels db ms sp p = (case p of (k, n) \<Rightarrow>
     concat (map (\<lambda>i. bus_texts ms n k (project sp (coord db i))) (ends (bus_of db n))))"

definition stop_object :: "catalogue \<Rightarrow> map_settings \<Rightarrow> sphere_projector \<Rightarrow> string \<Rightarrow> svg_object" where
  "stop_object db ms sp n = Circle (render_stop ms (project sp (coord db (stop_of db n))))"

definition stop_texts :: "catalogue \<Rightarrow> map_settings \<Rightarrow> sphere_projector \<Rightarrow> string \<Rightarrow> svg_object list" where
  "stop_texts db ms sp n =
     [Text (place_label (stop_label ms) (project sp (coord db (stop_of db n))) (underlayer ms (text_with n))),
      Text (place_label (stop_label ms) (project sp (coord db (stop_of db n)))
        (set_fill_color (Color_name ''black'') (text_with n)))]"

definition map_objects :: "catalogue \<Rightarrow> map_settings \<Rightarrow> sphere_projector \<Rightarrow> svg_document" where
  "map_objects db ms sp =
     (let bs = enumerate 0 (sorted_list_of_set (drawn_buses db)); ss = sorted_list_of_set (drawn_stops db)
      in map (way_object db ms sp) bs @ concat (map (bus_labels db ms sp) bs) @
         map (stop_object db ms sp) ss @ concat (map (stop_texts db ms sp) ss))"

section \<open>Collecting\<close>

lemma set_insert_sorted: "finite A \<Longrightarrow> set_insert x (sorted_list_of_set A) = sorted_list_of_set (insert x A)"
  by (cases "x \<in> A") (simp_all add: set_insert_def insert_absorb sorted_list_of_set_insert_remove)

lemma collect_stops:
  assumes "finite B" and "finite S" and "\<forall>i \<in> set ss. i < n_stops db"
  shows "foldR (collect_stop db n) (cs, sorted_list_of_set B, sorted_list_of_set S) ss =
    Inr (cs @ map (coord db) ss, sorted_list_of_set (B \<union> (if ss = [] then {} else {n})),
         sorted_list_of_set (S \<union> stop_n db ` set ss))"
  using assms
proof (induction ss arbitrary: cs B S)
  case Nil
  then show ?case by simp
next
  case (Cons i ss)
  have "collect_stop db n (cs, sorted_list_of_set B, sorted_list_of_set S) i =
      Inr (cs @ [coord db i], sorted_list_of_set (insert n B), sorted_list_of_set (insert (stop_n db i) S))"
    using Cons.prems by (simp add: collect_stop_def set_insert_sorted coord_def stop_n_def)
  moreover have "insert n B \<union> (if ss = [] then {} else {n}) = B \<union> (if i # ss = [] then {} else {n})" by auto
  ultimately show ?case using Cons.IH [of "insert n B" "insert (stop_n db i) S" "cs @ [coord db i]"] Cons.prems
    by (simp add: Un_insert_left)
qed

lemma bus_lookup_of:
  assumes "cat_ok db" and "(n, i) \<in> set (buses_by_name db)" and "um_ok (buses_by_name db)"
  shows "i < length (all_buses db) \<and> bus_of db n = all_buses db ! i \<and> n \<in> set (bnames db)"
proof -
  have m: "map_of (buses_by_name db) n = Some i" using assms(2,3) by (simp add: um_ok_def)
  then have "map_of (by_name (bnames db)) n = Some i" using assms(1) by (simp add: cat_ok_def)
  then show ?thesis using map_of_by_name [of "bnames db" n i] m by (auto simp: bus_of_def bnames_def)
qed

lemma um_ok_by_name: "um_ok (by_name ns)"
  by (induction ns rule: rev_induct) (simp_all add: um_ok_put)

lemma collect_buses:
  assumes db: "cat_ok db"
  shows "\<forall>p \<in> set L. p \<in> set (buses_by_name db) \<Longrightarrow> finite B \<Longrightarrow> finite S \<Longrightarrow>
    \<exists>cs'. foldR (collect_bus db) (cs, sorted_list_of_set B, sorted_list_of_set S) L =
      Inr (cs', sorted_list_of_set (B \<union> {n \<in> fst ` set L. bus_stops (bus_of db n) \<noteq> []}),
        sorted_list_of_set (S \<union> (\<Union>n \<in> fst ` set L. stop_n db ` set (bus_stops (bus_of db n))))) \<and>
      set cs' = set cs \<union> (\<Union>n \<in> fst ` set L. coord db ` set (bus_stops (bus_of db n)))"
proof (induction L arbitrary: cs B S)
  case Nil
  then show ?case by simp
next
  case (Cons p L)
  obtain n i where p: "p = (n, i)" by (cases p)
  have um: "um_ok (buses_by_name db)" using db um_ok_by_name by (simp add: cat_ok_def)
  have i: "i < length (all_buses db)" "bus_of db n = all_buses db ! i"
    using bus_lookup_of [OF db _ um, of n i] Cons.prems p by auto
  let ?ss = "bus_stops (bus_of db n)"
  have "\<forall>s \<in> set ?ss. s < n_stops db" using db i by (auto simp: cat_ok_def)
  then have "collect_bus db (cs, sorted_list_of_set B, sorted_list_of_set S) p =
      Inr (cs @ map (coord db) ?ss, sorted_list_of_set (B \<union> (if ?ss = [] then {} else {n})),
        sorted_list_of_set (S \<union> stop_n db ` set ?ss))"
    using collect_stops [OF Cons.prems(2,3)] i by (simp add: collect_bus_def p)
  moreover have "B \<union> (if ?ss = [] then {} else {n}) \<union> {m \<in> fst ` set L. bus_stops (bus_of db m) \<noteq> []} =
      B \<union> {m \<in> fst ` set (p # L). bus_stops (bus_of db m) \<noteq> []}"
    by (auto simp: p)
  moreover have "S \<union> stop_n db ` set ?ss \<union> (\<Union>m \<in> fst ` set L. stop_n db ` set (bus_stops (bus_of db m))) =
      S \<union> (\<Union>m \<in> fst ` set (p # L). stop_n db ` set (bus_stops (bus_of db m)))"
    by (auto simp: p)
  ultimately show ?case
    using Cons.IH [of "B \<union> (if ?ss = [] then {} else {n})" "S \<union> stop_n db ` set ?ss" "cs @ map (coord db) ?ss"] Cons.prems
    by (auto simp: p)
qed

lemma keys_by_name: "fst ` set (by_name ns) = set ns"
  by (induction ns rule: rev_induct) (simp_all add: keys_um_put)

lemma collect_all:
  assumes db: "cat_ok db" and order: "mset L = mset (buses_by_name db)"
  shows "\<exists>cs. foldR (collect_bus db) ([], [], []) L =
      Inr (cs, sorted_list_of_set (drawn_buses db), sorted_list_of_set (drawn_stops db)) \<and>
    set cs = drawn_places db"
proof -
  have set: "set L = set (buses_by_name db)" using order by (metis set_mset_mset)
  have keys: "fst ` set L = set (bnames db)" using db keys_by_name by (simp add: set cat_ok_def)
  have "drawn_stops db = (\<Union>n \<in> fst ` set L. stop_n db ` set (bus_stops (bus_of db n)))"
    unfolding keys drawn_stops_def by blast
  moreover have "drawn_places db = (\<Union>n \<in> fst ` set L. coord db ` set (bus_stops (bus_of db n)))"
    unfolding keys drawn_places_def by blast
  moreover have "drawn_buses db = {n \<in> fst ` set L. bus_stops (bus_of db n) \<noteq> []}"
    unfolding keys drawn_buses_def by blast
  ultimately show ?thesis using collect_buses [OF db, of L "{}" "{}" "[]"] set by simp
qed

section \<open>Drawing\<close>

lemma palette_color_ok: "color_palette ms \<noteq> [] \<Longrightarrow> palette_color ms k = Inr (line_color ms k)"
  by (simp add: palette_color_def line_color_def)

lemma get_bus_of:
  assumes "cat_ok db" and "n \<in> set (bnames db)"
  shows "get_bus db n = Inr (bus_of db n) \<and> (\<forall>s \<in> set (bus_stops (bus_of db n)). s < n_stops db)"
proof -
  obtain i where "map_of (buses_by_name db) n = Some i" "i < length (all_buses db)"
    using bus_lookup [OF assms] by blast
  then show ?thesis using assms(1) by (auto simp: get_bus_def bus_of_def cat_ok_def)
qed

lemma get_stop_of:
  assumes "stops_ok db" and "n \<in> set (snames db)"
  shows "get_stop db n = Inr (all_stops db ! stop_of db n)"
proof -
  obtain i where "map_of (stops_by_name db) n = Some i" "i < n_stops db"
    using stop_lookup_in [OF assms] by blast
  then show ?thesis by (simp add: get_stop_def stop_of_def)
qed

lemma add_points:
  "\<forall>i \<in> set ss. i < n_stops db \<Longrightarrow>
    foldR (\<lambda>v i. bindR (vec_idx (all_stops db) i) (\<lambda>s. Inr (add_point (project sp (stop_coordinates s)) v))) v ss =
    Inr (v\<lparr>points := points v @ map (\<lambda>i. project sp (coord db i)) ss\<rparr>)"
  by (induction ss arbitrary: v) (simp_all add: add_point_def coord_def)

lemma points_way_style: "points (way_style ms k) = []"
  by (simp add: way_style_def set_stroke_line_join_def set_stroke_line_cap_def set_fill_color_def
      set_stroke_color_def set_stroke_width_def polyline_new_def path_props.extend_def)

lemma draw_way_ok:
  assumes db: "cat_ok db" and n: "n \<in> drawn_buses db" and ms: "color_palette ms \<noteq> []"
  shows "draw_way db ms sp (doc, k) n = Inr (doc @ [way_object db ms sp (k, n)], k + 1)"
proof -
  let ?b = "bus_of db n"
  have b: "get_bus db n = Inr ?b" "\<forall>s \<in> set (bus_stops ?b). s < n_stops db" "bus_stops ?b \<noteq> []"
    using get_bus_of [OF db] n by (auto simp: drawn_buses_def)
  have ss: "\<forall>i \<in> set (route_of ?b). i < n_stops db"
    using b(2) by (auto simp: route_of_def dest: in_set_butlastD)
  have "way_stops ?b = Inr (route_of ?b)" using b(3) by (simp add: way_stops_def route_of_def)
  then have "render_way db ms ?b k sp = Inr ((way_style ms k)\<lparr>points := map (\<lambda>i. project sp (coord db i)) (route_of ?b)\<rparr>)"
    using add_points [OF ss, of sp "way_style ms k"] palette_color_ok [OF ms]
    by (simp add: render_way_def way_style_def [symmetric] points_way_style)
  then show ?thesis using b(1) by (simp add: draw_way_def way_object_def add_ptr_def)
qed

lemma text_with: "set_data s text_new = Inr (text_with s)"
  by (simp add: set_data_ok text_with_def)

lemma draw_label_ok:
  assumes "i < n_stops db" and "color_palette ms \<noteq> []"
  shows "draw_label db ms sp n k i doc = Inr (doc @ bus_texts ms n k (project sp (coord db i)))"
  using assms by (simp add: draw_label_def render_name_bus_def text_with palette_color_ok bus_texts_def
      coord_def add_ptr_def Let_def)

lemma draw_bus_name_ok:
  assumes db: "cat_ok db" and n: "n \<in> drawn_buses db" and ms: "color_palette ms \<noteq> []"
  shows "draw_bus_name db ms sp (doc, k) n = Inr (doc @ bus_labels db ms sp (k, n), k + 1)"
proof -
  let ?b = "bus_of db n"
  have b: "get_bus db n = Inr ?b" "\<forall>s \<in> set (bus_stops ?b). s < n_stops db" "bus_stops ?b \<noteq> []"
    using get_bus_of [OF db] n by (auto simp: drawn_buses_def)
  have i: "hd (bus_stops ?b) < n_stops db" "last (bus_stops ?b) < n_stops db" using b(2,3) by simp_all
  have "vec_idx (bus_stops ?b) 0 = Inr (hd (bus_stops ?b))"
    "vec_idx (bus_stops ?b) (length (bus_stops ?b) - 1) = Inr (last (bus_stops ?b))"
    using b(3) by (simp_all add: hd_conv_nth last_conv_nth)
  then show ?thesis using b(1) draw_label_ok [OF i(1) ms] draw_label_ok [OF i(2) ms]
    by (cases "is_loop_trip ?b"; cases "hd (bus_stops ?b) = last (bus_stops ?b)")
      (simp_all add: draw_bus_name_def bus_labels_def ends_def Let_def)
qed

lemma drawn_stop_name: "n \<in> drawn_stops db \<Longrightarrow> cat_ok db \<Longrightarrow> n \<in> set (snames db)"
  using get_bus_of [of db] by (fastforce simp: drawn_stops_def snames_def stop_n_def)

lemma draw_stop_ok:
  assumes "cat_ok db" and "n \<in> drawn_stops db"
  shows "draw_stop db ms sp doc n = Inr (doc @ [stop_object db ms sp n])"
    and "draw_stop_name db ms sp doc n = Inr (doc @ stop_texts db ms sp n)"
proof -
  have "get_stop db n = Inr (all_stops db ! stop_of db n)"
    using get_stop_of drawn_stop_name [OF assms(2,1)] assms(1) by (simp add: cat_ok_def)
  then show "draw_stop db ms sp doc n = Inr (doc @ [stop_object db ms sp n])"
    "draw_stop_name db ms sp doc n = Inr (doc @ stop_texts db ms sp n)"
    by (simp_all add: draw_stop_def stop_object_def draw_stop_name_def stop_texts_def coord_def add_ptr_def
        render_name_stop_def text_with Let_def)
qed

text \<open>The two kinds of loops: with and without the color counter.\<close>

lemma foldR_counted:
  assumes "\<And>doc k x. x \<in> set xs \<Longrightarrow> f (doc, k) x = Inr (doc @ g (k, x), k + 1)"
  shows "foldR f (doc, k) xs = Inr (doc @ concat (map g (enumerate k xs)), k + length xs)"
  using assms by (induction xs arbitrary: doc k) simp_all

lemma foldR_collect:
  assumes "\<And>doc x. x \<in> set xs \<Longrightarrow> f doc x = Inr (doc @ g x)"
  shows "foldR f doc xs = Inr (doc @ concat (map g xs))"
  using assms by (induction xs arbitrary: doc) simp_all

lemma concat_singles: "concat (map (\<lambda>x. [h x]) xs) = map h xs"
  by (induction xs) simp_all

lemma drawn_stops_Union: "drawn_stops db = (\<Union>n \<in> set (bnames db). stop_n db ` set (bus_stops (bus_of db n)))"
  unfolding drawn_stops_def by blast

lemma finite_drawn: "finite (drawn_buses db)" "finite (drawn_stops db)"
  by (simp_all add: drawn_buses_def drawn_stops_Union)

theorem render_map_ok:
  assumes db: "cat_ok (rh_db h)" and ms: "color_palette (rh_render h) \<noteq> []"
    and order: "mset (pf_buses_order pf (buses_by_name (rh_db h))) = mset (buses_by_name (rh_db h))"
  shows "\<exists>cs. set cs = drawn_places (rh_db h) \<and>
    render_map pf h = Inr (map_objects (rh_db h) (rh_render h) (sphere_projector_new cs
      (ms_width (size_of_map (rh_render h))) (ms_height (size_of_map (rh_render h)))
      (ms_padding (size_of_map (rh_render h)))))"
proof -
  let ?db = "rh_db h" and ?ms = "rh_render h"
  let ?bs = "sorted_list_of_set (drawn_buses ?db)" and ?ss = "sorted_list_of_set (drawn_stops ?db)"
  obtain cs where cs: "foldR (collect_bus ?db) ([], [], []) (pf_buses_order pf (buses_by_name ?db)) = Inr (cs, ?bs, ?ss)"
    and places: "set cs = drawn_places ?db"
    using collect_all [OF db order] by blast
  define sp where "sp = sphere_projector_new cs (ms_width (size_of_map ?ms)) (ms_height (size_of_map ?ms))
    (ms_padding (size_of_map ?ms))"
  have "foldR (draw_way ?db ?ms sp) (doc, 0) ?bs = Inr (doc @ map (way_object ?db ?ms sp) (enumerate 0 ?bs), length ?bs)" for doc
    using foldR_counted [of ?bs "draw_way ?db ?ms sp" "\<lambda>p. [way_object ?db ?ms sp p]" doc 0]
      draw_way_ok [OF db _ ms] finite_drawn by (simp add: concat_singles)
  moreover have "foldR (draw_bus_name ?db ?ms sp) (doc, 0) ?bs =
      Inr (doc @ concat (map (bus_labels ?db ?ms sp) (enumerate 0 ?bs)), length ?bs)" for doc
    using foldR_counted [of ?bs "draw_bus_name ?db ?ms sp" "bus_labels ?db ?ms sp" doc 0]
      draw_bus_name_ok [OF db _ ms] finite_drawn by simp
  moreover have "foldR (draw_stop ?db ?ms sp) doc ?ss = Inr (doc @ map (stop_object ?db ?ms sp) ?ss)" for doc
    using foldR_collect [of ?ss "draw_stop ?db ?ms sp" "\<lambda>n. [stop_object ?db ?ms sp n]" doc]
      draw_stop_ok(1) [OF db] finite_drawn by (simp add: concat_singles)
  moreover have "foldR (draw_stop_name ?db ?ms sp) doc ?ss = Inr (doc @ concat (map (stop_texts ?db ?ms sp) ?ss))" for doc
    using foldR_collect [of ?ss "draw_stop_name ?db ?ms sp" "stop_texts ?db ?ms sp" doc]
      draw_stop_ok(2) [OF db] finite_drawn by simp
  ultimately have "render_map pf h = Inr (map_objects ?db ?ms sp)"
    by (simp add: render_map_def cs map_objects_def sp_def Let_def)
  then show ?thesis using places by (intro exI [of _ cs]) (simp add: sp_def)
qed

lemma render_map_no_palette:
  assumes db: "cat_ok (rh_db h)" and ms: "color_palette (rh_render h) = []" and b: "drawn_buses (rh_db h) \<noteq> {}"
    and order: "mset (pf_buses_order pf (buses_by_name (rh_db h))) = mset (buses_by_name (rh_db h))"
  shows "render_map pf h = Inl Undefined_behaviour"
proof -
  let ?db = "rh_db h"
  let ?bs = "sorted_list_of_set (drawn_buses ?db)"
  obtain cs where cs: "foldR (collect_bus ?db) ([], [], []) (pf_buses_order pf (buses_by_name ?db)) =
      Inr (cs, ?bs, sorted_list_of_set (drawn_stops ?db))"
    using collect_all [OF db order] by blast
  obtain n ns where ns: "?bs = n # ns" using b finite_drawn(1) by (cases ?bs) auto
  then have "n \<in> drawn_buses ?db" using finite_drawn(1) by (metis list.set_intros(1) set_sorted_list_of_set)
  then have "get_bus ?db n = Inr (bus_of ?db n)" using get_bus_of [OF db] by (simp add: drawn_buses_def)
  then have "draw_way ?db (rh_render h) sp ([], 0) n = Inl Undefined_behaviour" for sp
    using ms by (simp add: draw_way_def render_way_def palette_color_def)
  then show ?thesis by (simp add: render_map_def cs ns Let_def)
qed

end
