(* ===== verification/Ieee_Error.thy ===== *)
theory Ieee_Error
  imports Ieee_Laws
begin

text \<open>
  The error of one rounded operation: half a unit in the last place, at most \<open>2 ^ -53\<close> of the exact
  result where that is normal or, as for sums, a multiple of the smallest subnormal.
\<close>

definition half_ulp :: real where
  "half_ulp = 1 / 2 ^ 53"

lemma rhe_error: "\<bar>of_int (rhe y) - y\<bar> \<le> 1 / 2"
proof -
  have "of_int \<lfloor>y\<rfloor> \<le> y" "y < of_int \<lfloor>y\<rfloor> + 1" by linarith+
  then show ?thesis by (auto simp: rhe_def Let_def abs_le_iff)
qed

text \<open>The rounded magnitude, before overflow, stands for the rounded multiple of the unit.\<close>

definition rounded :: "real \<Rightarrow> nat" where
  "rounded x = nat (rhe (x / 2 powi unit_exp x)) + nat (unit_exp x + 1074) * 2 ^ 52"

lemma rnd_rounded: "0 < x \<Longrightarrow> rnd x = min inf_mag (rounded x)"
  by (simp add: rnd_def rounded_def)

lemma mval_rounded:
  assumes "0 < x"
  shows "mval (rounded x) = of_int (rhe (x / 2 powi unit_exp x)) * 2 powi unit_exp x"
proof -
  define m E where "m = nat (rhe (x / 2 powi unit_exp x))" and "E = nat (unit_exp x + 1074)"
  have nn: "0 \<le> rhe (x / 2 powi unit_exp x)" using assms by (intro rhe_nonneg) simp
  have e: "int E - 1074 = unit_exp x" using unit_exp_ge [of x] by (simp add: E_def)
  have m: "m \<le> 2 ^ 53" using rhe_unit_upper [OF assms] by (simp add: m_def)
  have im: "int m = rhe (x / 2 powi unit_exp x)" using nn by (simp add: m_def)
  have low: "E = 0 \<or> 2 ^ 52 \<le> m"
  proof (cases "-1074 < unit_exp x")
    case True
    then have "2 ^ 52 \<le> int m" using rhe_unit_lower [OF assms] im by simp
    then show ?thesis by simp
  qed (simp add: E_def)
  have "real (mant (m + E * 2 ^ 52)) * 2 powi (int (expo (m + E * 2 ^ 52)) - 1074) = real m * 2 powi (int E - 1074)"
  proof (cases "m < 2 ^ 53")
    case True
    then show ?thesis using mant_expo_join [OF True low] by simp
  next
    case False
    then have m53: "m = 2 ^ 52 + 2 ^ 52" using m by simp
    then have "m + E * 2 ^ 52 = 2 ^ 52 + (E + 1) * 2 ^ 52" by simp
    then have "mant (m + E * 2 ^ 52) = 2 ^ 52 \<and> expo (m + E * 2 ^ 52) = E + 1"
      using mant_expo_join [of "2 ^ 52" "E + 1"] by simp
    moreover have "(2::real) powi (int (E + 1) - 1074) = 2 * 2 powi (int E - 1074)"
      using powi2_add [of 1 "int E - 1074"] by (simp add: algebra_simps)
    ultimately show ?thesis using m53 by simp
  qed
  then show ?thesis using nn by (simp add: mval_powi rounded_def e flip: m_def E_def) (simp add: m_def)
qed

lemma mval_rounded_error:
  assumes "0 < x"
  shows "\<bar>mval (rounded x) - x\<bar> \<le> 2 powi unit_exp x / 2"
proof -
  let ?p = "(2::real) powi unit_exp x"
  have "mval (rounded x) - x = (of_int (rhe (x / ?p)) - x / ?p) * ?p"
    using mval_rounded [OF assms] by (simp add: left_diff_distrib)
  then have "\<bar>mval (rounded x) - x\<bar> = \<bar>of_int (rhe (x / ?p)) - x / ?p\<bar> * ?p"
    by (simp add: abs_mult)
  also have "\<dots> \<le> 1 / 2 * ?p" by (rule mult_right_mono [OF rhe_error]) simp
  finally show ?thesis by simp
qed

text \<open>Relative to the exact result, where that is normal or a multiple of the least subnormal.\<close>

lemma unit_exp_normal:
  assumes "0 < x" and "-1074 < unit_exp x"
  shows "2 powi unit_exp x \<le> x / 2 ^ 52"
proof -
  define k where "k = \<lfloor>log 2 x\<rfloor>"
  have "2 powi k \<le> x" using floor_log2_iff [OF assms(1), of k] by (simp add: k_def)
  moreover have "unit_exp x = k - 52" using assms(2) by (simp add: unit_exp_def k_def)
  moreover have "(2::real) powi (k - 52) = 2 powi k / 2 ^ 52"
    by (simp add: power_int_diff)
  ultimately show ?thesis by (simp add: divide_right_mono)
qed

lemma rounded_error:
  assumes x: "0 < x" and r: "-1074 < unit_exp x \<or> x * 2 ^ 1074 \<in> \<int>"
  shows "\<bar>mval (rounded x) - x\<bar> \<le> half_ulp * x"
proof (cases "-1074 < unit_exp x")
  case True
  then show ?thesis using mval_rounded_error [OF x] unit_exp_normal [OF x True] by (simp add: half_ulp_def)
next
  case False
  then have e: "unit_exp x = -1074" using unit_exp_ge [of x] by simp
  obtain N where N: "x * 2 ^ 1074 = of_int N" using r False by (auto elim: Ints_cases)
  have "(2::real) powi -1074 = inverse (2 ^ 1074)" by (simp only: power_int_minus power_int_numeral)
  then have y: "x / 2 powi unit_exp x = of_int N" using N by (simp only: e divide_inverse inverse_inverse_eq)
  have "mval (rounded x) = x / 2 powi unit_exp x * 2 powi unit_exp x"
    unfolding mval_rounded [OF x] y rhe_of_int ..
  then have "mval (rounded x) = x" by simp
  then show ?thesis using x by (simp add: half_ulp_def)
qed

lemma mval_rnd_le:
  assumes "0 \<le> x" and "-1074 < unit_exp x \<or> x * 2 ^ 1074 \<in> \<int>"
  shows "mval (rnd x) \<le> (1 + half_ulp) * x"
proof (cases "0 < x")
  case True
  have "mval (rnd x) \<le> mval (rounded x)" using rnd_rounded [OF True] by (intro mval_mono) simp
  also have "\<dots> \<le> x + half_ulp * x" using rounded_error [OF True assms(2)] by linarith
  finally show ?thesis by (simp add: distrib_right)
qed (use assms(1) in \<open>simp add: rnd_def\<close>)

lemma mval_rnd_ge:
  assumes "0 \<le> x" and "-1074 < unit_exp x \<or> x * 2 ^ 1074 \<in> \<int>" and "rnd x < inf_mag"
  shows "(1 - half_ulp) * x \<le> mval (rnd x)"
proof (cases "0 < x")
  case True
  then have "rnd x = rounded x" using rnd_rounded [OF True] assms(3) by simp
  then show ?thesis using rounded_error [OF True assms(2)] by (simp add: left_diff_distrib abs_le_iff)
qed (use assms(1) in \<open>simp add: rnd_def\<close>)

lemma mval_multiple: "mval n * 2 ^ 1074 \<in> \<int>"
proof -
  have "mval n * 2 ^ 1074 = of_int (int (mant n * 2 ^ expo n))" by (simp add: mval_def)
  then show ?thesis by (simp only: Ints_of_int)
qed

lemma sum_multiple: "(mval m + mval n) * 2 ^ 1074 \<in> \<int>"
  unfolding distrib_right by (intro Ints_add mval_multiple)

lemma rnd_ge_left: "n \<le> inf_mag \<Longrightarrow> n \<le> rnd (mval n + mval m)"
  using rnd_mono [of "mval n" "mval n + mval m"] rnd_mval [of n] mval_nonneg [of m] by simp

lemma rnd_ge_right: "m \<le> inf_mag \<Longrightarrow> m \<le> rnd (mval n + mval m)"
  using rnd_mono [of "mval m" "mval n + mval m"] rnd_mval [of m] mval_nonneg [of n] by simp

lemma mval_inf: "mval inf_mag = 2 ^ 1024"
proof -
  have "mant inf_mag = 2 ^ 52" "expo inf_mag = 2046" by (simp_all add: mant_def expo_def inf_mag_def)
  then have "mval inf_mag = 2 ^ 52 * 2 ^ 2046 / 2 ^ 1074" by (simp add: mval_def)
  also have "(2::real) ^ 52 * 2 ^ 2046 = 2 ^ 1024 * 2 ^ 1074" by (simp only: power_add [symmetric]) simp
  finally show ?thesis by simp
qed

lemma mval_binade: "mval (Suc j * 2 ^ 52) = 2 ^ 52 * 2 ^ j / 2 ^ 1074"
proof -
  have "mant (2 ^ 52 + j * 2 ^ 52) = 2 ^ 52 \<and> expo (2 ^ 52 + j * 2 ^ 52) = j" by (rule mant_expo_join) simp_all
  then show ?thesis by (simp add: mval_def)
qed

end
