(* ===== verification/Ieee_Signed.thy ===== *)
theory Ieee_Signed
  imports Ieee_Error
begin

text \<open>
  The operations on finite doubles of either sign: the value of a result is the exact result rounded
  (\<open>rval\<close>), comparison compares values. An overflow counts as \<open>2 ^ 1024\<close>.
\<close>

definition finite_double :: "double \<Rightarrow> bool" where
  "finite_double d \<longleftrightarrow> mag_of d < inf_mag"

lemma finite_not: "finite_double d \<Longrightarrow> \<not> is_nan d" "finite_double d \<Longrightarrow> \<not> is_inf d"
  by (simp_all add: finite_double_def is_nan_def is_inf_def)

text \<open>The value nearest to a real.\<close>

definition rval :: "real \<Rightarrow> real" where
  "rval x = (if x < 0 then - mval (rnd (- x)) else mval (rnd x))"

lemma rnd_0 [simp]: "rnd 0 = 0"
  by (simp add: rnd_def)

lemma rval_nonneg: "0 \<le> x \<Longrightarrow> rval x = mval (rnd x)"
  by (simp add: rval_def)

lemma rval_mono: "x \<le> y \<Longrightarrow> rval x \<le> rval y"
proof -
  assume le: "x \<le> y"
  consider "y < 0" | "x < 0" "0 \<le> y" | "0 \<le> x" by linarith
  then show ?thesis
  proof cases
    case 1
    then show ?thesis using le mval_mono [OF rnd_mono [of "- y" "- x"]] by (simp add: rval_def)
  next
    case 2
    then show ?thesis using mval_nonneg [of "rnd (- x)"] mval_nonneg [of "rnd y"] by (simp add: rval_def)
  next
    case 3
    then show ?thesis using le mval_mono [OF rnd_mono [of x y]] by (simp add: rval_def)
  qed
qed

lemma rval_0 [simp]: "rval 0 = 0"
  by (simp add: rval_def rnd_def)

lemma rval_ge_0: "0 \<le> x \<Longrightarrow> 0 \<le> rval x"
  using rval_mono [of 0 x] by simp

lemma abs_dval: "\<bar>dval d\<bar> = mval (mag_of d)"
  using mval_nonneg [of "mag_of d"] by (simp add: dval_def)

lemma rval_dval: "mag_of d \<le> inf_mag \<Longrightarrow> rval (dval d) = dval d"
  using mval_nonneg [of "mag_of d"] rnd_mval [of "mag_of d"]
  by (cases "mag_of d = 0") (auto simp: rval_def dval_def mval_pos)

text \<open>At most half a unit above the exact value.\<close>

lemma mval_rnd_upper:
  assumes "0 \<le> x"
  shows "mval (rnd x) \<le> (1 + half_ulp) * x + 2 powi -1075"
proof (cases "x = 0 \<or> -1074 < unit_exp x")
  case True
  moreover have "0 \<le> (2::real) powi -1075" by simp
  ultimately show ?thesis using mval_rnd_le [OF assms] by (auto simp: rnd_def)
next
  case False
  then have x: "0 < x" "unit_exp x = -1074" using assms unit_exp_ge [of x] by simp_all
  have "mval (rnd x) \<le> mval (rounded x)" using rnd_rounded [OF x(1)] by (intro mval_mono) simp
  also have "\<dots> \<le> x + 2 powi unit_exp x / 2" using mval_rounded_error [OF x(1)] by linarith
  also have "(2::real) powi unit_exp x / 2 = 2 powi -1075" using power_int_diff [of "2::real" "-1074" 1] by (simp add: x(2))
  finally show ?thesis using x(1) by (simp add: half_ulp_def distrib_right)
qed

section \<open>Operations\<close>

lemma dval_pack: "n < 2 ^ 63 \<Longrightarrow> dval (pack s n) = (if s then - mval n else mval n)"
  by (simp add: dval_def)

lemma rnd_less: "rnd x < 2 ^ 63"
  using rnd_le_inf [of x] inf_mag_less by (rule le_less_trans)

text \<open>\<open>rounds_to d x\<close>: the double \<open>d\<close> is the one nearest to \<open>x\<close>, or infinite.\<close>

definition rounds_to :: "double \<Rightarrow> real \<Rightarrow> bool" where
  "rounds_to d x \<longleftrightarrow> dval d = rval x \<and> mag_of d \<le> inf_mag"

lemma rounds_pack: "x = 0 \<or> (s \<longleftrightarrow> x < 0) \<Longrightarrow> rounds_to (pack s (rnd \<bar>x\<bar>)) x"
  by (auto simp: rounds_to_def dval_pack [OF rnd_less] rval_def dval_pack mag_of_pack [OF rnd_less] rnd_le_inf)

lemma rounds_zero: "rounds_to (pack s 0) 0"
  using rounds_pack [of 0 s] by simp

lemma dval_zero [simp]: "dval 0 = 0"
  by (simp add: dval_def)

lemma dval_uminus: "dval (- d) = - dval d"
  using mag_of_less [of d] by (simp add: uminus_double_def dval_def)

lemma finite_uminus [simp]: "finite_double (- d) \<longleftrightarrow> finite_double d"
  using mag_of_less [of d] by (simp add: uminus_double_def finite_double_def)

lemma smant_scaled:
  "e \<le> expo (mag_of d) \<Longrightarrow> of_int (smant d * 2 ^ (expo (mag_of d) - e)) * 2 powi (int e - 1074) = dval d"
  using mval_scaled [of e "mag_of d"] by (simp add: smant_def dval_def)

lemma plus_rounds:
  assumes "finite_double a" and "finite_double b"
  shows "rounds_to (a + b) (dval a + dval b)"
proof -
  define ea eb e where "ea = expo (mag_of a)" and "eb = expo (mag_of b)" and "e = min ea eb"
  define s where "s = smant a * 2 ^ (ea - e) + smant b * 2 ^ (eb - e)"
  have sum: "of_int s * 2 powi (int e - 1074) = dval a + dval b"
    using smant_scaled [of e a] smant_scaled [of e b] by (simp add: s_def ea_def eb_def e_def distrib_right)
  have ab: "a + b = (if s = 0 then pack (sign_of a \<and> sign_of b) 0
      else pack (s < 0) (round_mag (nat \<bar>s\<bar>) 1 (int e - 1074)))"
    using finite_not [OF assms(1)] finite_not [OF assms(2)]
    by (simp add: plus_double_def Let_def flip: ea_def eb_def e_def s_def)
  show ?thesis
  proof (cases "s = 0")
    case True
    then have "dval a + dval b = 0" using sum by simp
    then show ?thesis using True by (simp add: ab rounds_zero)
  next
    case False
    have "real (nat \<bar>s\<bar>) = \<bar>of_int s\<bar>" by simp
    then have "round_mag (nat \<bar>s\<bar>) 1 (int e - 1074) = rnd \<bar>dval a + dval b\<bar>"
      using round_mag_rnd [of 1 "nat \<bar>s\<bar>" "int e - 1074"] by (simp add: abs_mult flip: sum)
    moreover have "0 < (2::real) powi (int e - 1074)" by simp
    then have "\<not> (2::real) powi (int e - 1074) < 0" by linarith
    then have "s < 0 \<longleftrightarrow> dval a + dval b < 0" by (auto simp: mult_less_0_iff simp flip: sum)
    ultimately show ?thesis using False rounds_pack [of "dval a + dval b" "s < 0"] by (simp add: ab)
  qed
qed

lemma minus_rounds: "finite_double a \<Longrightarrow> finite_double b \<Longrightarrow> rounds_to (a - b) (dval a - dval b)"
  using plus_rounds [of a "- b"] by (simp add: minus_double_def dval_uminus)

lemma sign_xor_product: "dval a * dval b = 0 \<or> ((sign_of a \<noteq> sign_of b) \<longleftrightarrow> dval a * dval b < 0)"
  using mval_nonneg [of "mag_of a"] mval_nonneg [of "mag_of b"]
  by (auto simp: dval_def mult_less_0_iff)

lemma times_rounds:
  assumes "finite_double a" and "finite_double b"
  shows "rounds_to (a * b) (dval a * dval b)"
proof -
  let ?e = "int (expo (mag_of a)) + int (expo (mag_of b)) - 2148"
  have "real (mant (mag_of a) * mant (mag_of b)) * 2 powi ?e =
      mval (mag_of a) * mval (mag_of b)"
    using powi2_add [of "int (expo (mag_of a)) - 1074" "int (expo (mag_of b)) - 1074"] by (simp add: mval_powi algebra_simps)
  then have "round_mag (mant (mag_of a) * mant (mag_of b)) 1 ?e = rnd \<bar>dval a * dval b\<bar>"
    using round_mag_rnd [of 1 "mant (mag_of a) * mant (mag_of b)" ?e] by (simp add: abs_mult abs_dval)
  then have "a * b = pack (sign_of a \<noteq> sign_of b) (rnd \<bar>dval a * dval b\<bar>)"
    using finite_not [OF assms(1)] finite_not [OF assms(2)] by (simp add: times_double_def Let_def)
  then show ?thesis using rounds_pack [OF sign_xor_product] by simp
qed

lemma divide_rounds:
  assumes "finite_double a" and "finite_double b" and "dval b \<noteq> 0"
  shows "rounds_to (a / b) (dval a / dval b)"
proof -
  let ?e = "int (expo (mag_of a)) - int (expo (mag_of b))"
  have b: "mag_of b \<noteq> 0" using assms(3) by (cases "mag_of b = 0") (simp_all add: dval_def split: if_splits)
  have "real (mant (mag_of a)) / real (mant (mag_of b)) * 2 powi ?e = mval (mag_of a) / mval (mag_of b)"
    using power_int_diff [of "2::real" "int (expo (mag_of a)) - 1074" "int (expo (mag_of b)) - 1074"] by (simp add: mval_powi)
  then have "round_mag (mant (mag_of a)) (mant (mag_of b)) ?e = rnd \<bar>dval a / dval b\<bar>"
    using round_mag_rnd [of "mant (mag_of b)" "mant (mag_of a)" ?e] b mant_0_iff [of "mag_of b"]
    by (simp add: abs_dval abs_divide neq0_conv [symmetric] del: neq0_conv)
  then have "a / b = pack (sign_of a \<noteq> sign_of b) (rnd \<bar>dval a / dval b\<bar>)"
    using finite_not [OF assms(1)] finite_not [OF assms(2)] b by (simp add: divide_double_def Let_def)
  moreover have "dval a / dval b = 0 \<or> ((sign_of a \<noteq> sign_of b) \<longleftrightarrow> dval a / dval b < 0)"
    using sign_xor_product [of a b] by (auto simp: divide_less_0_iff mult_less_0_iff)
  ultimately show ?thesis using rounds_pack [of "dval a / dval b" "sign_of a \<noteq> sign_of b"] by metis
qed

lemma less_dval:
  assumes "finite_double a" and "finite_double b"
  shows "a < b \<longleftrightarrow> dval a < dval b"
proof -
  have m: "m < n \<longleftrightarrow> mval m < mval n" for m n using mval_strict_mono [of m n] mval_mono [of n m] by force
  have "skey a < skey b \<longleftrightarrow> dval a < dval b"
    using mval_nonneg [of "mag_of a"] mval_nonneg [of "mag_of b"] m [of "mag_of a" "mag_of b"] m [of "mag_of b" "mag_of a"]
      m [of 0 "mag_of a"] m [of 0 "mag_of b"]
    by (auto simp: skey_def dval_def)
  then show ?thesis using assms finite_not by (simp add: less_double_def)
qed

lemma finite_dval: "mag_of d \<le> inf_mag \<Longrightarrow> finite_double d \<longleftrightarrow> \<bar>dval d\<bar> < 2 ^ 1024"
proof -
  assume d: "mag_of d \<le> inf_mag"
  show ?thesis
  proof (cases "mag_of d = inf_mag")
    case False
    then have "mag_of d < inf_mag" using d by simp
    then show ?thesis using mval_strict_mono [of "mag_of d" inf_mag] by (simp add: finite_double_def abs_dval mval_inf)
  qed (simp add: finite_double_def abs_dval mval_inf)
qed

text \<open>A result that is not too large is finite, and close to the exact one.\<close>

lemma rval_upper: "0 \<le> x \<Longrightarrow> rval x \<le> (1 + half_ulp) * x + 2 powi -1075"
  using mval_rnd_upper [of x] by (simp add: rval_nonneg)

lemma rounds_finite:
  assumes "rounds_to d x" and "0 \<le> x" and "x \<le> 2 ^ 1000"
  shows "finite_double d" and "dval d = rval x" and "0 \<le> dval d"
proof -
  show v: "dval d = rval x" "0 \<le> dval d" using assms(1,2) rval_ge_0 [of x] by (simp_all add: rounds_to_def)
  have "(1 + half_ulp) * x \<le> 2 * x" using assms(2) by (intro mult_right_mono) (simp_all add: half_ulp_def)
  moreover have "(2::real) powi -1075 \<le> 2 powi 0" by (rule powi2_mono) simp
  ultimately have "rval x \<le> 2 * 2 ^ 1000 + 1" using rval_upper [OF assms(2)] assms(3) by simp
  also have "(2::real) * 2 ^ 1000 + 1 < 2 ^ 1024" by simp
  finally show "finite_double d" using assms(1) v finite_dval [of d] by (simp add: rounds_to_def)
qed

end
