(* ===== verification/Projection.thy ===== *)
theory Projection
  imports Map_Correct Ieee_Signed
begin

text \<open>
  The projector keeps every place on the canvas: at least the padding away from the left and the
  upper edge, and from the right and the lower edge up to rounding, where the places are not all in
  one line.
\<close>

section \<open>Moderate doubles\<close>

text \<open>At most \<open>2 ^ 100\<close> in absolute value.\<close>

definition moderate :: "double \<Rightarrow> bool" where
  "moderate d \<longleftrightarrow> mag_of d \<le> 1123 * 2 ^ 52"

lemma moderateD:
  assumes "moderate d"
  shows "finite_double d" and "\<bar>dval d\<bar> \<le> 2 ^ 100"
proof -
  have m: "mag_of d \<le> 1123 * 2 ^ 52" using assms by (simp add: moderate_def)
  then show "finite_double d" by (simp add: finite_double_def inf_mag_def)
  have "\<bar>dval d\<bar> \<le> mval (Suc 1122 * 2 ^ 52)" using mval_mono [OF m] by (simp add: abs_dval)
  also have "\<dots> = 2 ^ 100" unfolding mval_binade by simp
  finally show "\<bar>dval d\<bar> \<le> 2 ^ 100" .
qed

lemma moderate_le: "moderate d \<Longrightarrow> dval d \<le> 2 ^ 100" "moderate d \<Longrightarrow> - (2 ^ 100) \<le> dval d"
  using moderateD(2) [of d] by (simp_all add: abs_le_iff)

definition tiny :: real where
  "tiny = 2 powi -1075"

lemma tiny_bounds: "0 \<le> tiny" "tiny * 2 ^ 1000 \<le> 1"
proof -
  show "0 \<le> tiny" by (simp add: tiny_def)
  have "tiny * 2 ^ 1000 = 2 powi (-1075 + 1000)"
    by (simp only: tiny_def powi2_add) (simp only: power_int_numeral)
  also have "\<dots> \<le> 2 powi 0" by (rule powi2_mono) simp
  finally show "tiny * 2 ^ 1000 \<le> 1" by simp
qed

lemma rval_le: "0 \<le> x \<Longrightarrow> rval x \<le> (1 + half_ulp) * x + tiny"
  using rval_upper [of x] by (simp add: tiny_def)

lemma difference:
  assumes "moderate a" and "moderate b" and "dval b \<le> dval a"
  shows "finite_double (a - b)" and "dval (a - b) = rval (dval a - dval b)"
    and "0 \<le> dval (a - b)" and "dval (a - b) \<le> 2 ^ 102"
proof -
  have "rounds_to (a - b) (dval a - dval b)" using moderateD(1) assms(1,2) by (intro minus_rounds)
  moreover have le: "dval a - dval b \<le> 2 ^ 101" using moderate_le [OF assms(1)] moderate_le [OF assms(2)] by simp
  moreover have "(2::real) ^ 101 \<le> 2 ^ 1000" by (rule power_increasing) simp_all
  ultimately show d: "finite_double (a - b)" "dval (a - b) = rval (dval a - dval b)" "0 \<le> dval (a - b)"
    using rounds_finite [of "a - b" "dval a - dval b"] assms(3) by simp_all
  have "rval (dval a - dval b) \<le> (1 + half_ulp) * (dval a - dval b) + tiny" using assms(3) by (intro rval_le) simp
  also have "\<dots> \<le> 3 / 2 * 2 ^ 101 + 1"
    using le assms(3) tiny_bounds by (intro add_mono mult_mono) (simp_all add: half_ulp_def)
  finally show "dval (a - b) \<le> 2 ^ 102" unfolding d(2) by simp
qed

section \<open>The zoom\<close>

lemma mval_twice:
  assumes "n \<le> 1123 * 2 ^ 52"
  shows "\<exists>k \<le> inf_mag. mval k = 2 * mval n"
proof (cases "n < 2 ^ 52")
  case True
  have "mant (2 * n + 0 * 2 ^ 52) = 2 * n \<and> expo (2 * n + 0 * 2 ^ 52) = 0"
    using True by (intro mant_expo_join) simp_all
  then have "mval (2 * n) = 2 * mval n" using True by (simp add: mval_def mant_def [of n] expo_def [of n])
  moreover have "2 * n \<le> inf_mag" using True by (simp add: inf_mag_def)
  ultimately show ?thesis by blast
next
  case False
  then have "2 ^ 52 \<le> mant n" by (simp add: mant_def)
  then have j: "mant (mant n + Suc (expo n) * 2 ^ 52) = mant n \<and> expo (mant n + Suc (expo n) * 2 ^ 52) = Suc (expo n)"
    using mant_less by (intro mant_expo_join) simp_all
  have sum: "n + 2 ^ 52 = mant n + Suc (expo n) * 2 ^ 52" using mant_expo [of n] by simp
  have "mval (n + 2 ^ 52) = real (mant n) * 2 ^ Suc (expo n) / 2 ^ 1074" unfolding mval_def sum by (simp only: j)
  then have "mval (n + 2 ^ 52) = 2 * mval n" by (simp add: mval_def)
  moreover have "n + 2 ^ 52 \<le> inf_mag" using assms by (simp add: inf_mag_def)
  ultimately show ?thesis by blast
qed

text \<open>A canvas of the given extent that is at least as wide as both its paddings.\<close>

definition canvas :: "double \<Rightarrow> double \<Rightarrow> bool" where
  "canvas extent p \<longleftrightarrow> moderate extent \<and> moderate p \<and> 0 \<le> dval p \<and> 2 * dval p \<le> dval extent"

lemma two: "finite_double (double_of_int 2)" "dval (double_of_int 2) = 2"
proof -
  show v: "dval (double_of_int 2) = 2" using double_of_int_exact [of 2] by simp
  have "mag_of (double_of_int 2) \<le> inf_mag" by (intro nonneg_mag_le nonneg_of_int) simp
  then show "finite_double (double_of_int 2)" by (simp add: finite_dval v)
qed

lemma drawing_space:
  assumes "canvas w p"
  defines "s \<equiv> w - double_of_int 2 * p"
  shows "finite_double s" and "0 \<le> dval s" and "dval s \<le> (1 + half_ulp) * (dval w - 2 * dval p) + tiny"
    and "dval s \<le> 2 ^ 102"
proof -
  have w: "moderate w" "moderate p" "0 \<le> dval p" "2 * dval p \<le> dval w" using assms(1) by (simp_all add: canvas_def)
  have big: "(2::real) ^ 101 \<le> 2 ^ 1000" by (rule power_increasing) simp_all
  have "rounds_to (double_of_int 2 * p) (2 * dval p)" using times_rounds [OF two(1) moderateD(1) [OF w(2)]] by (simp add: two)
  moreover have "2 * dval p \<le> 2 ^ 1000" using moderate_le(1) [OF w(2)] big by simp
  ultimately have pp: "finite_double (double_of_int 2 * p)" "dval (double_of_int 2 * p) = rval (2 * dval p)"
    using rounds_finite w(3) by simp_all
  obtain k where k: "k \<le> inf_mag" "mval k = 2 * mval (mag_of p)"
    using mval_twice [of "mag_of p"] w(2) by (auto simp: moderate_def)
  have "mval (mag_of p) = dval p" using abs_dval [of p] w(3) by simp
  then have two_p: "rval (2 * dval p) = 2 * dval p" using k rnd_mval [OF k(1)] w(3) by (simp add: rval_nonneg)
  have "rounds_to s (dval w - 2 * dval p)"
    using minus_rounds [OF moderateD(1) [OF w(1)] pp(1)] by (simp add: s_def pp(2) two_p)
  moreover have le: "dval w - 2 * dval p \<le> 2 ^ 100" using moderate_le(1) [OF w(1)] w(3) by simp
  ultimately show s: "finite_double s" "0 \<le> dval s" and v: "dval s \<le> (1 + half_ulp) * (dval w - 2 * dval p) + tiny"
    using rounds_finite [of s "dval w - 2 * dval p"] big rval_le [of "dval w - 2 * dval p"] w(4) by simp_all
  note v
  also have "(1 + half_ulp) * (dval w - 2 * dval p) + tiny \<le> 2 * 2 ^ 100 + 1"
    using le w(4) tiny_bounds by (intro add_mono mult_mono) (simp_all add: half_ulp_def)
  finally show "dval s \<le> 2 ^ 102" by simp
qed

lemma epsilon_bounds: "1 / 2 ^ 20 \<le> dval epsilon" "dval epsilon = rval (1 / 10 ^ 6)" "finite_double epsilon"
proof -
  have e: "epsilon = pack False (rnd \<bar>1 / 10 ^ 6\<bar>)"
    unfolding epsilon_def double_of_decimal_def mag_of_decimal_def by (subst round_mag_rnd) simp_all
  have "rounds_to epsilon (1 / 10 ^ 6)" unfolding e by (rule rounds_pack) simp
  then show v: "dval epsilon = rval (1 / 10 ^ 6)" and "finite_double epsilon"
    using rounds_finite [of epsilon "1 / 10 ^ 6"] by simp_all
  have "mval (Suc 1002 * 2 ^ 52) = 1 / 2 ^ 20" unfolding mval_binade by simp
  moreover have "rnd (mval (Suc 1002 * 2 ^ 52)) = Suc 1002 * 2 ^ 52" by (rule rnd_mval) (simp add: inf_mag_def)
  ultimately have "rval (1 / 2 ^ 20) = 1 / 2 ^ 20" unfolding rval_def by (metis not_less zero_le_divide_1_iff zero_le_numeral zero_le_power)
  moreover have "rval (1 / 2 ^ 20) \<le> rval (1 / 10 ^ 6)" by (rule rval_mono) simp
  ultimately show "1 / 2 ^ 20 \<le> dval epsilon" unfolding v by simp
qed

lemma is_zero_dval:
  assumes "finite_double d" and "0 \<le> dval d"
  shows "is_zero d \<longleftrightarrow> dval d < dval epsilon"
proof -
  have "mag_of (abs_double d) = mag_of d" "dval (abs_double d) = mval (mag_of d)"
    using mag_of_less [of d] by (simp_all add: abs_double_def dval_pack)
  moreover have "mval (mag_of d) = dval d" using abs_dval [of d] assms(2) by simp
  ultimately show ?thesis
    using less_dval [of "abs_double d" epsilon] assms(1) epsilon_bounds(3) by (simp add: is_zero_def finite_double_def)
qed

text \<open>The bound a zoom keeps: its range of differences fills the drawing space, up to rounding.\<close>

definition space_bound :: "double \<Rightarrow> double \<Rightarrow> real" where
  "space_bound w p = (1 + half_ulp) * ((1 + half_ulp) * (dval w - 2 * dval p) + tiny) + 2 ^ 102 * tiny"

definition zoom_ok :: "double \<Rightarrow> bool" where
  "zoom_ok z \<longleftrightarrow> finite_double z \<and> 0 \<le> dval z \<and> dval z \<le> 2 ^ 124"

lemma axis_zoom_ok:
  assumes c: "canvas w p" and d: "finite_double d" "0 \<le> dval d" "dval d \<le> 2 ^ 102" and z: "axis_zoom w p d = Some z"
  shows "zoom_ok z" and "dval d * dval z \<le> space_bound w p"
proof -
  define s where "s = w - double_of_int 2 * p"
  note s = drawing_space [OF c, folded s_def]
  have "\<not> is_zero d" and zs: "z = s / d" using z by (simp_all add: axis_zoom_def s_def split: if_splits)
  then have low: "1 / 2 ^ 20 \<le> dval d" using is_zero_dval [OF d(1,2)] epsilon_bounds(1) by simp
  then have pos: "0 < dval d" by (rule less_le_trans [rotated]) simp
  define q where "q = dval s / dval d"
  have q: "0 \<le> q" using s(2) pos by (simp add: q_def)
  have "q \<le> 2 ^ 102 / (1 / 2 ^ 20)" unfolding q_def using s(2,4) low by (intro frac_le) simp_all
  then have q2: "q \<le> 2 ^ 122" by simp
  have "rounds_to z q" unfolding zs q_def using d(1) s(1) pos by (intro divide_rounds) simp_all
  moreover have "(2::real) ^ 122 \<le> 2 ^ 1000" by (rule power_increasing) simp_all
  ultimately have zf: "finite_double z" "dval z = rval q" "0 \<le> dval z" using rounds_finite [of z q] q q2 by simp_all
  have up: "dval z \<le> (1 + half_ulp) * q + tiny" unfolding zf(2) by (rule rval_le [OF q])
  also have "\<dots> \<le> 2 * 2 ^ 122 + 1" using q q2 tiny_bounds by (intro add_mono mult_mono) (simp_all add: half_ulp_def)
  finally show "zoom_ok z" using zf by (simp add: zoom_ok_def)
  have "dval d * dval z \<le> dval d * ((1 + half_ulp) * q + tiny)" using up pos by (intro mult_left_mono) simp_all
  also have "\<dots> = (1 + half_ulp) * dval s + dval d * tiny"
  proof -
    have "dval d * q = dval s" using pos by (simp add: q_def)
    then show ?thesis by (simp only: distrib_left mult.left_commute [of "dval d"])
  qed
  also have "\<dots> \<le> (1 + half_ulp) * ((1 + half_ulp) * (dval w - 2 * dval p) + tiny) + 2 ^ 102 * tiny"
    using s(3) d(3) tiny_bounds by (intro add_mono mult_left_mono mult_right_mono) (simp_all add: half_ulp_def)
  finally show "dval d * dval z \<le> space_bound w p" by (simp add: space_bound_def)
qed

lemma min_double_ok:
  assumes "zoom_ok a" and "zoom_ok b"
  shows "zoom_ok (min_double a b) \<and> dval (min_double a b) \<le> dval a \<and> dval (min_double a b) \<le> dval b"
  using assms less_dval [of b a] by (simp add: min_double_def zoom_ok_def)

lemma zoom_of_ok:
  assumes "pred_option zoom_ok wz" and "pred_option zoom_ok hz"
  shows "zoom_ok (zoom_of wz hz) \<and> pred_option (\<lambda>z. dval (zoom_of wz hz) \<le> dval z) wz \<and>
    pred_option (\<lambda>z. dval (zoom_of wz hz) \<le> dval z) hz"
proof -
  have zero: "zoom_ok 0" by (simp add: zoom_ok_def finite_double_def inf_mag_def)
  show ?thesis
    using assms min_double_ok [of "the wz" "the hz"] by (cases wz; cases hz) (simp_all add: zoom_of_def zero)
qed

section \<open>One coordinate\<close>

lemma projected:
  assumes z: "zoom_ok z" and d: "finite_double d" "0 \<le> dval d" "dval d \<le> 2 ^ 102" and c: "canvas w p"
  shows "dval p \<le> dval (d * z + p)"
    and "dval (d * z + p) \<le> (1 + half_ulp) * ((1 + half_ulp) * (dval d * dval z) + tiny + dval p) + tiny"
proof -
  have p: "moderate p" "0 \<le> dval p" using c by (simp_all add: canvas_def)
  have zz: "finite_double z" "0 \<le> dval z" "dval z \<le> 2 ^ 124" using z by (simp_all add: zoom_ok_def)
  have nn: "0 \<le> dval d * dval z" using d(2) zz(2) by simp
  have "dval d * dval z \<le> 2 ^ 102 * 2 ^ 124" using d(2,3) zz(2,3) by (intro mult_mono) simp_all
  then have le: "dval d * dval z \<le> 2 ^ 226" by simp
  have big: "(2::real) ^ 226 \<le> 2 ^ 1000" "(2::real) ^ 228 \<le> 2 ^ 1000" by simp_all
  have "rounds_to (d * z) (dval d * dval z)" by (rule times_rounds [OF d(1) zz(1)])
  note f = rounds_finite [OF this nn order_trans [OF le big(1)]]
  have fu: "dval (d * z) \<le> (1 + half_ulp) * (dval d * dval z) + tiny" unfolding f(2) by (rule rval_le [OF nn])
  also have "\<dots> \<le> 2 * 2 ^ 226 + 1" using le nn tiny_bounds by (intro add_mono mult_mono) (simp_all add: half_ulp_def)
  finally have sum: "dval (d * z) + dval p \<le> 2 ^ 228" using moderate_le(1) [OF p(1)] by simp
  have "rounds_to (d * z + p) (dval (d * z) + dval p)" by (rule plus_rounds [OF f(1) moderateD(1) [OF p(1)]])
  note x = rounds_finite(2) [OF this add_nonneg_nonneg [OF f(3) p(2)] order_trans [OF sum big(2)]]
  have "rval (dval p) = dval p" using p(1) by (intro rval_dval) (simp add: moderate_def inf_mag_def)
  then show "dval p \<le> dval (d * z + p)"
    using rval_mono [of "dval p" "dval (d * z) + dval p"] f(3) x by simp
  have "dval (d * z + p) \<le> (1 + half_ulp) * (dval (d * z) + dval p) + tiny"
    unfolding x using f(3) p(2) by (intro rval_le) simp
  also have "\<dots> \<le> (1 + half_ulp) * ((1 + half_ulp) * (dval d * dval z) + tiny + dval p) + tiny"
    using fu by (intro add_mono mult_left_mono) (simp_all add: half_ulp_def)
  finally show "dval (d * z + p) \<le> (1 + half_ulp) * ((1 + half_ulp) * (dval d * dval z) + tiny + dval p) + tiny" .
qed

section \<open>All places\<close>

lemma space_limit:
  assumes c: "canvas w p" and e: "e \<le> space_bound w p"
  shows "(1 + half_ulp) * ((1 + half_ulp) * e + tiny + dval p) + tiny \<le>
    (dval w - dval p) * (1 + 1 / 10 ^ 12) + 1 / 10 ^ 12"
proof -
  define a b k where "a = dval w - 2 * dval p" and "b = dval p" and "k = 1 + half_ulp"
  have ab: "0 \<le> a" "0 \<le> b" using c by (simp_all add: canvas_def a_def b_def)
  have k: "1 \<le> k" "k \<le> 2" "k ^ 4 \<le> 1 + 1 / 10 ^ 12" by (simp_all add: k_def half_ulp_def power4_eq_xxxx)
  have kk: "k * k \<le> 4" "k * (k * k) \<le> 8" using mult_mono [OF k(2) k(2)] mult_mono [OF k(2) mult_mono [OF k(2) k(2)]] k(1) by simp_all
  have e': "e \<le> k * (k * a + tiny) + 2 ^ 102 * tiny" using e unfolding space_bound_def a_def k_def .
  have "k * (k * e + tiny + b) + tiny \<le> k * (k * (k * (k * a + tiny) + 2 ^ 102 * tiny) + tiny + b) + tiny"
    using e' k(1) by (intro add_mono mult_left_mono) simp_all
  also have "\<dots> = k ^ 4 * a + k * b + (k * (k * k) + k * k * 2 ^ 102 + k + 1) * tiny" by (simp add: algebra_simps power4_eq_xxxx)
  also have "\<dots> \<le> k ^ 4 * a + k ^ 4 * b + (8 + 4 * 2 ^ 102 + 2 + 1) * tiny"
    using k kk ab tiny_bounds(1) power_increasing [of 1 4 k] by (intro add_mono mult_right_mono) simp_all
  also have "\<dots> \<le> (1 + 1 / 10 ^ 12) * a + (1 + 1 / 10 ^ 12) * b + 1 / 10 ^ 12"
    using k(3) ab tiny_bounds by (intro add_mono mult_right_mono) simp_all
  also have "\<dots> = (a + b) * (1 + 1 / 10 ^ 12) + 1 / 10 ^ 12" by (simp only: distrib_right mult.commute)
  also have "a + b = dval w - dval p" by (simp add: a_def b_def)
  finally show ?thesis unfolding k_def b_def .
qed

lemma minmax_moderate:
  assumes "\<forall>y \<in> insert x (set xs). moderate (key y)"
  obtains lo hi where "minmax_element key x xs = (lo, hi)" and "lo \<in> insert x (set xs)" and "hi \<in> insert x (set xs)"
    and "\<And>y. y \<in> insert x (set xs) \<Longrightarrow> dval (key lo) \<le> dval (key y) \<and> dval (key y) \<le> dval (key hi)"
proof -
  obtain lo hi where m: "minmax_element key x xs = (lo, hi)" by (cases "minmax_element key x xs")
  have fin: "finite_double (key y)" if "y \<in> insert x (set xs)" for y using assms that moderateD(1) by blast
  have "\<forall>y \<in> insert x (set xs). \<not> is_nan (key y)" using fin finite_not(1) by blast
  then have lh: "lo \<in> insert x (set xs)" "hi \<in> insert x (set xs)"
    "\<And>y. y \<in> insert x (set xs) \<Longrightarrow> \<not> key y < key lo \<and> \<not> key hi < key y"
    using minmax_element_ok [of x xs key] m by auto
  have "dval (key lo) \<le> dval (key y) \<and> dval (key y) \<le> dval (key hi)" if "y \<in> insert x (set xs)" for y
    using lh(3) [OF that] less_dval [OF fin [OF that] fin [OF lh(1)]] less_dval [OF fin [OF lh(2)] fin [OF that]] by simp
  then show ?thesis using that m lh(1,2) by blast
qed

text \<open>One axis: the zoom is at most the one for this axis where the places differ along it.\<close>

lemma axis_inside:
  assumes c: "canvas w p" and z: "zoom_ok z" "pred_option (\<lambda>y. dval z \<le> dval y) (axis_zoom w p (hi - lo))"
    and m: "moderate hi" "moderate lo" "moderate a" "moderate b"
    and order: "dval lo \<le> dval b" "dval b \<le> dval a" "dval a \<le> dval hi"
  shows "dval p \<le> dval ((a - b) * z + p)"
    and "1 / 10 ^ 6 \<le> dval hi - dval lo \<Longrightarrow>
      dval ((a - b) * z + p) \<le> (dval w - dval p) * (1 + 1 / 10 ^ 12) + 1 / 10 ^ 12"
proof -
  note d = difference [OF m(3,4) order(2)]
  note range = difference [OF m(1,2) order_trans [OF order(1) order_trans [OF order(2,3)]]]
  note x = projected [OF z(1) d(1,3,4) c]
  show "dval p \<le> dval ((a - b) * z + p)" by (rule x(1))
  assume far: "1 / 10 ^ 6 \<le> dval hi - dval lo"
  have "rval (1 / 10 ^ 6) \<le> dval (hi - lo)" unfolding range(2) using far by (rule rval_mono)
  then have "\<not> is_zero (hi - lo)" using is_zero_dval [OF range(1,3)] epsilon_bounds(2) by simp
  then obtain y where y: "axis_zoom w p (hi - lo) = Some y" by (simp add: axis_zoom_def)
  have "dval (a - b) \<le> dval (hi - lo)" unfolding d(2) range(2) using order by (intro rval_mono) simp
  moreover have "dval z \<le> dval y" using z(2) y by simp
  ultimately have "dval (a - b) * dval z \<le> dval (hi - lo) * dval y"
    using d(3) z(1) range(3) by (intro mult_mono) (simp_all add: zoom_ok_def)
  also have "\<dots> \<le> space_bound w p" by (rule axis_zoom_ok(2) [OF c range(1,3,4) y])
  finally show "dval ((a - b) * z + p) \<le> (dval w - dval p) * (1 + 1 / 10 ^ 12) + 1 / 10 ^ 12"
    using x(2) space_limit [OF c] by (meson order_trans)
qed

text \<open>Some two of the places differ by at least \<open>10 ^ -6\<close>.\<close>

definition spread :: "(coordinates \<Rightarrow> double) \<Rightarrow> coordinates list \<Rightarrow> bool" where
  "spread key cs \<longleftrightarrow> (\<exists>a \<in> set cs. \<exists>b \<in> set cs. 1 / 10 ^ 6 \<le> dval (key a) - dval (key b))"

theorem sphere_projector_inside:
  assumes w: "canvas w p" and h: "canvas h p" and m: "\<forall>c \<in> set cs. moderate (lng c) \<and> moderate (lat c)" and c: "c \<in> set cs"
  defines "pt \<equiv> project (sphere_projector_new cs w h p) c"
  shows "dval p \<le> dval (p_x pt)" and "dval p \<le> dval (p_y pt)"
    and "spread lng cs \<Longrightarrow> dval (p_x pt) \<le> (dval w - dval p) * (1 + 1 / 10 ^ 12) + 1 / 10 ^ 12"
    and "spread lat cs \<Longrightarrow> dval (p_y pt) \<le> (dval h - dval p) * (1 + 1 / 10 ^ 12) + 1 / 10 ^ 12"
proof -
  obtain c0 rest where cs: "cs = c0 # rest" using c by (cases cs) simp_all
  have set: "insert c0 (set rest) = set cs" by (simp add: cs)
  obtain l r where lr: "minmax_element lng c0 rest = (l, r)" "l \<in> set cs" "r \<in> set cs"
    "\<And>y. y \<in> set cs \<Longrightarrow> dval (lng l) \<le> dval (lng y) \<and> dval (lng y) \<le> dval (lng r)"
    using minmax_moderate [of c0 rest lng, unfolded set] m by blast
  obtain b t where bt: "minmax_element lat c0 rest = (b, t)" "b \<in> set cs" "t \<in> set cs"
    "\<And>y. y \<in> set cs \<Longrightarrow> dval (lat b) \<le> dval (lat y) \<and> dval (lat y) \<le> dval (lat t)"
    using minmax_moderate [of c0 rest lat, unfolded set] m by blast
  have ml: "moderate (lng l)" "moderate (lng r)" "moderate (lng c)" "moderate (lat b)" "moderate (lat t)" "moderate (lat c)"
    using m c lr(2,3) bt(2,3) by simp_all
  define wz hz where "wz = axis_zoom w p (lng r - lng l)" and "hz = axis_zoom h p (lat t - lat b)"
  define z where "z = zoom_of wz hz"
  have pt: "p_x pt = (lng c - lng l) * z + p" "p_y pt = (lat t - lat c) * z + p"
    using lr(1) bt(1) by (simp_all add: pt_def cs sphere_projector_new_def project_def z_def wz_def hz_def)
  have le: "dval (lng l) \<le> dval (lng r)" "dval (lat b) \<le> dval (lat t)"
    using lr(4) [OF lr(2)] bt(4) [OF bt(2)] by simp_all
  have "pred_option zoom_ok wz" "pred_option zoom_ok hz"
    using axis_zoom_ok(1) [OF w] axis_zoom_ok(1) [OF h] difference [OF ml(2,1) le(1)] difference [OF ml(5,4) le(2)]
    by (simp_all add: wz_def hz_def pred_option_def)
  note z = zoom_of_ok [OF this, folded z_def]
  have zx: "pred_option (\<lambda>y. dval z \<le> dval y) (axis_zoom w p (lng r - lng l))"
    and zy: "pred_option (\<lambda>y. dval z \<le> dval y) (axis_zoom h p (lat t - lat b))"
    using z by (simp_all add: wz_def hz_def)
  note x = axis_inside [OF w _ zx ml(2,1,3,1)]
  note y = axis_inside [OF h _ zy ml(5,4,5,6)]
  show "dval p \<le> dval (p_x pt)" "dval p \<le> dval (p_y pt)"
    unfolding pt using x(1) y(1) z lr(4) [OF c] bt(4) [OF c] by simp_all
  show "dval (p_x pt) \<le> (dval w - dval p) * (1 + 1 / 10 ^ 12) + 1 / 10 ^ 12" if s: "spread lng cs"
  proof -
    obtain a a' where "a \<in> set cs" "a' \<in> set cs" "1 / 10 ^ 6 \<le> dval (lng a) - dval (lng a')" using s by (auto simp: spread_def)
    then have "1 / 10 ^ 6 \<le> dval (lng r) - dval (lng l)" using lr(4) [of a] lr(4) [of a'] by linarith
    then show ?thesis unfolding pt using x(2) z lr(4) [OF c] by simp
  qed
  show "dval (p_y pt) \<le> (dval h - dval p) * (1 + 1 / 10 ^ 12) + 1 / 10 ^ 12" if s: "spread lat cs"
  proof -
    obtain a a' where "a \<in> set cs" "a' \<in> set cs" "1 / 10 ^ 6 \<le> dval (lat a) - dval (lat a')" using s by (auto simp: spread_def)
    then have "1 / 10 ^ 6 \<le> dval (lat t) - dval (lat b)" using bt(4) [of a] bt(4) [of a'] by linarith
    then show ?thesis unfolding pt using y(2) z bt(4) [OF c] by simp
  qed
qed

end
