(* ===== verification/Map_Props.thy ===== *)
theory Map_Props
  imports Projection Transport_Props
begin

text \<open>
  The properties of the SVG library, the renderer and the map request, with one bus between two
  stops as the example.
\<close>

text \<open>
  C23: \<^verbatim>\<open>Text::SetData\<close> ends on every text and stores it with every \<^verbatim>\<open>&\<close>, quote, apostrophe and angle
  bracket replaced by its entity, except that the first character is stored as it is: the
  search for a character starts at index 1.
\<close>

theorem set_data_escapes:
  "set_data s t = Inr (t\<lparr>t_data := take 1 s @ concat (map xml_escape (drop 1 s))\<rparr>)"
  by (simp add: set_data_ok escaped_text_def)

text \<open>
  C18: On a canvas that has room for its paddings, and with coordinates of at most \<open>2 ^ 100\<close>, the projector
  puts every place it was made for at least the padding away from the left and the upper edge; and from
  the right edge, up to one part in \<open>10 ^ 12\<close>, where two places differ in longitude by at least \<open>10 ^ -6\<close>, and
  likewise from the lower edge where two differ in latitude. All rounding is accounted for.
\<close>

theorem projected_inside:
  assumes "canvas w p" and "canvas h p" and "\<forall>c \<in> set cs. moderate (lng c) \<and> moderate (lat c)" and "c \<in> set cs"
    and "pt = project (sphere_projector_new cs w h p) c"
  shows "dval p \<le> dval (p_x pt) \<and> dval p \<le> dval (p_y pt) \<and>
    (spread lng cs \<longrightarrow> dval (p_x pt) \<le> (dval w - dval p) * (1 + 1 / 10 ^ 12) + 1 / 10 ^ 12) \<and>
    (spread lat cs \<longrightarrow> dval (p_y pt) \<le> (dval h - dval p) * (1 + 1 / 10 ^ 12) + 1 / 10 ^ 12)"
  using sphere_projector_inside [OF assms(1-4)] unfolding assms(5) by blast

lemma dval_one: "dval 1 = 1"
  using mval_binade [of 1022] by (simp add: one_double_def dval_pack)

lemma dval_512: "dval (pack False (1032 * 2 ^ 52)) = 512"
  using mval_binade [of 1031] by (simp add: dval_pack)

lemma projected_inside_witness:
  "\<exists>pt. pt = project (sphere_projector_new [\<lparr>lat = 0, lng = 1\<rparr>, \<lparr>lat = 1, lng = 0\<rparr>] (pack False (1032 * 2 ^ 52))
     (pack False (1032 * 2 ^ 52)) 1) \<lparr>lat = 0, lng = 1\<rparr> \<and>
     1 \<le> dval (p_x pt) \<and> dval (p_x pt) \<le> 511 * (1 + 1 / 10 ^ 12) + 1 / 10 ^ 12 \<and>
     1 \<le> dval (p_y pt) \<and> dval (p_y pt) \<le> 511 * (1 + 1 / 10 ^ 12) + 1 / 10 ^ 12"
proof -
  let ?w = "pack False (1032 * 2 ^ 52)" and ?cs = "[\<lparr>lat = 0, lng = 1\<rparr>, \<lparr>lat = 1, lng = 0\<rparr>]"
  have m: "moderate 1" "moderate 0" "moderate ?w" by (simp_all add: moderate_def one_double_def)
  have c: "canvas ?w 1" unfolding canvas_def dval_one dval_512 using m by simp
  have "spread lng ?cs" "spread lat ?cs" by (simp_all add: spread_def dval_one)
  then show ?thesis
    using projected_inside [OF c c, of ?cs "\<lparr>lat = 0, lng = 1\<rparr>"] m unfolding dval_512 dval_one by simp
qed

text \<open>C30: The map settings survive saving and loading, every kind of color included.\<close>

theorem map_settings_round_trip: "deserialize_map_render (save_map_render ms) = Inr ms"
  by (rule load_save_map_render)

text \<open>
  C15: \<^verbatim>\<open>RenderMap\<close>, with a non-empty palette, draws exactly the objects of \<open>map_objects\<close>: a line for each
  bus with stops, there and back unless it is a loop, colored in turn in the order of names; then
  the names of the buses at their ends; then a circle and then a name for each stop of a bus. The
  projection is the one of all places drawn; the order of the unordered map of buses does not matter
  for the choice and order of the objects.
\<close>

theorem render_map_objects:
  assumes "cat_ok (rh_db h)" and "color_palette (rh_render h) \<noteq> []"
    and "mset (pf_buses_order pf (buses_by_name (rh_db h))) = mset (buses_by_name (rh_db h))"
  shows "\<exists>cs. set cs = drawn_places (rh_db h) \<and>
    render_map pf h = Inr (map_objects (rh_db h) (rh_render h) (sphere_projector_new cs
      (ms_width (size_of_map (rh_render h))) (ms_height (size_of_map (rh_render h)))
      (ms_padding (size_of_map (rh_render h)))))"
  by (rule render_map_ok [OF assms])

definition demo_platform :: platform where
  "demo_platform = \<lparr>pf_libm = demo_libm, pf_buses_order = rev, pf_lengths_order = rev,
     pf_router_orders = demo_orders, pf_serialize = (\<lambda>_. []), pf_parse = (\<lambda>_. None)\<rparr>"

definition demo_handler :: request_handler where
  "demo_handler = \<lparr>rh_db = demo_catalogue,
     rh_render = map_settings_default\<lparr>color_palette := [Color_name ''green'']\<rparr>, rh_router = None\<rparr>"

lemma render_map_objects_witness:
  "\<exists>sp. render_map demo_platform demo_handler = Inr (map_objects demo_catalogue
     (map_settings_default\<lparr>color_palette := [Color_name ''green'']\<rparr>) sp)"
  using render_map_objects [of demo_handler demo_platform] demo_ok
  by (auto simp: demo_handler_def demo_platform_def)

text \<open>
  C39: With an empty palette the map request divides by zero as soon as one bus has a stop: undefined
  behaviour.
\<close>

theorem empty_palette_undefined:
  assumes "cat_ok (rh_db h)" and "color_palette (rh_render h) = []" and "drawn_buses (rh_db h) \<noteq> {}"
    and "mset (pf_buses_order pf (buses_by_name (rh_db h))) = mset (buses_by_name (rh_db h))"
  shows "render_map pf h = Inl Undefined_behaviour"
  by (rule render_map_no_palette [OF assms])

lemma empty_palette_undefined_witness:
  "render_map demo_platform (demo_handler\<lparr>rh_render := map_settings_default\<rparr>) = Inl Undefined_behaviour"
proof (rule empty_palette_undefined)
  have "''7'' \<in> drawn_buses demo_catalogue"
    by (simp add: drawn_buses_def bus_of_def demo_catalogue_def bnames_def)
  then show "drawn_buses (rh_db (demo_handler\<lparr>rh_render := map_settings_default\<rparr>)) \<noteq> {}"
    by (auto simp: demo_handler_def)
qed (simp_all add: demo_handler_def demo_platform_def map_settings_default_def demo_ok)

end
