(* ===== verification/Json_Reader.thy ===== *)
theory Json_Reader
  imports Request_Handler Json_Load Json_Print Json_Builder
begin

text \<open>
  \<^verbatim>\<open>json_reader.h\<close>, \<^verbatim>\<open>json_reader.cpp\<close> and \<^verbatim>\<open>main.cpp\<close>: reading the base and the requests, and the
  two modes of the program. Files are an association list from path to content; opening one to
  write makes it empty. A handler returns the files with its result, for they stay written when
  it throws. Arguments of a call are evaluated from left to right (the standard leaves this
  open; it matters only for which of two exceptions is thrown).
\<close>

type_synonym files = "(string, string) umap"

definition field :: "dict \<Rightarrow> string \<Rightarrow> node result" where
  "field d k = map_at (map_of d) k"

definition require_key :: "string \<Rightarrow> string \<Rightarrow> dict \<Rightarrow> unit result" where
  "require_key k msg d =
     (if map_of d k = None then Inl (Invalid_argument (''key not found: '' @ msg)) else Inr ())"

definition json_serialization_settings :: "document \<Rightarrow> string result" where
  "json_serialization_settings doc =
     bindR (as_dict (get_root doc)) (\<lambda>d. bindR (field d ''file'') as_string)"

section \<open>Reading the base\<close>

definition reader_bus :: "document \<Rightarrow> catalogue \<Rightarrow> catalogue result" where
  "reader_bus doc db =
     bindR (as_dict (get_root doc)) (\<lambda>d.
     bindR (require_key ''name'' ''name'' d) (\<lambda>_.
     bindR (require_key ''stops'' ''stops'' d) (\<lambda>_.
     bindR (require_key ''is_roundtrip'' ''is_roundtrip'' d) (\<lambda>_.
     bindR (bindR (field d ''name'') as_string) (\<lambda>name_bus.
     bindR (bindR (field d ''is_roundtrip'') as_bool) (\<lambda>is_loop.
     bindR (bindR (field d ''stops'') as_array) (\<lambda>stops.
     bindR (mapR as_string stops) (\<lambda>stop_names.
       add_bus name_bus stop_names is_loop db))))))))"

text \<open>\<^verbatim>\<open>std::abs\<close> of the least \<^verbatim>\<open>int\<close> is undefined.\<close>

definition abs_int :: "32 word \<Rightarrow> 32 word result" where
  "abs_int w = (if sint w = - (2 ^ 31) then Inl Undefined_behaviour else Inr (word_of_int \<bar>sint w\<bar>))"

definition reader_length :: "string \<Rightarrow> catalogue \<Rightarrow> string \<times> node \<Rightarrow> catalogue result" where
  "reader_length name_stop db p =
     (let (name_second_stop, lenght) = p in
      bindR (bindR (as_int lenght) abs_int) (\<lambda>l. add_length name_stop name_second_stop l db))"

definition reader_stop :: "document \<Rightarrow> catalogue \<Rightarrow> catalogue result" where
  "reader_stop doc db =
     bindR (as_dict (get_root doc)) (\<lambda>d.
     bindR (require_key ''name'' ''name'' d) (\<lambda>_.
     bindR (require_key ''latitude'' ''latitude'' d) (\<lambda>_.
     bindR (require_key ''longitude'' ''longitude'' d) (\<lambda>_.
     bindR (require_key ''road_distances'' ''road_distances'' d) (\<lambda>_.
     bindR (bindR (field d ''name'') as_string) (\<lambda>name_stop.
     bindR (bindR (field d ''latitude'') as_double) (\<lambda>latitude.
     bindR (bindR (field d ''longitude'') as_double) (\<lambda>longitude.
     bindR (bindR (field d ''road_distances'') as_dict) (\<lambda>map_lenght.
     bindR (add_stop name_stop \<lparr>lat = latitude, lng = longitude\<rparr> db) (\<lambda>db.
       foldR (reader_length name_stop) db map_lenght))))))))))"

definition reader_routing_settings :: "document \<Rightarrow> routing_settings result" where
  "reader_routing_settings doc =
     bindR (as_dict (get_root doc)) (\<lambda>d.
     bindR (require_key ''bus_wait_time'' ''bus wait time'' d) (\<lambda>_.
     bindR (require_key ''bus_velocity'' ''bus velocity'' d) (\<lambda>_.
     bindR (bindR (field d ''bus_wait_time'') as_int) (\<lambda>wait.
     bindR (bindR (field d ''bus_velocity'') as_int) (\<lambda>velocity.
       Inr \<lparr>bus_wait_time = ucast wait, bus_velocity = ucast velocity\<rparr>)))))"

definition arr_int :: "node list \<Rightarrow> nat \<Rightarrow> 8 word result" where
  "arr_int a i = bindR (bindR (vec_idx a i) as_int) (\<lambda>w. Inr (ucast w))"

definition reader_color :: "node \<Rightarrow> color result" where
  "reader_color n =
     (if is_string n then bindR (as_string n) (\<lambda>s. Inr (Color_name s))
      else bindR (as_array n) (\<lambda>a.
        bindR (arr_int a 0) (\<lambda>r. bindR (arr_int a 1) (\<lambda>g. bindR (arr_int a 2) (\<lambda>b.
          if length a = 4
          then bindR (bindR (vec_idx a 3) as_double) (\<lambda>a3.
                 Inr (Rgba_color \<lparr>red = r, green = g, blue = b, opacity = a3\<rparr>))
          else Inr (Rgb_color \<lparr>red = r, green = g, blue = b\<rparr>))))))"

definition reader_offset :: "node list \<Rightarrow> (double \<times> double) result" where
  "reader_offset a =
     bindR (bindR (vec_idx a 0) as_double) (\<lambda>x. bindR (bindR (vec_idx a 1) as_double) (\<lambda>y. Inr (x, y)))"

definition reader_map_settings :: "document \<Rightarrow> map_settings result" where
  "reader_map_settings doc =
     bindR (as_dict (get_root doc)) (\<lambda>d.
     bindR (bindR (field d ''width'') as_double) (\<lambda>w.
     bindR (bindR (field d ''height'') as_double) (\<lambda>h.
     bindR (bindR (field d ''padding'') as_double) (\<lambda>p.
     bindR (bindR (field d ''line_width'') as_double) (\<lambda>lw.
     bindR (bindR (field d ''stop_radius'') as_double) (\<lambda>sr.
     bindR (bindR (field d ''bus_label_font_size'') as_int) (\<lambda>bsize.
     bindR (bindR (field d ''bus_label_offset'') as_array) (\<lambda>boff.
     bindR (reader_offset boff) (\<lambda>bo.
     bindR (bindR (field d ''stop_label_font_size'') as_int) (\<lambda>ssize.
     bindR (bindR (field d ''stop_label_offset'') as_array) (\<lambda>soff.
     bindR (reader_offset soff) (\<lambda>so.
     bindR (bindR (field d ''underlayer_width'') as_double) (\<lambda>uw.
     bindR (bindR (field d ''underlayer_color'') reader_color) (\<lambda>uc.
     bindR (bindR (field d ''color_palette'') as_array) (\<lambda>pal.
     bindR (mapR reader_color pal) (\<lambda>cp.
       Inr (map_settings_new \<lparr>ms_width = w, ms_height = h, ms_padding = p\<rparr>
              \<lparr>line_width = lw, stop_radius = sr\<rparr> \<lparr>font_size = bsize, label_offset = bo\<rparr>
              \<lparr>font_size = ssize, label_offset = so\<rparr> uc uw cp)))))))))))))))))"

text \<open>The two loops over \<open>base_requests\<close>: buses first, then stops.\<close>

definition is_type :: "string \<Rightarrow> dict \<Rightarrow> bool result" where
  "is_type t d = bindR (field d ''type'') (\<lambda>n. Inr (node_eq n (NStr t)))"

definition base_bus :: "catalogue \<Rightarrow> node \<Rightarrow> catalogue result" where
  "base_bus db description =
     bindR (as_dict description) (\<lambda>d.
     bindR (require_key ''type'' ''type'' d) (\<lambda>_.
     bindR (is_type ''Bus'' d) (\<lambda>b.
       if b then reader_bus (document_new description) db else Inr db)))"

definition base_stop :: "catalogue \<Rightarrow> node \<Rightarrow> catalogue result" where
  "base_stop db description =
     bindR (as_dict description) (\<lambda>d.
     bindR (is_type ''Stop'' d) (\<lambda>b.
       if b then reader_stop (document_new description) db else Inr db))"

definition read_base :: "catalogue \<Rightarrow> node list \<Rightarrow> catalogue result" where
  "read_base db descriptions =
     bindR (foldR base_bus db descriptions) (\<lambda>db. foldR base_stop db descriptions)"

text \<open>The path of the base, from the query's settings.\<close>

definition base_path :: "document \<Rightarrow> string result" where
  "base_path query =
     bindR (as_dict (get_root query)) (\<lambda>d. bindR (field d ''serialization_settings'') (\<lambda>n.
       json_serialization_settings (document_new n)))"

definition make_base :: "platform \<Rightarrow> catalogue \<Rightarrow> document \<Rightarrow> string result" where
  "make_base pf db query =
     bindR (as_dict (get_root query)) (\<lambda>d.
     bindR (bindR (field d ''base_requests'') as_array) (\<lambda>descriptions.
     bindR (read_base db descriptions) (\<lambda>db.
     bindR (bindR (field d ''routing_settings'') (\<lambda>n. reader_routing_settings (document_new n))) (\<lambda>rs.
     bindR (transport_router_new rs db) (\<lambda>router.
     bindR (bindR (field d ''render_settings'') (\<lambda>n. reader_map_settings (document_new n))) (\<lambda>ms.
       serialization pf db ms router))))))"

definition json_base_request :: "platform \<Rightarrow> catalogue \<Rightarrow> string \<Rightarrow> files \<Rightarrow> files \<times> unit result" where
  "json_base_request pf db input fs =
     (case load input of
        Inl e \<Rightarrow> (fs, Inl e)
      | Inr (query, _) \<Rightarrow>
          (case base_path query of
             Inl e \<Rightarrow> (fs, Inl e)
           | Inr file_n \<Rightarrow>
               (case make_base pf db query of
                  Inl e \<Rightarrow> (um_put file_n [] fs, Inl e)
                | Inr bytes \<Rightarrow> (um_put file_n bytes fs, Inr ()))))"

section \<open>Answering requests\<close>

definition built :: "call list \<Rightarrow> node result" where
  "built cs = bindR (run_calls builder_new cs) b_build"

definition response_bus :: "bus_info \<Rightarrow> 32 word \<Rightarrow> node result" where
  "response_bus info rid =
     (if bi_exists info
      then built [StartDict, Key ''curvature'', Value (NDbl (curvature info)),
             Key ''request_id'', Value (NInt rid),
             Key ''route_length'', Value (NDbl (route_length info)),
             Key ''stop_count'', Value (NInt (quantity_stop info)),
             Key ''unique_stop_count'', Value (NInt (unique_stops info)), EndDict]
      else built [StartDict, Key ''request_id'', Value (NInt rid),
             Key ''error_message'', Value (NStr ''not found''), EndDict])"

definition response_stop :: "catalogue \<Rightarrow> string \<Rightarrow> 32 word \<Rightarrow> node result" where
  "response_stop db name_stop rid =
     (let info = get_info_stop db name_stop in
      if si_exists info
      then built ([StartDict, Key ''buses'', StartArray] @ map (\<lambda>b. Value (NStr b)) (si_buses info) @
             [EndArray, Key ''request_id'', Value (NInt rid), EndDict])
      else built [StartDict, Key ''error_message'', Value (NStr ''not found''),
             Key ''request_id'', Value (NInt rid), EndDict])"

text \<open>The node, and the text written to \<^verbatim>\<open>map.svg\<close>.\<close>

definition response_map :: "svg_document \<Rightarrow> 32 word \<Rightarrow> node \<times> string" where
  "response_map map_doc rid =
     (let stream_str = render_document map_doc
      in (NDict (sm_emplace ''request_id'' (NInt rid) (sm_emplace ''map'' (NStr stream_str) [])), stream_str))"

definition item_calls :: "component_trip \<Rightarrow> call list" where
  "item_calls item =
     (case span_count item of
        Some cnt \<Rightarrow> [StartDict, Key ''bus'', Value (NStr (ct_name item)), Key ''time'', Value (NDbl (ct_weight item)),
                    Key ''type'', Value (NStr ''Bus''), Key ''span_count'', Value (NInt cnt), EndDict]
      | None \<Rightarrow> [StartDict, Key ''stop_name'', Value (NStr (ct_name item)), Key ''time'', Value (NDbl (ct_weight item)),
                 Key ''type'', Value (NStr ''Wait''), EndDict])"

definition response_router :: "request_handler \<Rightarrow> string \<Rightarrow> string \<Rightarrow> 32 word \<Rightarrow> node result" where
  "response_router h from_n to_n rid =
     bindR (get_route_stat h from_n to_n) (\<lambda>info_ort.
       case info_ort of
         None \<Rightarrow> built [StartDict, Key ''error_message'', Value (NStr ''not found''),
                  Key ''request_id'', Value (NInt rid), EndDict]
       | Some info \<Rightarrow> built ([StartDict, Key ''items'', StartArray] @ concat (map item_calls (trip_items info)) @
                  [EndArray, Key ''request_id'', Value (NInt rid),
                   Key ''total_time'', Value (NDbl (total_time info)), EndDict]))"

definition name_of :: "dict \<Rightarrow> string result" where
  "name_of d = bindR (require_key ''name'' ''name'' d) (\<lambda>_. bindR (field d ''name'') as_string)"

definition id_of :: "dict \<Rightarrow> 32 word result" where
  "id_of d = bindR (field d ''id'') as_int"

text \<open>One iteration: the nodes appended to the answer, and a new content of \<^verbatim>\<open>map.svg\<close>.\<close>

definition answer :: "platform \<Rightarrow> request_handler \<Rightarrow> node \<Rightarrow> (node list \<times> string option) result" where
  "answer pf h request =
     bindR (as_dict request) (\<lambda>d.
     bindR (require_key ''type'' ''type'' d) (\<lambda>_.
     bindR (require_key ''id'' ''id'' d) (\<lambda>_.
     bindR (bindR (field d ''type'') as_string) (\<lambda>t.
       if t = ''Bus'' then
         bindR (name_of d) (\<lambda>n. bindR (get_bus_stat pf h n) (\<lambda>info. bindR (id_of d) (\<lambda>rid.
         bindR (response_bus info rid) (\<lambda>r. Inr ([r], None)))))
       else if t = ''Stop'' then
         bindR (name_of d) (\<lambda>n. bindR (id_of d) (\<lambda>rid.
         bindR (response_stop (rh_db h) n rid) (\<lambda>r. Inr ([r], None))))
       else if t = ''Map'' then
         bindR (render_map pf h) (\<lambda>doc. bindR (id_of d) (\<lambda>rid.
         let (r, svg_text) = response_map doc rid in Inr ([r], Some svg_text)))
       else if t = ''Route'' then
         bindR (bindR (field d ''from'') as_string) (\<lambda>f. bindR (bindR (field d ''to'') as_string) (\<lambda>to.
         bindR (id_of d) (\<lambda>rid. bindR (response_router h f to rid) (\<lambda>r. Inr ([r], None)))))
       else Inr ([], None)))))"

fun answer_all :: "platform \<Rightarrow> request_handler \<Rightarrow> files \<Rightarrow> node list \<Rightarrow> node list \<Rightarrow>
    files \<times> node list result" where
  "answer_all pf h fs acc [] = (fs, Inr acc)"
| "answer_all pf h fs acc (q # qs) =
     (case answer pf h q of
        Inl e \<Rightarrow> (fs, Inl e)
      | Inr (ns, svg_text) \<Rightarrow>
          answer_all pf h (case svg_text of None \<Rightarrow> fs | Some s \<Rightarrow> um_put ''map.svg'' s fs) (acc @ ns) qs)"

definition stat_requests_of :: "document \<Rightarrow> node list result" where
  "stat_requests_of query =
     bindR (as_dict (get_root query)) (\<lambda>d. bindR (field d ''stat_requests'') as_array)"

definition json_stat_request :: "platform \<Rightarrow> catalogue \<Rightarrow> map_settings \<Rightarrow> string \<Rightarrow> files \<Rightarrow>
    files \<times> string result" where
  "json_stat_request pf db ms input fs =
     (case bindR (load input) (\<lambda>(query, _).
             bindR (base_path query) (\<lambda>file_n.
             bindR (deserialization pf db ms (map_of fs file_n)) (\<lambda>(db, ms, router).
             bindR (stat_requests_of query) (\<lambda>qs.
               Inr (request_handler_new db ms router, qs))))) of
        Inl e \<Rightarrow> (fs, Inl e)
      | Inr (h, qs) \<Rightarrow>
          (case answer_all pf h fs [] qs of
             (fs, Inl e) \<Rightarrow> (fs, Inl e)
           | (fs, Inr ns) \<Rightarrow> (fs, Inr (print_doc (document_new (NArr ns))))))"

section \<open>Creator\<close>

text \<open>
  A creator owns the catalogue and the map renderer its reader refers to. \<^verbatim>\<open>main\<close> ends after one call,
  so what the call leaves in the creator's members is not observed.
\<close>

record creator =
  cr_catalogue :: catalogue
  cr_map_render :: map_settings

definition creator_new :: creator where
  "creator_new = \<lparr>cr_catalogue = catalogue_new, cr_map_render = map_settings_default\<rparr>"

definition initialize_catalogue :: "platform \<Rightarrow> creator \<Rightarrow> string \<Rightarrow> files \<Rightarrow> files \<times> unit result" where
  "initialize_catalogue pf cr input fs = json_base_request pf (cr_catalogue cr) input fs"

definition executing_requests :: "platform \<Rightarrow> creator \<Rightarrow> string \<Rightarrow> files \<Rightarrow> files \<times> string result" where
  "executing_requests pf cr input fs = json_stat_request pf (cr_catalogue cr) (cr_map_render cr) input fs"

lemmas creator_defs = creator_new_def initialize_catalogue_def executing_requests_def

section \<open>main\<close>

record process =
  pr_files :: files
  pr_out :: string
  pr_err :: string
  pr_status :: "int result"

definition usage :: string where
  "usage = ''Usage: transport_catalogue [make_base|process_requests]'' @ [CHR 0x0A]"

definition main_program :: "platform \<Rightarrow> string list \<Rightarrow> string \<Rightarrow> files \<Rightarrow> process" where
  "main_program pf argv input fs =
     (if length argv \<noteq> 2
      then \<lparr>pr_files = fs, pr_out = [], pr_err = usage, pr_status = Inr 1\<rparr>
      else if argv ! 1 = ''make_base'' then
        (let (fs, r) = initialize_catalogue pf creator_new input fs
         in \<lparr>pr_files = fs, pr_out = [], pr_err = [], pr_status = bindR r (\<lambda>_. Inr 0)\<rparr>)
      else if argv ! 1 = ''process_requests'' then
        (let (fs, r) = executing_requests pf creator_new input fs
         in \<lparr>pr_files = fs, pr_out = (case r of Inl _ \<Rightarrow> [] | Inr s \<Rightarrow> s), pr_err = [],
             pr_status = bindR r (\<lambda>_. Inr 0)\<rparr>)
      else \<lparr>pr_files = fs, pr_out = [], pr_err = usage, pr_status = Inr 1\<rparr>)"

end
