(* ===== verification/Reader_Correct.thy ===== *)
theory Reader_Correct
  imports Json_Reader Map_Correct Router_Round_Trip
begin

text \<open>
  What the reader builds: the answers' nodes, the catalogue of a base, and the handler of a saved
  base, which answers as the one that was saved.
\<close>

section \<open>Answers\<close>

definition bus_node :: "bus_info \<Rightarrow> 32 word \<Rightarrow> node" where
  "bus_node info rid =
     (if bi_exists info
      then NDict [(''curvature'', NDbl (curvature info)), (''request_id'', NInt rid),
             (''route_length'', NDbl (route_length info)), (''stop_count'', NInt (quantity_stop info)),
             (''unique_stop_count'', NInt (unique_stops info))]
      else NDict [(''error_message'', NStr ''not found''), (''request_id'', NInt rid)])"

text \<open>A builder with nothing finished, and its calls.\<close>

abbreviation building :: "node list \<Rightarrow> builder" where
  "building st \<equiv> \<lparr>b_root = NNull, nodes_stack = st\<rparr>"

lemma builder_steps:
  "apply_call StartDict (building []) = Inr (building [NDict []])"
  "apply_call StartDict (building (NArr a # st)) = Inr (building (NDict [] # NArr a # st))"
  "apply_call StartArray (building (NStr k # st)) = Inr (building (NArr [] # NStr k # st))"
  "apply_call (Key k) (building (NDict d # st)) = Inr (building (NStr k # NDict d # st))"
  "apply_call (Value v) (building (NStr k # NDict d # st)) = Inr (building (NDict (sm_emplace k v d) # st))"
  "apply_call (Value v) (building (NArr a # st)) = Inr (building (NArr (a @ [v]) # st))"
  "apply_call EndArray (building (NArr a # NStr k # NDict d # st)) = Inr (building (NDict (sm_emplace k (NArr a) d) # st))"
  "apply_call EndDict (building (NDict d # NArr a # st)) = Inr (building (NArr (a @ [NDict d]) # st))"
  "apply_call EndDict (building [NDict d]) = Inr \<lparr>b_root = NDict d, nodes_stack = []\<rparr>"
  by (simp_all add: builder_defs node_access is_null_def)

declare apply_call.simps [simp del]

lemma build_done: "b_build \<lparr>b_root = NDict d, nodes_stack = []\<rparr> = Inr (NDict d)"
  by (simp add: b_build_def is_null_def)

lemmas builder_run = built_def builder_new_def builder_steps build_done

lemma response_bus_ok: "response_bus info rid = Inr (bus_node info rid)"
  by (simp add: response_bus_def bus_node_def builder_run)

lemma run_values: "run_calls (building (NArr a # st)) (map Value vs) = Inr (building (NArr (a @ vs) # st))"
  by (induction vs arbitrary: a) (simp_all add: builder_steps)

definition stop_node :: "stop_info \<Rightarrow> 32 word \<Rightarrow> node" where
  "stop_node info rid =
     (if si_exists info
      then NDict [(''buses'', NArr (map NStr (si_buses info))), (''request_id'', NInt rid)]
      else NDict [(''error_message'', NStr ''not found''), (''request_id'', NInt rid)])"

lemma response_stop_ok: "response_stop db n rid = Inr (stop_node (get_info_stop db n) rid)"
proof -
  have "map (\<lambda>b. Value (NStr b)) (si_buses (get_info_stop db n)) =
      map Value (map NStr (si_buses (get_info_stop db n)))" by simp
  then show ?thesis
    by (simp only: response_stop_def stop_node_def Let_def)
      (simp add: builder_run run_values del: map_map)
qed

definition item_node :: "component_trip \<Rightarrow> node" where
  "item_node c =
     (case span_count c of
        Some k \<Rightarrow> NDict [(''bus'', NStr (ct_name c)), (''span_count'', NInt k), (''time'', NDbl (ct_weight c)),
                        (''type'', NStr ''Bus'')]
      | None \<Rightarrow> NDict [(''stop_name'', NStr (ct_name c)), (''time'', NDbl (ct_weight c)), (''type'', NStr ''Wait'')])"

definition route_node :: "trip_info option \<Rightarrow> 32 word \<Rightarrow> node" where
  "route_node info rid =
     (case info of
        None \<Rightarrow> NDict [(''error_message'', NStr ''not found''), (''request_id'', NInt rid)]
      | Some ti \<Rightarrow> NDict [(''items'', NArr (map item_node (trip_items ti))), (''request_id'', NInt rid),
                         (''total_time'', NDbl (total_time ti))])"

lemma run_items:
  "run_calls (building (NArr a # st)) (concat (map item_calls cs)) = Inr (building (NArr (a @ map item_node cs) # st))"
proof (induction cs arbitrary: a)
  case (Cons c cs)
  have "run_calls (building (NArr a # st)) (item_calls c) = Inr (building (NArr (a @ [item_node c]) # st))"
    by (cases "span_count c") (simp_all add: item_calls_def item_node_def builder_steps)
  then show ?case using Cons by simp
qed simp

lemma response_router_ok:
  "response_router h f t rid = bindR (get_route_stat h f t) (\<lambda>info. Inr (route_node info rid))"
proof -
  have node: "(case info of
         None \<Rightarrow> built [StartDict, Key ''error_message'', Value (NStr ''not found''),
                  Key ''request_id'', Value (NInt rid), EndDict]
       | Some info \<Rightarrow> built ([StartDict, Key ''items'', StartArray] @ concat (map item_calls (trip_items info)) @
                  [EndArray, Key ''request_id'', Value (NInt rid),
                   Key ''total_time'', Value (NDbl (total_time info)), EndDict])) = Inr (route_node info rid)" for info
    by (cases info) (simp_all add: builder_run run_items route_node_def)
  show ?thesis by (simp only: response_router_def node)
qed

section \<open>Reading the base\<close>

lemma reader_bus_ok:
  assumes db: "cat_ok db" and r: "reader_bus doc db = Inr db'"
  shows "cat_ok db'"
proof -
  obtain n ss l where "add_bus n ss l db = Inr db'" using r by (auto simp: reader_bus_def bindR_eq_Inr)
  then show ?thesis using add_bus_ok [OF db, of n ss l] by auto
qed

lemma reader_length_ok: "cat_ok db \<Longrightarrow> reader_length n db p = Inr db' \<Longrightarrow> cat_ok db'"
proof -
  assume db: "cat_ok db" and r: "reader_length n db p = Inr db'"
  obtain m v where p: "p = (m, v)" by (cases p)
  obtain l where l: "add_length n m l db = Inr db'" using r by (auto simp: reader_length_def p bindR_eq_Inr)
  then have "n \<in> set (snames db)" using add_length_unknown [of db n m l] db by (auto simp: cat_ok_def)
  then show "cat_ok db'" using add_length_ok [OF db, of n m l] l by auto
qed

lemma reader_stop_ok: "cat_ok db \<Longrightarrow> reader_stop doc db = Inr db' \<Longrightarrow> cat_ok db'"
proof -
  assume db: "cat_ok db" and r: "reader_stop doc db = Inr db'"
  obtain n x y ps db1 where s: "add_stop n \<lparr>lat = x, lng = y\<rparr> db = Inr db1" "foldR (reader_length n) db1 ps = Inr db'"
    using r by (auto simp: reader_stop_def bindR_eq_Inr)
  then have "cat_ok db1" using add_stop_ok [OF db, of n "\<lparr>lat = x, lng = y\<rparr>"] by auto
  then show "cat_ok db'" by (rule foldR_inv_Inr [OF s(2)]) (rule reader_length_ok)
qed

theorem read_base_ok:
  assumes "cat_ok db" and "read_base db ds = Inr db'"
  shows "cat_ok db'"
proof -
  obtain db1 where r: "foldR base_bus db ds = Inr db1" "foldR base_stop db1 ds = Inr db'"
    using assms(2) by (auto simp: read_base_def bindR_eq_Inr)
  have bus: "cat_ok c'" if "cat_ok c" "base_bus c d = Inr c'" for c c' d
    using that reader_bus_ok by (auto simp: base_bus_def bindR_eq_Inr split: if_splits)
  have stop: "cat_ok c'" if "cat_ok c" "base_stop c d = Inr c'" for c c' d
    using that reader_stop_ok by (auto simp: base_stop_def bindR_eq_Inr split: if_splits)
  have "cat_ok db1" by (rule foldR_inv_Inr [OF r(1)]) (rule assms(1), rule bus)
  then show ?thesis by (rule foldR_inv_Inr [OF r(2)]) (rule stop)
qed

end
