(* ===== verification/Saved_Base.thy ===== *)
theory Saved_Base
  imports Reader_Correct
begin

text \<open>
  Answers over a saved and loaded base. Loading changes the order of the lengths and the targets of
  the router's edges, and no answer depends on either.
\<close>

section \<open>The order of the lengths does not matter\<close>

abbreviation relength :: "(nat \<times> nat, 32 word) umap \<Rightarrow> catalogue \<Rightarrow> catalogue" where
  "relength L db \<equiv> db\<lparr>length_between_stops := L\<rparr>"

lemma relength_fields:
  "all_stops (relength L db) = all_stops db" "all_buses (relength L db) = all_buses db"
  "buses_by_name (relength L db) = buses_by_name db" "length_between_stops (relength L db) = L"
  by simp_all

lemma relength_lookups [simp]:
  "get_stop (relength L db) n = get_stop db n" "get_bus (relength L db) n = get_bus db n"
  "get_info_stop (relength L db) n = get_info_stop db n"
  "stop_availability (relength L db) n = stop_availability db n"
  "bus_availability (relength L db) n = bus_availability db n"
  by (simp_all add: get_stop_def get_bus_def get_info_stop_def stop_availability_def bus_availability_def)

lemma get_info_bus_relength:
  assumes "map_of L = map_of (length_between_stops db)"
  shows "get_info_bus m (relength L db) n = get_info_bus m db n"
proof -
  have "leg_length (relength L db) = leg_length db"
    by (intro ext) (simp only: leg_length_def assms relength_fields)
  then have "summation_length (relength L db) b = summation_length db b" for b
    by (simp only: summation_length_def)
  moreover have "leg_distance m (relength L db) = leg_distance m db"
    by (intro ext) (simp only: leg_distance_def relength_fields)
  then have "summation_line_length m (relength L db) b = summation_line_length m db b" for b
    by (simp only: summation_line_length_def)
  ultimately show ?thesis by (simp only: get_info_bus_def relength_lookups)
qed

lemma render_map_relength:
  assumes "rh_db h' = relength L (rh_db h)" and "rh_render h' = rh_render h"
  shows "render_map pf h' = render_map pf h"
proof -
  let ?db = "rh_db h"
  have "collect_stop (relength L ?db) = collect_stop ?db"
    by (intro ext) (simp only: collect_stop_def relength_fields)
  then have "collect_bus (relength L ?db) = collect_bus ?db"
    by (intro ext) (simp only: collect_bus_def relength_fields)
  moreover have "render_way (relength L ?db) = render_way ?db"
    by (intro ext) (simp only: render_way_def relength_fields)
  then have "draw_way (relength L ?db) = draw_way ?db"
    by (intro ext) (simp only: draw_way_def relength_lookups)
  moreover have "draw_label (relength L ?db) = draw_label ?db"
    by (intro ext) (simp only: draw_label_def relength_fields)
  then have "draw_bus_name (relength L ?db) = draw_bus_name ?db"
    by (intro ext) (simp only: draw_bus_name_def relength_lookups)
  moreover have "draw_stop (relength L ?db) = draw_stop ?db" "draw_stop_name (relength L ?db) = draw_stop_name ?db"
    by (intro ext; simp only: draw_stop_def draw_stop_name_def relength_lookups)+
  ultimately show ?thesis by (simp only: render_map_def assms relength_fields Let_def)
qed

lemma answer_relength:
  assumes db: "rh_db h' = relength L (rh_db h)" "map_of L = map_of (length_between_stops (rh_db h))"
    and ms: "rh_render h' = rh_render h" and r: "\<And>f t. get_route_stat h' f t = get_route_stat h f t"
  shows "answer pf h' q = answer pf h q"
proof -
  have "get_bus_stat pf h' = get_bus_stat pf h"
    by (intro ext) (simp only: get_bus_stat_def db(1) get_info_bus_relength [OF db(2)])
  moreover have "response_stop (rh_db h') = response_stop (rh_db h)"
    by (intro ext) (simp only: response_stop_def db(1) relength_lookups)
  moreover have "response_router h' = response_router h"
    by (intro ext) (simp only: response_router_def r)
  ultimately show ?thesis by (simp only: answer_def render_map_relength [OF db(1) ms])
qed

lemma answer_all_cong:
  assumes "\<And>q. answer pf h' q = answer pf h q"
  shows "answer_all pf h' fs acc qs = answer_all pf h fs acc qs"
  by (induction qs arbitrary: fs acc) (simp_all add: assms split: sum.split prod.split)

section \<open>What make_base computes\<close>

definition base_parts :: "catalogue \<Rightarrow> document \<Rightarrow>
    (catalogue \<times> routing_settings \<times> transport_router \<times> map_settings) result" where
  "base_parts db query =
     bindR (as_dict (get_root query)) (\<lambda>d.
     bindR (bindR (field d ''base_requests'') as_array) (\<lambda>descriptions.
     bindR (read_base db descriptions) (\<lambda>db.
     bindR (bindR (field d ''routing_settings'') (\<lambda>n. reader_routing_settings (document_new n))) (\<lambda>rs.
     bindR (transport_router_new rs db) (\<lambda>router.
     bindR (bindR (field d ''render_settings'') (\<lambda>n. reader_map_settings (document_new n))) (\<lambda>ms.
       Inr (db, rs, router, ms)))))))"

lemma make_base_parts:
  "make_base pf db query = bindR (base_parts db query) (\<lambda>(db, rs, router, ms). serialization pf db ms router)"
  by (simp add: make_base_def base_parts_def bindR_assoc)

lemma base_parts_ok:
  assumes "base_parts catalogue_new query = Inr (db, rs, router, ms)"
  shows "cat_ok db" and "transport_router_new rs db = Inr router" and "roads_known db"
proof -
  obtain ds where ds: "read_base catalogue_new ds = Inr db" and router: "transport_router_new rs db = Inr router"
    using assms by (auto simp: base_parts_def bindR_eq_Inr)
  show ok: "cat_ok db" using read_base_ok [OF cat_ok_new ds] .
  show "transport_router_new rs db = Inr router" by (rule router)
  show "roads_known db"
    using create_graph_fails [OF ok, of rs] router by (cases "roads_known db") (auto simp: transport_router_new_def)
qed

section \<open>Loading what was saved\<close>

text \<open>
  The hypotheses on the platform: traversing an unordered map visits each entry once, and protobuf
  parses the message of the base back from what it wrote.
\<close>

definition platform_ok :: "platform \<Rightarrow> bool" where
  "platform_ok pf \<longleftrightarrow> (\<forall>m. mset (pf_buses_order pf m) = mset m) \<and> (\<forall>m. mset (pf_lengths_order pf m) = mset m) \<and>
     orders_ok (pf_router_orders pf)"

definition base_message :: "platform \<Rightarrow> catalogue \<Rightarrow> map_settings \<Rightarrow> transport_router \<Rightarrow> common result" where
  "base_message pf db ms r =
     bindR (save_catalogue (pf_lengths_order pf) db) (\<lambda>c.
     bindR (save_transport_router (pf_router_orders pf) db r) (\<lambda>p.
       Inr \<lparr>c_map_settings = save_map_render ms, c_catalogue = c, c_router = p\<rparr>))"

definition wire_ok :: "platform \<Rightarrow> common result \<Rightarrow> bool" where
  "wire_ok pf msg \<longleftrightarrow> (\<forall>m. msg = Inr m \<longrightarrow> pf_parse pf (pf_serialize pf m) = Some m)"

lemma serialization_message: "serialization pf db ms r = bindR (base_message pf db ms r) (\<lambda>m. Inr (pf_serialize pf m))"
  by (simp add: serialization_def base_message_def bindR_assoc)

lemma deserialize_transport_router_relength:
  "deserialize_transport_router ord p (relength L db) = deserialize_transport_router ord p db"
proof -
  have "load_vertex (relength L db) = load_vertex db" "load_component (relength L db) = load_component db"
    by (intro ext; simp only: load_vertex_def load_component_def relength_lookups)+
  then show ?thesis by (simp only: deserialize_transport_router_def)
qed

theorem deserialize_serialized:
  assumes pf: "platform_ok pf" and db: "cat_ok db" and roads: "roads_known db" and v: "bus_velocity rs \<noteq> 0"
    and router: "transport_router_new rs db = Inr router" and fits: "fits router"
    and wire: "wire_ok pf (base_message pf db ms router)"
  shows "\<exists>bytes router'. serialization pf db ms router = Inr bytes \<and>
    deserialization pf db0 ms0 (Some bytes) =
      Inr (relength (pf_lengths_order pf (length_between_stops db)) db, ms, Some router') \<and>
    (\<forall>f t. get_route_info router' f t = get_route_info router f t)"
proof -
  let ?L = "pf_lengths_order pf (length_between_stops db)"
  have ok: "router_ok db rs router" using transport_router_new_ok [OF db roads v] router by simp
  have n: "n_stops db < 2 ^ 31" using fits router_okD(2) [OF ok] by (simp add: fits_def)
  have ord: "orders_ok (pf_router_orders pf)" and L: "mset ?L = mset (length_between_stops db)"
    using pf by (simp_all add: platform_ok_def)
  obtain p r' where pr: "save_transport_router (pf_router_orders pf) db router = Inr p"
    "deserialize_transport_router (pf_router_orders pf) p db = Inr r'"
    "\<forall>f t. get_route_info r' f t = get_route_info router f t"
    using deserialize_saved_router [OF db ok fits ord] by blast
  obtain c where c: "save_catalogue (pf_lengths_order pf) db = Inr c" "deserialize_catalogue c = Inr (relength ?L db)"
    using deserialize_saved [where iter = "pf_lengths_order pf", OF db n L] by (auto simp: bindR_eq_Inr)
  let ?m = "\<lparr>c_map_settings = save_map_render ms, c_catalogue = c, c_router = p\<rparr>"
  have msg: "base_message pf db ms router = Inr ?m" using pr(1) c(1) by (simp add: base_message_def)
  then have "serialization pf db ms router = Inr (pf_serialize pf ?m)" by (simp add: serialization_message)
  moreover have "pf_parse pf (pf_serialize pf ?m) = Some ?m" using wire msg by (simp add: wire_ok_def)
  then have "deserialization pf db0 ms0 (Some (pf_serialize pf ?m)) = Inr (relength ?L db, ms, Some r')"
    using c(2) pr(2) by (simp add: deserialization_def deserialize_transport_router_relength load_save_map_render)
  ultimately show ?thesis using pr(3) by blast
qed

text \<open>The two halves of a run: the base is written, and requests over it are answered as in memory.\<close>

definition answers_out :: "files \<times> node list result \<Rightarrow> files \<times> string result" where
  "answers_out x = (case x of
       (fs, Inl e) \<Rightarrow> (fs, Inl e)
     | (fs, Inr ns) \<Rightarrow> (fs, Inr (print_doc (document_new (NArr ns)))))"

theorem base_then_requests:
  assumes pf: "platform_ok pf"
    and base: "load base_in = Inr (q, rest)" "base_path q = Inr file_n"
      "base_parts catalogue_new q = Inr (db, rs, router, ms)"
    and lim: "bus_velocity rs \<noteq> 0" "fits router" "wire_ok pf (base_message pf db ms router)"
    and req: "load req_in = Inr (rq, rest')" "base_path rq = Inr file_n" "stat_requests_of rq = Inr qs"
  shows "\<exists>bytes. serialization pf db ms router = Inr bytes \<and>
    json_base_request pf catalogue_new base_in fs = (um_put file_n bytes fs, Inr ()) \<and>
    json_stat_request pf catalogue_new map_settings_default req_in (um_put file_n bytes fs) =
      answers_out (answer_all pf (request_handler_new db ms (Some router)) (um_put file_n bytes fs) [] qs)"
proof -
  let ?L = "pf_lengths_order pf (length_between_stops db)"
  note ok = base_parts_ok [OF base(3)]
  obtain bytes r' where s: "serialization pf db ms router = Inr bytes"
    "deserialization pf catalogue_new map_settings_default (Some bytes) = Inr (relength ?L db, ms, Some r')"
    "\<forall>f t. get_route_info r' f t = get_route_info router f t"
    using deserialize_serialized [OF pf ok(1,3) lim(1) ok(2) lim(2,3)] by blast
  have "mset ?L = mset (length_between_stops db)" using pf by (simp add: platform_ok_def)
  moreover have "um_ok (length_between_stops db)" using ok(1) by (simp add: cat_ok_def)
  ultimately have L: "map_of ?L = map_of (length_between_stops db)" by (intro map_of_reorder)
  let ?h = "request_handler_new db ms (Some router)" and ?h' = "request_handler_new (relength ?L db) ms (Some r')"
  have same: "answer_all pf ?h' fs acc qs = answer_all pf ?h fs acc qs" for fs acc
    by (rule answer_all_cong, rule answer_relength [where L = ?L])
      (use L s(3) in \<open>simp_all add: request_handler_new_def get_route_stat_def\<close>)
  have "json_base_request pf catalogue_new base_in fs = (um_put file_n bytes fs, Inr ())"
    using base s(1) by (simp add: json_base_request_def make_base_parts)
  moreover have "json_stat_request pf catalogue_new map_settings_default req_in (um_put file_n bytes fs) =
      answers_out (answer_all pf ?h (um_put file_n bytes fs) [] qs)"
    using req s(2) by (simp add: json_stat_request_def map_of_um_put same answers_out_def)
  ultimately show ?thesis using s(1) by blast
qed

end
