(* ===== verification/Reader_Props.thy ===== *)
theory Reader_Props
  imports Saved_Base Map_Props Json_Props
begin

text \<open>The properties of the JSON reader and of \<^verbatim>\<open>main\<close>.\<close>

text \<open>
  The builder calls of the three responses never throw, and each response is the object with
  exactly these members: the bus statistics, the stop's buses, the items of the route, or an error
  message; and the request's id.
\<close>

theorem responses_exact:
  "response_bus info rid = Inr (bus_node info rid) \<and>
   response_stop db n rid = Inr (stop_node (get_info_stop db n) rid) \<and>
   response_router h f t rid = bindR (get_route_stat h f t) (\<lambda>ti. Inr (route_node ti rid))"
  by (simp add: response_bus_ok response_stop_ok response_router_ok)

text \<open>
  C31: Whatever the base requests are, if they are read without an exception then the catalogue is
  consistent.
\<close>

theorem base_consistent:
  assumes "read_base catalogue_new descriptions = Inr db"
  shows "cat_ok db"
  by (rule read_base_ok [OF cat_ok_new assms])

definition demo_stop_request :: node where
  "demo_stop_request = NDict [(''latitude'', NInt 55), (''longitude'', NInt 37), (''name'', NStr ''A''),
     (''road_distances'', NDict []), (''type'', NStr ''Stop'')]"

lemmas reader_eval = as_dict_def as_string_def as_array_def as_int_def as_bool_def as_double_def is_double_def
  is_int_def is_string_def field_def require_key_def is_type_def node_eq.simps document_new_def get_root_def

lemma demo_stop_read: "\<exists>db. read_base catalogue_new [demo_stop_request] = Inr db"
  by (simp add: read_base_def base_bus_def base_stop_def demo_stop_request_def reader_stop_def reader_eval
      add_stop_def catalogue_new_def Let_def)

lemma base_consistent_witness:
  "\<exists>db. read_base catalogue_new [demo_stop_request] = Inr db \<and> cat_ok db"
  using demo_stop_read base_consistent by blast

text \<open>
  The routing settings are read from integers of the JSON and kept modulo \<open>2 ^ 16\<close>: a velocity
  of 65536 becomes 0.
\<close>

theorem settings_wrap:
  assumes "get_root doc = NDict d" and "map_of d ''bus_wait_time'' = Some (NInt w)"
    and "map_of d ''bus_velocity'' = Some (NInt v)"
  shows "\<exists>rs. reader_routing_settings doc = Inr rs \<and> uint (bus_wait_time rs) = uint w mod 2 ^ 16 \<and>
    uint (bus_velocity rs) = uint v mod 2 ^ 16"
  using assms by (simp add: reader_routing_settings_def reader_eval unsigned_ucast_eq take_bit_eq_mod)

lemma settings_wrap_witness:
  "\<exists>rs. reader_routing_settings (document_new (NDict [(''bus_velocity'', NInt 65536), (''bus_wait_time'', NInt 6)])) =
     Inr rs \<and> bus_velocity rs = 0"
proof -
  let ?doc = "document_new (NDict [(''bus_velocity'', NInt 65536), (''bus_wait_time'', NInt 6)])"
  obtain rs where "reader_routing_settings ?doc = Inr rs" "uint (bus_velocity rs) = uint (65536 :: 32 word) mod 2 ^ 16"
    using settings_wrap [of ?doc _ 6 65536] by (auto simp: document_new_def get_root_def)
  then show ?thesis by (simp add: uint_0_iff)
qed

text \<open>
  Settings without one of the two keys are rejected with \<^verbatim>\<open>std::invalid_argument\<close> naming it.
\<close>

theorem settings_missing_key:
  assumes "get_root doc = NDict d" and "map_of d ''bus_wait_time'' = None \<or> map_of d ''bus_velocity'' = None"
  shows "reader_routing_settings doc = Inl (Invalid_argument
    (if map_of d ''bus_wait_time'' = None then ''key not found: bus wait time'' else ''key not found: bus velocity''))"
  using assms by (auto simp: reader_routing_settings_def as_dict_def require_key_def)

lemma settings_missing_key_witness:
  "reader_routing_settings (document_new (NDict [(''bus_wait_time'', NInt 6)])) =
     Inl (Invalid_argument ''key not found: bus velocity'')"
  using settings_missing_key [of "document_new (NDict [(''bus_wait_time'', NInt 6)])" "[(''bus_wait_time'', NInt 6)]"]
  by (simp add: document_new_def get_root_def)

lemma zero_times_int: "double_of_int 1000 * double_of_int 0 = 0"
  by (simp add: dbl_eval)

text \<open>
  With velocity zero every leg of positive length takes infinite time: the router then still
  answers, but with infinite times.
\<close>

theorem zero_velocity_infinite:
  assumes "get_length db a b = Inr len" and "len \<noteq> 0" and "bus_velocity rs = 0"
  shows "\<exists>t. calculate_time db rs a b = Inr t \<and> is_inf t \<and> \<not> sign_of t"
proof -
  let ?l = "double_of_int (uint len)"
  have l: "0 < uint len" "uint len < 2 ^ 53" using assms(2) uint_bounded [of len]
    by (simp_all add: word_neq_0_conv word_less_def)
  note p = of_int_plain [OF l] and q = of_int_plain [of 60]
  have z: "\<not> is_nan (0 :: double)" "\<not> is_inf (0 :: double)" "\<not> sign_of (0 :: double)"
    by (simp_all add: is_nan_def is_inf_def zero_double_def inf_mag_def)
  have "?l / 0 = pack False inf_mag"
    using p z by (simp add: divide_double_def)
  then have "?l / 0 * double_of_int 60 = pack False inf_mag"
    using inf_mag_less q by (simp add: times_double_def) (simp add: is_nan_def is_inf_def)
  moreover have "is_inf (pack False inf_mag)" "\<not> sign_of (pack False inf_mag)"
    using inf_mag_less by (simp_all add: is_inf_def)
  ultimately show ?thesis using assms by (simp add: calculate_time_def zero_times_int)
qed

lemma zero_velocity_infinite_witness:
  "\<exists>t. calculate_time demo_catalogue \<lparr>bus_wait_time = 6, bus_velocity = 0\<rparr> ''A'' ''B'' = Inr t \<and> is_inf t"
  using zero_velocity_infinite [of demo_catalogue "''A''" "''B''" 1000 "\<lparr>bus_wait_time = 6, bus_velocity = 0\<rparr>"]
  by (auto simp: get_length_def demo_catalogue_def)

text \<open>
  When making the base fails after its path is known, an existing base file is left empty: it is
  opened for writing before the requests are read.
\<close>

theorem failed_base_empties_file:
  assumes "load input = Inr (query, rest)" and "base_path query = Inr file_n" and "make_base pf db query = Inl e"
  shows "json_base_request pf db input fs = (um_put file_n [] fs, Inl e)"
  using assms by (simp add: json_base_request_def)

definition demo_bad_base :: node where
  "demo_bad_base = NDict [(''serialization_settings'', NDict [(''file'', NStr ''db'')])]"

lemma load_demo_text: "no_dbl n \<Longrightarrow> node_ok n \<Longrightarrow> \<exists>rest. load (print_doc (document_new n)) = Inr (document_new n, rest)"
  using load_print_node [of n "[]"] by (auto simp: load_def print_doc_def document_new_def get_root_def)

lemma failed_base_empties_file_witness:
  "\<exists>e. json_base_request demo_platform catalogue_new (print_doc (document_new demo_bad_base)) [(''db'', ''old'')] =
     ([(''db'', [])], Inl e)"
proof -
  obtain rest where "load (print_doc (document_new demo_bad_base)) = Inr (document_new demo_bad_base, rest)"
    using load_demo_text [of demo_bad_base] by (auto simp: demo_bad_base_def sm_ok_def)
  moreover have "base_path (document_new demo_bad_base) = Inr ''db''"
    by (simp add: base_path_def demo_bad_base_def json_serialization_settings_def reader_eval)
  moreover have "make_base demo_platform catalogue_new (document_new demo_bad_base) = Inl Out_of_range"
    by (simp add: make_base_def demo_bad_base_def reader_eval)
  ultimately show ?thesis using failed_base_empties_file by fastforce
qed

lemma answer_all_files:
  "k \<noteq> ''map.svg'' \<Longrightarrow> map_of (fst (answer_all pf h fs acc qs)) k = map_of fs k"
proof (induction qs arbitrary: fs acc)
  case (Cons q qs)
  show ?case
  proof (cases "answer pf h q")
    case (Inr p)
    obtain ns s where "p = (ns, s)" by (cases p)
    then show ?thesis using Cons Inr by (cases s) (simp_all add: map_of_um_put)
  qed simp
qed simp

text \<open>
  C40: Answering requests changes no file but \<^verbatim>\<open>map.svg\<close>, whether it succeeds or throws.
\<close>

theorem requests_write_map_only:
  assumes "k \<noteq> ''map.svg''"
  shows "map_of (fst (json_stat_request pf db ms input fs)) k = map_of fs k"
proof -
  have "map_of (fst (answers_out (answer_all pf h fs acc qs))) k = map_of fs k" for h acc qs
    using answer_all_files [OF assms, of pf h fs acc qs] by (auto simp: answers_out_def split: prod.split sum.split)
  then show ?thesis
    by (simp add: json_stat_request_def answers_out_def split: sum.split prod.split)
qed

lemma requests_write_map_only_witness:
  "map_of (fst (json_stat_request demo_platform catalogue_new map_settings_default ''{}'' [(''db'', ''x'')])) ''db'' = Some ''x''"
  using requests_write_map_only [of "''db''" demo_platform catalogue_new map_settings_default "''{}''" "[(''db'', ''x'')]"]
  by simp

text \<open>
  When the base file is missing or does not parse, requests are answered from an empty catalogue,
  except that a route request dereferences a null pointer.
\<close>

theorem missing_base_route:
  assumes "Option.bind file (pf_parse pf) = None"
  shows "deserialization pf db ms file = Inr (db, ms, None) \<and>
    response_router (request_handler_new db ms None) f t rid = Inl Undefined_behaviour"
  using assms by (simp add: deserialization_def response_router_def get_route_stat_def request_handler_new_def)

lemma missing_base_route_witness:
  "response_router (request_handler_new catalogue_new map_settings_default None) ''A'' ''B'' 1 = Inl Undefined_behaviour"
  using missing_base_route [of None demo_platform catalogue_new map_settings_default "''A''" "''B''" 1] by simp

text \<open>
  A call without exactly one argument, or with an unknown mode, prints the usage on the error
  stream, returns 1 and changes no file.
\<close>

theorem usage_on_bad_mode:
  assumes "length argv \<noteq> 2 \<or> argv ! 1 \<notin> {''make_base'', ''process_requests''}"
  shows "main_program pf argv input fs = \<lparr>pr_files = fs, pr_out = [], pr_err = usage, pr_status = Inr 1\<rparr>"
  using assms by (auto simp: main_program_def)

lemma usage_on_bad_mode_witness:
  "pr_status (main_program demo_platform [''prog''] [] []) = Inr 1"
  using usage_on_bad_mode [of "[''prog'']" demo_platform "[]" "[]"] by simp

end
