(* ===== verification/Router_Near.thy ===== *)
theory Router_Near
  imports Router_Exact
begin

text \<open>
  The router over weights whose addition is rounded. The interface \<open>approx_weights\<close> extends
  \<open>weight_laws\<close> by the real value of a weight and the relative error \<open>u\<close> of one addition. The
  weight \<^verbatim>\<open>BuildRoute\<close> reports and the exact length of the route it returns are then within a
  factor of the exact length of every path that depends on \<open>u\<close> and the number of vertices alone.
  The invariants of the phases are those of \<open>Router_Exact\<close> up to one such factor per phase.
\<close>

locale approx_weights = weight_laws ok for ok :: "'w::{zero, plus, ord} \<Rightarrow> bool" +
  fixes val :: "'w \<Rightarrow> real" and fin :: "'w \<Rightarrow> bool" and u :: real
  assumes u_bounds: "0 \<le> u" "u < 1"
    and val_nonneg: "ok a \<Longrightarrow> 0 \<le> val a"
    and val_zero: "val 0 = 0"
    and val_mono: "ok a \<Longrightarrow> ok b \<Longrightarrow> wle a b \<Longrightarrow> val a \<le> val b"
    and val_plus_le: "ok a \<Longrightarrow> ok b \<Longrightarrow> val (a + b) \<le> (1 + u) * (val a + val b)"
    and fin_plus: "ok a \<Longrightarrow> ok b \<Longrightarrow> fin (a + b) \<Longrightarrow> fin a \<and> fin b"
    and fin_mono: "ok a \<Longrightarrow> ok b \<Longrightarrow> wle a b \<Longrightarrow> fin b \<Longrightarrow> fin a"
    and val_plus_ge: "ok a \<Longrightarrow> ok b \<Longrightarrow> fin (a + b) \<Longrightarrow> (1 - u) * (val a + val b) \<le> val (a + b)"

text \<open>The exact length of a path.\<close>

definition cost :: "('w \<Rightarrow> real) \<Rightarrow> 'w graph \<Rightarrow> nat list \<Rightarrow> real" where
  "cost val g ids = (\<Sum>e \<leftarrow> ids. val (edge_weight (edges g ! e)))"

lemma cost_simps [simp]: "cost val g [] = 0" "cost val g (xs @ ys) = cost val g xs + cost val g ys"
  "cost val g (e # ids) = val (edge_weight (edges g ! e)) + cost val g ids"
  by (simp_all add: cost_def)

definition lower_near :: "('w \<Rightarrow> real) \<Rightarrow> real \<Rightarrow> 'w graph \<Rightarrow> nat \<Rightarrow> 'w routes_internal_data \<Rightarrow> bool" where
  "lower_near val c g k t \<longleftrightarrow> (\<forall>i < get_vertex_count g. \<forall>j < get_vertex_count g. \<forall>ids.
     via g k i ids j \<longrightarrow> (\<exists>d. t ! i ! j = Some d \<and> val (rid_weight d) \<le> c ^ k * cost val g ids))"

definition tight_near :: "('w::ord \<Rightarrow> real) \<Rightarrow> ('w \<Rightarrow> bool) \<Rightarrow> real \<Rightarrow> 'w graph \<Rightarrow> nat \<Rightarrow> 'w routes_internal_data \<Rightarrow> bool" where
  "tight_near val fin c g k t \<longleftrightarrow> (\<forall>i < get_vertex_count g. \<forall>j < get_vertex_count g. \<forall>d e.
     t ! i ! j = Some d \<longrightarrow> prev_edge d = Some e \<longrightarrow> fin (rid_weight d) \<longrightarrow>
     (\<exists>d'. t ! i ! edge_from (edges g ! e) = Some d' \<and> wle (rid_weight d') (rid_weight d) \<and>
        val (rid_weight d') + val (edge_weight (edges g ! e)) \<le> c ^ k * val (rid_weight d)))"

lemma lower_nearD:
  "lower_near val c g k t \<Longrightarrow> via g k i ids j \<Longrightarrow> i < get_vertex_count g \<Longrightarrow> j < get_vertex_count g \<Longrightarrow>
     \<exists>d. t ! i ! j = Some d \<and> val (rid_weight d) \<le> c ^ k * cost val g ids"
  unfolding lower_near_def by blast

lemma tight_nearD:
  "tight_near val fin c g k t \<Longrightarrow> i < get_vertex_count g \<Longrightarrow> j < get_vertex_count g \<Longrightarrow>
     t ! i ! j = Some d \<Longrightarrow> prev_edge d = Some e \<Longrightarrow> fin (rid_weight d) \<Longrightarrow>
     \<exists>d'. t ! i ! edge_from (edges g ! e) = Some d' \<and> wle (rid_weight d') (rid_weight d) \<and>
        val (rid_weight d') + val (edge_weight (edges g ! e)) \<le> c ^ k * val (rid_weight d)"
  unfolding tight_near_def by blast

context approx_weights
begin

lemma edge_ok: "weights_ok ok g \<Longrightarrow> e < length (edges g) \<Longrightarrow> ok (edge_weight (edges g ! e))"
  by (simp add: weights_ok_def)

lemma cost_nonneg: "weights_ok ok g \<Longrightarrow> set ids \<subseteq> {..<length (edges g)} \<Longrightarrow> 0 \<le> cost val g ids"
  by (auto simp: cost_def intro!: sum_list_nonneg val_nonneg edge_ok)

lemma cost_sub:
  assumes "weights_ok ok g" and "set ids \<subseteq> {..<length (edges g)}" and "M \<subseteq># mset ids"
  shows "sum_mset (image_mset (\<lambda>e. val (edge_weight (edges g ! e))) M) \<le> cost val g ids"
proof -
  have "cost val g ids = sum_mset (image_mset (\<lambda>e. val (edge_weight (edges g ! e))) (mset ids))"
    by (simp add: cost_def sum_mset_sum_list flip: mset_map)
  moreover have "sum_mset (image_mset (\<lambda>e. val (edge_weight (edges g ! e))) M) \<le>
      sum_mset (image_mset (\<lambda>e. val (edge_weight (edges g ! e))) (mset ids))"
    using assms by (intro sum_mset_image_mono) (auto simp: edge_ok val_nonneg)
  ultimately show ?thesis by simp
qed

lemma cost_sub_list:
  assumes "weights_ok ok g" and "set ids \<subseteq> {..<length (edges g)}" and "mset xs \<subseteq># mset ids"
  shows "cost val g xs \<le> cost val g ids"
  using cost_sub [OF assms] by (simp add: cost_def sum_mset_sum_list flip: mset_map)

lemma row_entry_ok:
  "table_ok ok g t \<Longrightarrow> i < get_vertex_count g \<Longrightarrow> j < get_vertex_count g \<Longrightarrow> t ! i ! j = Some d \<Longrightarrow>
     ok (rid_weight d)"
  using row_ok_weight by (fastforce simp: table_ok_def)

lemma relaxed_keeps:
  assumes t: "table_ok ok g t" and k: "k < get_vertex_count g" and ij: "i < get_vertex_count g" "j < get_vertex_count g"
    and d: "t ! i ! j = Some d"
  shows "\<exists>d'. relaxed (\<lambda>a b. t ! a ! b) k i j = Some d' \<and> wle (rid_weight d') (rid_weight d)"
proof (cases "improves (\<lambda>a b. t ! a ! b) k i j")
  case True
  then obtain rf rt where r: "t ! i ! k = Some rf" "t ! k ! j = Some rt"
    "rid_weight rf + rid_weight rt < rid_weight d" using d by (auto simp: improves_def)
  then show ?thesis
    using relaxed_improves [of "\<lambda>a b. t ! a ! b", OF True r(1,2)] row_entry_ok [OF t] k ij d
    by (auto intro!: less_imp_wle ok_plus)
next
  case False
  then show ?thesis using d row_entry_ok [OF t ij d] by (auto simp: relaxed_not_improves intro: wle_refl)
qed

lemma relaxed_through:
  assumes t: "table_ok ok g t" and k: "k < get_vertex_count g" and ij: "i < get_vertex_count g" "j < get_vertex_count g"
    and r: "t ! i ! k = Some rf" "t ! k ! j = Some rt"
  shows "\<exists>d'. relaxed (\<lambda>a b. t ! a ! b) k i j = Some d' \<and> wle (rid_weight d') (rid_weight rf + rid_weight rt)"
  using relaxed_below [where R = "\<lambda>a b. t ! a ! b" and n = "get_vertex_count g" and g = g, OF _ _ k ij(2) r] t k ij
  by (simp add: table_ok_def)

lemma lower_near_0:
  assumes w: "weights_ok ok g" and t: "table_ok ok g t" and "direct_ok g t"
  shows "lower_near val c g 0 t"
proof -
  have "\<exists>d. t ! i ! j = Some d \<and> val (rid_weight d) \<le> cost val g ids"
    if v: "via g 0 i ids j" and ij: "i < get_vertex_count g" "j < get_vertex_count g" for i ids j
  proof -
    have row: "row_ok ok g (get_vertex_count g) i (\<lambda>j. t ! i ! j)"
      using t ij by (simp add: table_ok_def)
    from v consider "j = i" "ids = []" | e where "e < length (edges g)" "ids = [e]"
        "edge_from (edges g ! e) = i" "edge_to (edges g ! e) = j"
      by (auto elim: via_0E)
    then show ?thesis
    proof cases
      case 1
      then show ?thesis using row_ok_root [OF row] by (simp add: val_zero)
    next
      case (2 e)
      then obtain d where d: "t ! i ! j = Some d" "wle (rid_weight d) (edge_weight (edges g ! e))"
        using assms(3) unfolding direct_ok_def by blast
      then show ?thesis using val_mono [OF row_entry_ok [OF t ij d(1)] edge_ok [OF w 2(1)]] 2(2) by simp
    qed
  qed
  then show ?thesis by (simp add: lower_near_def)
qed

lemma lower_near_Suc:
  assumes w: "weights_ok ok g" and t: "table_ok ok g t" and low: "lower_near val (1 + u) g k t"
    and k: "k < get_vertex_count g" and tab: "table_ok ok g t'"
    and t': "\<forall>a < get_vertex_count g. \<forall>b < get_vertex_count g.
      t' ! a ! b = relaxed (\<lambda>a b. t ! a ! b) k a b"
  shows "lower_near val (1 + u) g (Suc k) t'"
proof -
  let ?c = "1 + u"
  have pos: "0 \<le> ?c ^ k" using u_bounds by simp
  have "\<exists>d. t' ! i ! j = Some d \<and> val (rid_weight d) \<le> ?c ^ Suc k * cost val g ids"
    if v: "via g (Suc k) i ids j" and ij: "i < get_vertex_count g" "j < get_vertex_count g" for i ids j
  proof -
    have ids: "set ids \<subseteq> {..<length (edges g)}" using path_valid [OF via_path [OF v]] .
    note sub = cost_sub [OF w ids]
    note valid = row_entry_ok [OF t] row_entry_ok [OF tab ij]
    from via_Suc [OF v] show ?thesis
    proof (elim disjE exE conjE)
      fix xs assume xs: "via g k i xs j" "mset xs \<subseteq># mset ids"
      obtain d where d: "t ! i ! j = Some d" "val (rid_weight d) \<le> ?c ^ k * cost val g xs"
        using lower_nearD [OF low xs(1) ij] by blast
      obtain d' where d': "t' ! i ! j = Some d'" "wle (rid_weight d') (rid_weight d)"
        using relaxed_keeps [OF t k ij d(1)] t' ij by auto
      have "val (rid_weight d') \<le> ?c ^ k * cost val g xs"
        using val_mono [OF valid(2) [OF d'(1)] valid(1) [OF ij d(1)] d'(2)] d(2) by linarith
      also have "\<dots> \<le> ?c ^ k * cost val g ids" using cost_sub_list [OF w ids xs(2)] pos by (rule mult_left_mono)
      also have "\<dots> \<le> ?c ^ Suc k * cost val g ids"
        using u_bounds cost_nonneg [OF w ids] by (intro mult_right_mono power_increasing) auto
      finally show ?thesis using d'(1) by blast
    next
      fix xs ys assume xs: "via g k i xs k" "via g k k ys j" "mset xs + mset ys \<subseteq># mset ids"
      obtain rf where rf: "t ! i ! k = Some rf" "val (rid_weight rf) \<le> ?c ^ k * cost val g xs"
        using lower_nearD [OF low xs(1) ij(1) k] by blast
      obtain rt where rt: "t ! k ! j = Some rt" "val (rid_weight rt) \<le> ?c ^ k * cost val g ys"
        using lower_nearD [OF low xs(2) k ij(2)] by blast
      obtain d' where d': "t' ! i ! j = Some d'" "wle (rid_weight d') (rid_weight rf + rid_weight rt)"
        using relaxed_through [OF t k ij rf(1) rt(1)] t' ij by auto
      have oks: "ok (rid_weight rf)" "ok (rid_weight rt)"
        using valid(1) [OF ij(1) k rf(1)] valid(1) [OF k ij(2) rt(1)] .
      have "val (rid_weight d') \<le> val (rid_weight rf + rid_weight rt)"
        using val_mono [OF valid(2) [OF d'(1)] _ d'(2)] oks ok_plus by blast
      also have "\<dots> \<le> ?c * (val (rid_weight rf) + val (rid_weight rt))" by (rule val_plus_le [OF oks])
      also have "\<dots> \<le> ?c * (?c ^ k * cost val g (xs @ ys))"
        using rf(2) rt(2) u_bounds by (intro mult_left_mono) (auto simp: distrib_left)
      also have "\<dots> \<le> ?c * (?c ^ k * cost val g ids)"
        using cost_sub_list [OF w ids, of "xs @ ys"] xs(3) pos u_bounds by (intro mult_left_mono) auto
      finally show ?thesis using d'(1) by (simp add: mult.assoc)
    qed
  qed
  then show ?thesis by (simp add: lower_near_def)
qed

text \<open>The sum of a list, added up from the left.\<close>

lemma foldl_near:
  assumes "ok a" and "\<forall>w \<in> set ws. ok w"
  shows "ok (foldl (+) a ws)"
    and "val (foldl (+) a ws) \<le> (1 + u) ^ length ws * (val a + (\<Sum>w \<leftarrow> ws. val w))"
    and "fin (foldl (+) a ws) \<Longrightarrow> (1 - u) ^ length ws * (val a + (\<Sum>w \<leftarrow> ws. val w)) \<le> val (foldl (+) a ws)"
  using assms
proof (induction ws rule: rev_induct)
  case Nil
  { case 1 then show ?case by simp }
  { case 2 then show ?case by simp }
  { case 3 then show ?case by simp }
next
  case (snoc w ws)
  define s where "s = foldl (+) a ws"
  let ?S = "val a + (\<Sum>w \<leftarrow> ws. val w)"
  { case 1 then show ?case using snoc.IH(1) by (simp add: ok_plus) }
  { case 2
    have s: "ok s" "ok w" "val s \<le> (1 + u) ^ length ws * ?S"
      using snoc.IH(1,2) 2 by (simp_all add: s_def)
    have "val (s + w) \<le> (1 + u) * (val s + val w)" by (rule val_plus_le [OF s(1,2)])
    also have "\<dots> \<le> (1 + u) * ((1 + u) ^ length ws * (?S + val w))"
      using s(3) u_bounds mult_right_mono [OF one_le_power [of "1 + u"] val_nonneg [OF s(2)]]
      by (intro mult_left_mono) (auto simp: distrib_left intro: add_mono)
    finally show ?case by (simp add: s_def add.assoc mult.assoc) }
  { case 3
    have s: "ok s" "ok w" using snoc.IH(1) 3 by (simp_all add: s_def)
    have f: "fin (s + w)" using 3(1) by (simp add: s_def)
    then have "(1 - u) ^ length ws * ?S \<le> val s" using snoc.IH(3) 3 fin_plus [OF s] by (simp add: s_def)
    then have "(1 - u) * ((1 - u) ^ length ws * (?S + val w)) \<le> (1 - u) * (val s + val w)"
      using u_bounds mult_right_mono [OF power_le_one [of "1 - u"] val_nonneg [OF s(2)]]
      by (intro mult_left_mono) (auto simp: distrib_left intro: add_mono)
    also have "\<dots> \<le> val (s + w)" by (rule val_plus_ge [OF s f])
    finally show ?case by (simp add: s_def add.assoc mult.assoc) }
qed

text \<open>The factor of one phase for the routes' own lengths.\<close>

abbreviation grow :: real where
  "grow \<equiv> (1 + u) / (1 - u)"

lemma grow_ge: "1 + u \<le> grow" "1 \<le> grow"
  using u_bounds by (simp_all add: field_simps)

lemma tight_near_0:
  assumes t: "table_ok ok g t" and "direct_ok g t" and wf: "graph_wf g"
  shows "tight_near val fin c g 0 t"
proof -
  have "\<exists>d'. t ! i ! edge_from (edges g ! e) = Some d' \<and> wle (rid_weight d') (rid_weight d) \<and>
      val (rid_weight d') + val (edge_weight (edges g ! e)) \<le> val (rid_weight d)"
    if ij: "i < get_vertex_count g" "j < get_vertex_count g" and d: "t ! i ! j = Some d" "prev_edge d = Some e" for i j d e
  proof -
    have row: "row_ok ok g (get_vertex_count g) i (\<lambda>j. t ! i ! j)" using t ij by (simp add: table_ok_def)
    have "edge_from (edges g ! e) = i" "rid_weight d = edge_weight (edges g ! e)"
      using assms(2) ij d unfolding direct_ok_def by blast+
    then show ?thesis
      using row_ok_root [OF row] zero_least [OF row_entry_ok [OF t ij d(1)]] by (simp add: val_zero)
  qed
  then show ?thesis by (simp add: tight_near_def)
qed

lemma tight_near_step:
  assumes c: "0 \<le> c" "1 \<le> c" and nn: "0 \<le> f" "0 \<le> t" "0 \<le> w" "0 \<le> d"
    and du: "du + w \<le> c * t" and d': "d' \<le> (1 + u) * (f + du)" and d: "(1 - u) * (f + t) \<le> d"
  shows "d' + w \<le> grow * c * d"
proof -
  have "d' + w \<le> (1 + u) * (f + du) + (1 + u) * w"
    using d' mult_nonneg_nonneg [OF u_bounds(1) nn(3)] by (simp add: distrib_right)
  also have "\<dots> = (1 + u) * (f + (du + w))" by (simp add: algebra_simps)
  also have "\<dots> \<le> (1 + u) * (c * f + c * t)"
    using du u_bounds mult_right_mono [OF c(2) nn(1)] by (intro mult_left_mono) auto
  also have "\<dots> = grow * c * ((1 - u) * (f + t))" using u_bounds by (simp add: field_simps)
  also have "\<dots> \<le> grow * c * d" using d c(1) u_bounds by (intro mult_left_mono) auto
  finally show ?thesis .
qed

lemma tight_near_Suc:
  assumes wf: "graph_wf g" and w: "weights_ok ok g" and t: "table_ok ok g t" and tight: "tight_near val fin grow g k t"
    and k: "k < get_vertex_count g" and tab: "table_ok ok g t'"
    and t': "\<forall>a < get_vertex_count g. \<forall>b < get_vertex_count g.
      t' ! a ! b = relaxed (\<lambda>a b. t ! a ! b) k a b"
  shows "tight_near val fin grow g (Suc k) t'"
proof -
  let ?n = "get_vertex_count g" and ?R = "\<lambda>a b. t ! a ! b"
  have rows: "row_ok ok g ?n i (?R i)" if "i < ?n" for i
    using t that by (simp add: table_ok_def)
  have pow: "1 \<le> grow ^ k" "0 \<le> grow ^ k" using grow_ge(2) by (simp_all add: one_le_power)
  have "\<exists>d'. t' ! i ! edge_from (edges g ! e) = Some d' \<and> wle (rid_weight d') (rid_weight d) \<and>
      val (rid_weight d') + val (edge_weight (edges g ! e)) \<le> grow ^ Suc k * val (rid_weight d)"
    if ij: "i < ?n" "j < ?n" and d: "t' ! i ! j = Some d" "prev_edge d = Some e" and fin: "fin (rid_weight d)" for i j d e
  proof -
    have dr: "relaxed ?R k i j = Some d" using t' ij d(1) by simp
    show ?thesis
    proof (cases "improves ?R k i j")
      case True
      then obtain rf rt where r: "t ! i ! k = Some rf" "t ! k ! j = Some rt" by (auto simp: improves_def)
      obtain d' where p: "prev_edge rt = Some e" "e < length (edges g)"
        "relaxed ?R k i (edge_from (edges g ! e)) = Some d'" "wle (rid_weight d') (rid_weight rf + rid_weight rt)"
        using relaxed_pred_improves [where R = ?R, OF rows [OF ij(1)] rows [OF k] k ij(2)
            graph_wf_from [OF wf] True r] dr d(2) by (metis option.inject route_internal_data.select_convs(2))
      have dw: "rid_weight d = rid_weight rf + rid_weight rt"
        using relaxed_improves [of ?R, OF True r] dr by auto
      define u' where "u' = edge_from (edges g ! e)"
      have u': "u' < ?n" using graph_wf_edge [OF wf p(2)] by (simp add: u'_def)
      have oks: "ok (rid_weight rf)" "ok (rid_weight rt)"
        using row_entry_ok [OF t ij(1) k r(1)] row_entry_ok [OF t k ij(2) r(2)] .
      have fins: "fin (rid_weight rf)" "fin (rid_weight rt)" using fin_plus [OF oks] fin dw by simp_all
      obtain du where du: "t ! k ! u' = Some du" "wle (rid_weight du) (rid_weight rt)"
        "val (rid_weight du) + val (edge_weight (edges g ! e)) \<le> grow ^ k * val (rid_weight rt)"
        using tight_nearD [OF tight k ij(2) r(2) p(1) fins(2)] by (auto simp: u'_def)
      have okd: "ok (rid_weight du)" using row_entry_ok [OF t k u' du(1)] .
      obtain d2 where d2: "t' ! i ! u' = Some d2" "wle (rid_weight d2) (rid_weight rf + rid_weight du)"
        using relaxed_through [OF t k ij(1) u' r(1) du(1)] t' ij u' by auto
      have same: "d2 = d'" using d2(1) p(3) t' ij u' by (simp add: u'_def)
      have "val (rid_weight d') \<le> val (rid_weight rf + rid_weight du)"
        using val_mono [OF row_entry_ok [OF tab ij(1) u' d2(1)] ok_plus [OF oks(1) okd] d2(2)] same by simp
      also have "\<dots> \<le> (1 + u) * (val (rid_weight rf) + val (rid_weight du))" by (rule val_plus_le [OF oks(1) okd])
      finally have "val (rid_weight d') + val (edge_weight (edges g ! e)) \<le> grow * grow ^ k * val (rid_weight d)"
        using du(3) val_plus_ge [OF oks] fin oks edge_ok [OF w p(2)] pow ok_plus [OF oks] unfolding dw
        by (intro tight_near_step [where du = "val (rid_weight du)"]) (auto intro: val_nonneg)
      then show ?thesis using d2(1) p(4) same dw by (simp add: u'_def)
    next
      case False
      then have r: "t ! i ! j = Some d" using dr by (simp add: relaxed_not_improves)
      note e = row_ok_prev_Some(1) [OF rows [OF ij(1)] ij(2) r d(2)]
      define u' where "u' = edge_from (edges g ! e)"
      have u': "u' < ?n" using graph_wf_edge [OF wf e] by (simp add: u'_def)
      obtain du where du: "t ! i ! u' = Some du" "wle (rid_weight du) (rid_weight d)"
        "val (rid_weight du) + val (edge_weight (edges g ! e)) \<le> grow ^ k * val (rid_weight d)"
        using tight_nearD [OF tight ij r d(2) fin] by (auto simp: u'_def)
      obtain d' where d': "t' ! i ! u' = Some d'" "wle (rid_weight d') (rid_weight du)"
        using relaxed_keeps [OF t k ij(1) u' du(1)] t' ij u' by auto
      note oks = row_entry_ok [OF tab ij(1) u' d'(1)] row_entry_ok [OF t ij(1) u' du(1)] row_entry_ok [OF t ij r]
      have "grow ^ k * val (rid_weight d) \<le> grow ^ Suc k * val (rid_weight d)"
        using grow_ge(2) val_nonneg [OF oks(3)] by (intro mult_right_mono power_increasing) auto
      then show ?thesis
        using d' du(3) val_mono [OF oks(1,2) d'(2)] wle_trans [OF oks d'(2) du(2)] by (force simp: u'_def)
    qed
  qed
  then show ?thesis unfolding tight_near_def by blast
qed

section \<open>The route's own length\<close>

lemma build_route_near:
  assumes wf: "graph_wf g" and w: "weights_ok ok g" and tab: "table_ok ok g t"
    and tight: "tight_near val fin grow g (get_vertex_count g) t"
    and ij: "i < get_vertex_count g" "j < get_vertex_count g"
    and r: "build_route g t i j = Inr (Some r)"
  shows "length (ri_edges r) < get_vertex_count g \<and> map_option rid_weight (t ! i ! j) = Some (ri_weight r) \<and>
    (fin (ri_weight r) \<longrightarrow>
      cost val g (ri_edges r) \<le> (grow ^ get_vertex_count g) ^ length (ri_edges r) * val (ri_weight r))"
proof -
  let ?n = "get_vertex_count g" and ?src = "\<lambda>e. edge_from (edges g ! e)"
  define c where "c = grow ^ ?n"
  have c: "1 \<le> c" unfolding c_def using grow_ge(2) by (rule one_le_power)
  have row: "row_ok ok g ?n i (\<lambda>j. t ! i ! j)" using tab ij by (simp add: table_ok_def)
  obtain rk :: "nat \<Rightarrow> nat" where rk: "\<forall>j < ?n. \<forall>d e. t ! i ! j = Some d \<longrightarrow> prev_edge d = Some e \<longrightarrow>
      rk (?src e) < rk j" using row by (auto simp: row_ok_def)
  define Q where "Q v xs \<longleftrightarrow> distinct (map ?src xs) \<and> (\<forall>e \<in> set xs. ?src e < ?n \<and> rk (?src e) < rk v) \<and>
    (\<forall>d. t ! i ! v = Some d \<longrightarrow> fin (rid_weight d) \<longrightarrow> cost val g xs \<le> c ^ length xs * val (rid_weight d))" for v xs
  have "Q i []" using row_ok_root [OF row] by (simp add: Q_def val_zero)
  moreover have "Q v (xs @ [e])"
    if v: "v < ?n" "t ! i ! v = Some d" "prev_edge d = Some e" and q: "Q (?src e) xs" for v d e xs
  proof -
    have e: "e < length (edges g)" using row_ok_prev_Some(1) [OF row v] .
    have less: "rk (?src e) < rk v" "?src e < ?n" using rk v graph_wf_edge(1) [OF wf e] by auto
    have "cost val g (xs @ [e]) \<le> c ^ length (xs @ [e]) * val (rid_weight d)" if f: "fin (rid_weight d)"
    proof -
      obtain d' where d': "t ! i ! ?src e = Some d'" "wle (rid_weight d') (rid_weight d)"
        "val (rid_weight d') + val (edge_weight (edges g ! e)) \<le> c * val (rid_weight d)"
        using tight_nearD [OF tight ij(1) v f] by (auto simp: c_def)
      have "fin (rid_weight d')"
        using fin_mono [OF _ _ d'(2) f] row_entry_ok [OF tab ij(1)] v d'(1) less(2) by blast
      then have "cost val g xs \<le> c ^ length xs * val (rid_weight d')" using q d'(1) by (simp add: Q_def)
      moreover have "val (edge_weight (edges g ! e)) \<le> c ^ length xs * val (edge_weight (edges g ! e))"
        using mult_right_mono [OF one_le_power [OF c] val_nonneg [OF edge_ok [OF w e]]] by simp
      moreover have "c ^ length xs * (val (rid_weight d') + val (edge_weight (edges g ! e))) \<le>
          c ^ length xs * (c * val (rid_weight d))"
        using d'(3) c by (intro mult_left_mono) auto
      ultimately show ?thesis by (simp add: distrib_left mult.assoc mult.left_commute)
    qed
    then show ?thesis using q v(2) less by (auto simp: Q_def)
  qed
  ultimately have "case t ! i ! j of None \<Rightarrow> build_route g t i j = Inr None
    | Some d \<Rightarrow> \<exists>ids. build_route g t i j = Inr (Some \<lparr>ri_weight = rid_weight d, ri_edges = ids\<rparr>) \<and>
        path g i ids j \<and> Q j ids"
    using build_route_row [OF wf tab ij, where Q = Q] by blast
  then obtain d where d: "t ! i ! j = Some d" "ri_weight r = rid_weight d" "Q j (ri_edges r)"
    using r by (cases "t ! i ! j") auto
  have "length (ri_edges r) = card (set (map ?src (ri_edges r)))"
    using d(3) distinct_card [of "map ?src (ri_edges r)"] by (simp add: Q_def)
  also have "\<dots> \<le> card ({..<?n} - {j})" using d(3) by (intro card_mono) (auto simp: Q_def)
  also have "\<dots> < ?n" using ij(2) by simp
  finally show ?thesis using d unfolding Q_def c_def by (cases d) simp
qed

end

text \<open>What is promised of every route the table answers with.\<close>

definition near_shortest :: "('w::{zero, plus, ord} \<Rightarrow> real) \<Rightarrow> ('w \<Rightarrow> bool) \<Rightarrow> real \<Rightarrow> 'w graph \<Rightarrow> 'w routes_internal_data \<Rightarrow> bool" where
  "near_shortest val fin u g t \<longleftrightarrow> (\<forall>i < get_vertex_count g. \<forall>j < get_vertex_count g. \<forall>r.
     build_route g t i j = Inr (Some r) \<longrightarrow> length (ri_edges r) < get_vertex_count g \<and>
       (\<forall>ids. path g i ids j \<longrightarrow> val (ri_weight r) \<le> (1 + u) ^ get_vertex_count g * cost val g ids) \<and>
       (fin (ri_weight r) \<longrightarrow> cost val g (ri_edges r) \<le>
          ((1 + u) / (1 - u)) ^ (get_vertex_count g * length (ri_edges r)) * val (ri_weight r)))"

context approx_weights
begin

theorem router_near:
  assumes wf: "graph_wf g" and w: "weights_ok ok g"
  shows "\<exists>t. router_new g = Inr t \<and> near_shortest val fin u g t"
proof -
  let ?n = "get_vertex_count g"
  obtain t where t: "router_new g = Inr t" "table_ok ok g t"
      "lower_near val (1 + u) g ?n t \<and> tight_near val fin grow g ?n t"
    using router_new_inv [OF wf w, of "\<lambda>k t. lower_near val (1 + u) g k t \<and> tight_near val fin grow g k t"]
      lower_near_0 [OF w] tight_near_0 [OF _ _ wf] lower_near_Suc [OF w] tight_near_Suc [OF wf w] by blast
  have "near_shortest val fin u g t"
    unfolding near_shortest_def
  proof (intro allI impI)
    fix i j r assume ij: "i < ?n" "j < ?n" and r: "build_route g t i j = Inr (Some r)"
    note near = build_route_near [OF wf w t(2) conjunct2 [OF t(3)] ij r]
    have "val (ri_weight r) \<le> (1 + u) ^ ?n * cost val g ids" if "path g i ids j" for ids
      using lower_nearD [OF conjunct1 [OF t(3)] path_via [OF wf that] ij] near by auto
    then show "length (ri_edges r) < ?n \<and>
       (\<forall>ids. path g i ids j \<longrightarrow> val (ri_weight r) \<le> (1 + u) ^ ?n * cost val g ids) \<and>
       (fin (ri_weight r) \<longrightarrow> cost val g (ri_edges r) \<le>
          grow ^ (?n * length (ri_edges r)) * val (ri_weight r))"
      using near by (simp add: power_mult)
  qed
  then show ?thesis using t(1) by blast
qed

end

end
