(* ===== verification/Router_Double.thy ===== *)
theory Router_Double
  imports Router_Near Ieee_Error
begin

text \<open>Non-negative doubles satisfy \<open>approx_weights\<close>, with \<open>2 ^ -53\<close> as the error of one addition.\<close>

definition mag_val :: "double \<Rightarrow> real" where
  "mag_val d = mval (mag_of d)"

definition is_finite :: "double \<Rightarrow> bool" where
  "is_finite d \<longleftrightarrow> mag_of d < inf_mag"

interpretation near: approx_weights nonneg_double mag_val is_finite half_ulp
proof unfold_locales
  fix a b :: double
  assume a: "nonneg_double a" and b: "nonneg_double b"
  let ?x = "mval (mag_of a) + mval (mag_of b)"
  have x: "0 \<le> ?x" by (simp add: mval_nonneg)
  note le = nonneg_mag_le [OF a] nonneg_mag_le [OF b]
  show "mag_val (a + b) \<le> (1 + half_ulp) * (mag_val a + mag_val b)"
    using mval_rnd_le [OF x] sum_multiple by (simp add: mag_val_def plus_nonneg(2) [OF a b])
  show "is_finite a \<and> is_finite b" if "is_finite (a + b)"
    using that rnd_ge_left [OF le(1)] rnd_ge_right [OF le(2)]
    by (auto simp: is_finite_def plus_nonneg(2) [OF a b] intro: le_less_trans)
  show "(1 - half_ulp) * (mag_val a + mag_val b) \<le> mag_val (a + b)" if "is_finite (a + b)"
    using that mval_rnd_ge [OF x] sum_multiple by (simp add: is_finite_def mag_val_def plus_nonneg(2) [OF a b])
  show "mag_val a \<le> mag_val b" if "wle a b"
    using that wle_nonneg [OF a b] by (simp add: mag_val_def mval_mono)
  show "is_finite a" if "wle a b" "is_finite b"
    using that wle_nonneg [OF a b] by (simp add: is_finite_def)
qed (simp_all add: half_ulp_def mag_val_def mval_nonneg)

end
