(* ===== verification/Route_Times.thy ===== *)
theory Route_Times
  imports Transport_Router_Correct Router_Double
begin

text \<open>
  How good the itineraries of the transport router are, although their times are rounded: against
  every itinerary between the same stops, up to a factor that is close to one for every network of
  a realistic size.
\<close>

text \<open>The exact sum of the times of an itinerary's parts.\<close>

definition exact_time :: "component_trip list \<Rightarrow> real" where
  "exact_time cs = (\<Sum>c \<leftarrow> cs. mag_val (ct_weight c))"

lemma item_weight:
  assumes g: "edges g = map fst (all_items db rs)" and e: "eid < length (edges g)"
  shows "edge_weight (edges g ! eid) = ct_weight (info_of db rs eid)"
proof -
  obtain x c where x: "all_items db rs ! eid = (x, c)" by (cases "all_items db rs ! eid")
  then have "(x, c) \<in> set (all_items db rs)" using e g by (metis length_map nth_mem)
  then show ?thesis using x g e by (auto simp: set_all_items info_of_def wait_item_def)
qed

lemma cost_exact_time:
  assumes "edges g = map fst (all_items db rs)" and "path g i ids j"
  shows "cost mag_val g ids = exact_time (map (info_of db rs) ids)"
  unfolding cost_def exact_time_def map_map
  using path_ids [OF assms(2)] item_weight [OF assms(1)] by (intro arg_cong [where f = sum_list]) simp

lemma router_near_shortest:
  assumes db: "cat_ok db" and roads: "roads_known db" and v: "bus_velocity rs \<noteq> 0"
    and r: "transport_router_new rs db = Inr r"
  shows "near_shortest mag_val is_finite half_ulp (graph_of_stops r) (router_data r)"
proof -
  obtain r0 t where r0: "create_graph db (transport_router_start rs db) = Inr r0"
    "router_new (graph_of_stops r0) = Inr t" "r = r0\<lparr>router_data := t\<rparr>"
    using r by (auto simp: transport_router_new_def bindR_eq_Inr)
  have "built_to db rs (n_stops db) (all_items db rs) r0"
    using create_graph_ok [OF db roads, of rs] r0(1) by auto
  then have g: "graph_wf (graph_of_stops r0)" "edges (graph_of_stops r0) = map fst (all_items db rs)"
    by (simp_all add: built_to_def)
  show ?thesis using near.router_near [OF g(1) all_items_weights [OF v g(2)]] r0(2,3) by auto
qed

definition rounding_factor :: "nat \<Rightarrow> real" where
  "rounding_factor n = ((1 + half_ulp) / (1 - half_ulp)) ^ (n * (n + 1))"

abbreviation growth :: real where
  "growth \<equiv> (1 + half_ulp) / (1 - half_ulp)"

lemma half_ulp_bounds: "0 \<le> half_ulp" "half_ulp < 1"
  by (simp_all add: half_ulp_def)

lemma growth_powers:
  assumes "m + n \<le> l"
  shows "(1 + half_ulp) ^ m * growth ^ n \<le> growth ^ l"
proof -
  have "(1 + half_ulp) ^ m * growth ^ n \<le> growth ^ m * growth ^ n"
    using near.grow_ge half_ulp_bounds by (intro mult_right_mono power_mono) auto
  also have "\<dots> \<le> growth ^ l"
    using assms near.grow_ge(2) by (simp add: power_increasing flip: power_add)
  finally show ?thesis .
qed

lemma exact_time_nonneg: "0 \<le> exact_time cs"
  by (auto simp: exact_time_def mag_val_def mval_nonneg intro!: sum_list_nonneg)

lemma itinerary_weights:
  "itinerary db rs i cs j \<Longrightarrow> bus_velocity rs \<noteq> 0 \<Longrightarrow> \<forall>c \<in> set cs. nonneg_double (ct_weight c)"
  by (induction rule: itinerary.induct) (auto simp: wait_item_def nonneg_wait_time intro: hop_weight)

lemma total_near:
  assumes "bus_velocity rs \<noteq> 0" and "itinerary db rs i cs j"
  shows "mag_val (item_weights cs) \<le> (1 + half_ulp) ^ length cs * exact_time cs"
    and "is_finite (item_weights cs) \<Longrightarrow> (1 - half_ulp) ^ length cs * exact_time cs \<le> mag_val (item_weights cs)"
  using near.foldl_near(2,3) [of 0 "map ct_weight cs"] itinerary_weights [OF assms(2,1)]
  by (simp_all add: item_weights_def exact_time_def mag_val_def comp_def)

lemma finite_below: "mag_val d < 2 ^ 1024 \<Longrightarrow> is_finite d"
  using mval_mono [of inf_mag "mag_of d"] unfolding mag_val_def is_finite_def mval_inf by linarith

text \<open>For ten thousand stops the factor is below one plus one millionth.\<close>

lemma rounding_factor_small:
  assumes "n \<le> 20000"
  shows "rounding_factor n \<le> 1 + 1 / 10 ^ 6"
proof -
  let ?x = "2 * half_ulp" and ?m = "n * (n + 1)"
  have m: "?m \<le> 20000 * 20001" using assms by (intro mult_le_mono) auto
  have "real ?m \<le> real (20000 * 20001)" using m unfolding of_nat_le_iff .
  define y where "y = real ?m * ?x"
  have y: "y \<le> 1 / (2 * 10 ^ 6)"
    using mult_right_mono [OF \<open>real ?m \<le> real (20000 * 20001)\<close>, of ?x] by (simp add: y_def half_ulp_def)
  have bern: "1 - y \<le> (1 - ?x) ^ ?m"
    using Bernoulli_inequality [of "- ?x" ?m] by (simp add: y_def half_ulp_def)
  have "growth \<le> 1 / (1 - ?x)" by (simp add: half_ulp_def)
  then have "growth ^ ?m \<le> (1 / (1 - ?x)) ^ ?m" using near.grow_ge(2) by (intro power_mono) auto
  also have "\<dots> = 1 / (1 - ?x) ^ ?m" by (simp only: power_one_over)
  also have "\<dots> \<le> 1 / (1 - y)" using bern y by (intro frac_le) auto
  also have "\<dots> \<le> 1 / (1 - 1 / (2 * 10 ^ 6))" using y by (intro frac_le) auto
  also have "\<dots> \<le> 1 + 1 / 10 ^ 6" by simp
  finally show ?thesis by (simp add: rounding_factor_def)
qed

lemma shown_factor_small:
  assumes "n \<le> 20000"
  shows "1 - 1 / 10 ^ 6 \<le> (1 - half_ulp) ^ n"
proof -
  have "real n \<le> 20000" using assms by simp
  then have "1 - 1 / 10 ^ 6 \<le> 1 + real n * - half_ulp" by (simp add: half_ulp_def)
  also have "\<dots> \<le> (1 - half_ulp) ^ n" using Bernoulli_inequality [of "- half_ulp" n] by (simp add: half_ulp_def)
  finally show ?thesis .
qed

theorem routes_near:
  assumes db: "cat_ok db" and roads: "roads_known db" and v: "bus_velocity rs \<noteq> 0"
    and r: "transport_router_new rs db = Inr r" and ij: "i < n_stops db" "j < n_stops db"
    and ti: "get_route_info r (stop_n db i) (stop_n db j) = Inr (Some ti)"
    and cs: "itinerary db rs i cs j" and small: "rounding_factor (2 * n_stops db) * exact_time cs < 2 ^ 1024"
  shows "exact_time (trip_items ti) \<le> rounding_factor (2 * n_stops db) * exact_time cs"
    and "mag_val (total_time ti) \<le> rounding_factor (2 * n_stops db) * exact_time cs"
    and "(1 - half_ulp) ^ (2 * n_stops db) * exact_time (trip_items ti) \<le> mag_val (total_time ti)"
proof -
  let ?n = "2 * n_stops db" and ?g = "graph_of_stops r"
  have ok: "router_ok db rs r" using transport_router_new_ok [OF db roads v] r by simp
  note g = router_okD_graph [OF ok]
  obtain ri where ri: "build_route ?g (router_data r) (2 * i) (2 * j) = Inr (Some ri)"
    "path ?g (2 * i) (ri_edges ri) (2 * j)" "ti = trip_of db rs (ri_edges ri)"
    using get_route_info_trip [OF db ok ij] ti by (auto split: sum.splits option.splits)
  note near = router_near_shortest [OF db roads v r, unfolded near_shortest_def g(2), rule_format,
      OF _ _ ri(1)]
  have len: "length (ri_edges ri) < ?n"
    and le: "\<And>ids. path ?g (2 * i) ids (2 * j) \<Longrightarrow>
      mag_val (ri_weight ri) \<le> (1 + half_ulp) ^ ?n * cost mag_val ?g ids"
    and own: "is_finite (ri_weight ri) \<Longrightarrow>
      cost mag_val ?g (ri_edges ri) \<le> growth ^ (?n * length (ri_edges ri)) * mag_val (ri_weight ri)"
    using near ij by simp_all
  obtain ids where ids: "path ?g (2 * i) ids (2 * j)" "map (info_of db rs) ids = cs"
    using itinerary_path [OF g(1) db cs] by blast
  have w: "mag_val (ri_weight ri) \<le> (1 + half_ulp) ^ ?n * exact_time cs"
    using le [OF ids(1)] cost_exact_time [OF g(1) ids(1)] ids(2) by simp
  also have "\<dots> \<le> rounding_factor ?n * exact_time cs"
    using growth_powers [of ?n 0 "?n * (?n + 1)"] exact_time_nonneg
    by (intro mult_right_mono) (simp_all add: rounding_factor_def)
  finally have fin: "is_finite (ri_weight ri)" using small finite_below by simp
  let ?E = "exact_time (trip_items ti)"
  have items: "?E = cost mag_val ?g (ri_edges ri)" "length (trip_items ti) = length (ri_edges ri)"
    using cost_exact_time [OF g(1) ri(2)] ri(3) by (simp_all add: trip_of_def)
  have it: "itinerary db rs i (trip_items ti) j" "total_time ti = item_weights (trip_items ti)"
    using path_itinerary [OF g(1) ri(2)] ri(3) by (simp_all add: trip_of_def)
  have E: "?E \<le> (1 + half_ulp) ^ ?n * growth ^ (?n * length (ri_edges ri)) * exact_time cs"
  proof -
    have "?E \<le> growth ^ (?n * length (ri_edges ri)) * mag_val (ri_weight ri)" using own [OF fin] items by simp
    also have "\<dots> \<le> growth ^ (?n * length (ri_edges ri)) * ((1 + half_ulp) ^ ?n * exact_time cs)"
      using w near.grow_ge(2) by (intro mult_left_mono) auto
    finally show ?thesis by (simp add: mult_ac)
  qed
  have l: "?n + ?n * length (ri_edges ri) \<le> ?n * ?n" using mult_le_mono2 [of "Suc (length (ri_edges ri))" ?n ?n] len by simp
  note E
  also have "(1 + half_ulp) ^ ?n * growth ^ (?n * length (ri_edges ri)) * exact_time cs \<le> rounding_factor ?n * exact_time cs"
    unfolding rounding_factor_def using l len exact_time_nonneg by (intro mult_right_mono growth_powers) auto
  finally show "?E \<le> rounding_factor ?n * exact_time cs" .
  have "mag_val (total_time ti) \<le> (1 + half_ulp) ^ length (ri_edges ri) * ?E"
    using total_near(1) [OF v it(1)] it(2) items(2) by simp
  also have "\<dots> \<le> (1 + half_ulp) ^ length (ri_edges ri) *
      ((1 + half_ulp) ^ ?n * growth ^ (?n * length (ri_edges ri)) * exact_time cs)"
    using E half_ulp_bounds by (intro mult_left_mono) auto
  also have "\<dots> = ((1 + half_ulp) ^ (length (ri_edges ri) + ?n) * growth ^ (?n * length (ri_edges ri))) * exact_time cs"
    by (simp add: power_add mult_ac)
  also have "\<dots> \<le> rounding_factor ?n * exact_time cs"
    unfolding rounding_factor_def using l len exact_time_nonneg by (intro mult_right_mono growth_powers) auto
  finally show total: "mag_val (total_time ti) \<le> rounding_factor ?n * exact_time cs" .
  then have "is_finite (total_time ti)" using small finite_below by simp
  then have "(1 - half_ulp) ^ length (ri_edges ri) * ?E \<le> mag_val (total_time ti)"
    using total_near(2) [OF v it(1)] it(2) items(2) by simp
  moreover have "(1 - half_ulp) ^ ?n * ?E \<le> (1 - half_ulp) ^ length (ri_edges ri) * ?E"
    using len half_ulp_bounds exact_time_nonneg by (intro mult_right_mono power_decreasing) auto
  ultimately show "(1 - half_ulp) ^ ?n * ?E \<le> mag_val (total_time ti)" by simp
qed

text \<open>In a network of up to ten thousand stops the factors are below one plus one millionth.\<close>

lemma routes_near_million:
  assumes "cat_ok db" and "roads_known db" and "bus_velocity rs \<noteq> 0" and "transport_router_new rs db = Inr r"
    and "i < n_stops db" and "j < n_stops db" and "n_stops db \<le> 10000"
    and "get_route_info r (stop_n db i) (stop_n db j) = Inr (Some ti)"
    and "itinerary db rs i cs j" and "exact_time cs < 2 ^ 1023"
  shows "exact_time (trip_items ti) \<le> (1 + 1 / 10 ^ 6) * exact_time cs"
    and "mag_val (total_time ti) \<le> (1 + 1 / 10 ^ 6) * exact_time cs"
    and "(1 - 1 / 10 ^ 6) * exact_time (trip_items ti) \<le> mag_val (total_time ti)"
proof -
  let ?n = "2 * n_stops db"
  have n: "?n \<le> 20000" using assms(7) by simp
  have le: "rounding_factor ?n * exact_time cs \<le> (1 + 1 / 10 ^ 6) * exact_time cs"
    using rounding_factor_small [OF n] exact_time_nonneg by (rule mult_right_mono)
  also have "\<dots> < 2 ^ 1024" using assms(10) by simp
  finally have small: "rounding_factor ?n * exact_time cs < 2 ^ 1024" .
  note near = routes_near [OF assms(1-6,8,9) small]
  show "exact_time (trip_items ti) \<le> (1 + 1 / 10 ^ 6) * exact_time cs"
    "mag_val (total_time ti) \<le> (1 + 1 / 10 ^ 6) * exact_time cs"
    "(1 - 1 / 10 ^ 6) * exact_time (trip_items ti) \<le> mag_val (total_time ti)"
    using near le mult_right_mono [OF shown_factor_small [OF n] exact_time_nonneg [of "trip_items ti"]] by linarith+
qed

text \<open>At most one millionth slower than any other itinerary.\<close>

definition nearly_fastest :: "catalogue \<Rightarrow> routing_settings \<Rightarrow> nat \<Rightarrow> component_trip list \<Rightarrow> nat \<Rightarrow> bool" where
  "nearly_fastest db rs i cs j \<longleftrightarrow> (n_stops db \<le> 10000 \<longrightarrow>
     (\<forall>cs'. itinerary db rs i cs' j \<longrightarrow> exact_time cs' < 2 ^ 1023 \<longrightarrow> exact_time cs \<le> (1 + 1 / 10 ^ 6) * exact_time cs'))"

end
