(* ===== verification/Request_Spec.thy ===== *)
theory Request_Spec
  imports Saved_Base Catalogue_Queries Route_Times
begin

text \<open>
  What the program promises of its answers. A \<open>request\<close> is what a well-formed node of
  \<^verbatim>\<open>stat_requests\<close> asks, and \<open>replies\<close> relates it to its answers in terms of stops, buses, lengths and
  itineraries alone: a route's answer is an itinerary that takes at most a millionth longer than any
  other. On a catalogue, settings and requests without the defects the code throws on, every request
  is answered, in order, by such an answer (\<open>answer_all_replies\<close>).
\<close>

section \<open>Requests\<close>

datatype request =
    Bus_request string "32 word"
  | Stop_request string "32 word"
  | Map_request "32 word"
  | Route_request string string "32 word"

definition text_of :: "dict \<Rightarrow> string \<Rightarrow> string option" where
  "text_of d k = (case map_of d k of Some (NStr s) \<Rightarrow> Some s | _ \<Rightarrow> None)"

definition request_of :: "string \<Rightarrow> 32 word \<Rightarrow> dict \<Rightarrow> request option" where
  "request_of t rid d =
     (if t = ''Bus'' then map_option (\<lambda>n. Bus_request n rid) (text_of d ''name'')
      else if t = ''Stop'' then map_option (\<lambda>n. Stop_request n rid) (text_of d ''name'')
      else if t = ''Map'' then Some (Map_request rid)
      else if t = ''Route'' then
        (case (text_of d ''from'', text_of d ''to'') of (Some f, Some u) \<Rightarrow> Some (Route_request f u rid) | _ \<Rightarrow> None)
      else None)"

definition parse_request :: "node \<Rightarrow> request option" where
  "parse_request n =
     (case n of
        NDict d \<Rightarrow> (case (text_of d ''type'', map_of d ''id'') of
            (Some t, Some (NInt rid)) \<Rightarrow> request_of t rid d
          | _ \<Rightarrow> None)
      | _ \<Rightarrow> None)"

text \<open>The router throws on unknown stops.\<close>

fun stops_known :: "catalogue \<Rightarrow> request \<Rightarrow> bool" where
  "stops_known db (Route_request f u rid) \<longleftrightarrow> f \<in> set (snames db) \<and> u \<in> set (snames db)"
| "stops_known db _ \<longleftrightarrow> True"

definition valid_request :: "catalogue \<Rightarrow> node \<Rightarrow> bool" where
  "valid_request db n \<longleftrightarrow> (case parse_request n of None \<Rightarrow> False | Some r \<Rightarrow> stops_known db r)"

section \<open>Replies\<close>

definition not_found :: "32 word \<Rightarrow> node" where
  "not_found rid = NDict [(''error_message'', NStr ''not found''), (''request_id'', NInt rid)]"

definition bus_total :: "catalogue \<Rightarrow> bus \<Rightarrow> nat" where
  "bus_total db b = (\<Sum>p \<leftarrow> adjacent (travelled b). the (leg db p))"

text \<open>No bus is empty, every leg is measured, and no route is too long for an \<^verbatim>\<open>int\<close>.\<close>

definition measurable :: "catalogue \<Rightarrow> bool" where
  "measurable db \<longleftrightarrow> (\<forall>b \<in> set (all_buses db). bus_stops b \<noteq> [] \<and>
     (\<forall>p \<in> set (adjacent (travelled b)). leg db p \<noteq> None) \<and> bus_total db b < 2 ^ 31)"

definition map_text :: "catalogue \<Rightarrow> map_settings \<Rightarrow> coordinates list \<Rightarrow> string" where
  "map_text db ms cs = render_document (map_objects db ms (sphere_projector_new cs
     (ms_width (size_of_map ms)) (ms_height (size_of_map ms)) (ms_padding (size_of_map ms))))"

inductive replies :: "libm \<Rightarrow> catalogue \<Rightarrow> routing_settings \<Rightarrow> map_settings \<Rightarrow> request \<Rightarrow> node \<Rightarrow> bool"
  for m db rs ms where
  no_bus: "n \<notin> set (bnames db) \<Longrightarrow> replies m db rs ms (Bus_request n rid) (not_found rid)"
| bus: "n \<in> set (bnames db) \<Longrightarrow> b = bus_of db n \<Longrightarrow> summation_line_length m db b = Inr line \<Longrightarrow>
    len = double_of_int (int (bus_total db b)) \<Longrightarrow>
    replies m db rs ms (Bus_request n rid)
      (NDict [(''curvature'', NDbl (len / line)), (''request_id'', NInt rid), (''route_length'', NDbl len),
              (''stop_count'', NInt (word_of_nat (length (travelled b)))),
              (''unique_stop_count'', NInt (word_of_nat (card (set (bus_stops b)))))])"
| no_stop: "n \<notin> set (snames db) \<Longrightarrow> replies m db rs ms (Stop_request n rid) (not_found rid)"
| stop: "i < n_stops db \<Longrightarrow>
    ns = sorted_list_of_set {bus_name b | b. b \<in> set (all_buses db) \<and> i \<in> set (bus_stops b)} \<Longrightarrow>
    replies m db rs ms (Stop_request (stop_n db i) rid)
      (NDict [(''buses'', NArr (map NStr ns)), (''request_id'', NInt rid)])"
| drawn: "set cs = drawn_places db \<Longrightarrow>
    replies m db rs ms (Map_request rid)
      (NDict [(''map'', NStr (map_text db ms cs)), (''request_id'', NInt rid)])"
| no_route: "i < n_stops db \<Longrightarrow> j < n_stops db \<Longrightarrow> \<nexists>cs. itinerary db rs i cs j \<Longrightarrow>
    replies m db rs ms (Route_request (stop_n db i) (stop_n db j) rid) (not_found rid)"
| route: "i < n_stops db \<Longrightarrow> j < n_stops db \<Longrightarrow> itinerary db rs i cs j \<Longrightarrow> nearly_fastest db rs i cs j \<Longrightarrow>
    replies m db rs ms (Route_request (stop_n db i) (stop_n db j) rid)
      (NDict [(''items'', NArr (map item_node cs)), (''request_id'', NInt rid),
              (''total_time'', NDbl (item_weights cs))])"

section \<open>Bus statistics\<close>

lemma successively_adjacent: "successively P xs \<longleftrightarrow> (\<forall>(y, x) \<in> set (adjacent xs). P x y)"
  by (induction xs rule: induct_list012) (simp_all add: adjacent_def)

lemma successively_there_and_back:
  assumes "successively P ss" and "successively P (rev ss)"
  shows "successively P (there_and_back ss)"
proof (cases ss rule: rev_cases)
  case Nil
  then show ?thesis by (simp add: there_and_back_def)
next
  case (snoc xs x)
  then show ?thesis using assms by (simp add: there_and_back_def successively_append_iff successively_Cons)
qed

text \<open>Every leg of a whole trip is one the router found a length for.\<close>

lemma roads_of_trip:
  assumes "roads_known db" and "b \<in> set (all_buses db)" and "(y, x) \<in> set (adjacent (travelled b))"
  shows "known db x y"
proof -
  have "\<forall>run \<in> set (runs b). successively (known db) run" using assms(1,2) by (simp add: roads_known_def)
  then have "successively (known db) (travelled b)"
    using successively_there_and_back [of "known db" "bus_stops b"]
    by (cases "is_loop_trip b") (simp_all add: runs_def travelled_def)
  then show ?thesis using assms(3) by (auto simp: successively_adjacent)
qed

lemma travelled_stops: "set (travelled b) \<subseteq> set (bus_stops b)"
  by (auto simp: travelled_def there_and_back_def dest: in_set_butlastD)

lemma adjacent_stops:
  assumes "(y, x) \<in> set (adjacent xs)"
  shows "x \<in> set xs" and "y \<in> set xs"
proof -
  have "y \<in> set (tl xs)" using assms unfolding adjacent_def by (rule set_zip_leftD)
  then show "y \<in> set xs" by (cases xs) simp_all
  show "x \<in> set xs" using assms unfolding adjacent_def by (rule set_zip_rightD)
qed

text \<open>The router takes a stop to be at distance zero from itself. The statistics do not.\<close>

lemma unmeasured_leg:
  assumes db: "cat_ok db" and xy: "x < n_stops db" "y < n_stops db" and k: "known db x y"
    and no: "leg db (y, x) = None"
  shows "x = y"
proof -
  have ok: "stops_ok db" using db by (simp add: cat_ok_def)
  note look = stop_lookup [OF ok xy(1), folded stop_n_def] stop_lookup [OF ok xy(2), folded stop_n_def]
  have none: "map_of (length_between_stops db) (x, y) = None" "map_of (length_between_stops db) (y, x) = None"
    using no by (simp_all add: leg_def split: option.splits)
  have "get_length db (stop_n db x) (stop_n db y) =
      (if stop_n db x = stop_n db y then Inr 0 else Inl (Logic_error ''Not found Lenght between this stops''))"
    using look none by (simp add: get_length_def cong: option.case_cong)
  then have "stop_n db x = stop_n db y" using k by (simp add: known_def split: if_splits)
  then show ?thesis using look by (metis option.inject)
qed

lemma mapR_fails:
  assumes "\<And>x. x \<in> set xs \<Longrightarrow> f x = Inl e \<or> (\<exists>y. f x = Inr y)" and "x \<in> set xs" and "f x = Inl e"
  shows "mapR f xs = Inl e"
  using assms
proof (induction xs)
  case (Cons a xs)
  show ?case
  proof (cases "f a")
    case (Inl e')
    then show ?thesis using Cons.prems(1) [of a] by simp
  next
    case (Inr y)
    then have "x \<in> set xs" using Cons.prems by auto
    then show ?thesis using Cons.IH Cons.prems(1,3) Inr by simp
  qed
qed simp

lemma get_info_bus_unmeasured:
  assumes db: "cat_ok db" and n: "n \<in> set (bnames db)" and b: "bus_stops (bus_of db n) \<noteq> []"
    and p: "p \<in> set (adjacent (travelled (bus_of db n)))" "leg db p = None"
  shows "get_info_bus m db n = Inl Out_of_range"
proof -
  have "leg_length db q = Inl Out_of_range \<or> (\<exists>l. leg_length db q = Inr l)" for q
    by (cases q) (simp add: leg_length_def map_at_def split: option.split)
  moreover have "leg_length db p = Inl Out_of_range"
    using p(2) by (cases p) (simp add: leg_def leg_length_def split: option.splits)
  ultimately have "mapR (leg_length db) (adjacent (travelled (bus_of db n))) = Inl Out_of_range"
    using p(1) by (intro mapR_fails)
  then have "summation_length db (bus_of db n) = Inl Out_of_range"
    using b by (simp add: summation_length_def travelled_def Let_def)
  moreover have "bus_availability db n"
    using bus_lookup [OF db n] by (auto simp: bus_availability_def)
  ultimately show ?thesis using get_bus_of [OF db n] by (simp add: get_info_bus_def Let_def)
qed

section \<open>Answers\<close>

lemma answer_request:
  "parse_request q = Some r \<Longrightarrow> answer pf h q = (case r of
      Bus_request n rid \<Rightarrow> bindR (get_bus_stat pf h n) (\<lambda>info. Inr ([bus_node info rid], None))
    | Stop_request n rid \<Rightarrow> Inr ([stop_node (get_info_stop (rh_db h) n) rid], None)
    | Map_request rid \<Rightarrow> bindR (render_map pf h) (\<lambda>doc. Inr
        ([NDict [(''map'', NStr (render_document doc)), (''request_id'', NInt rid)]], Some (render_document doc)))
    | Route_request f u rid \<Rightarrow> bindR (get_route_stat h f u) (\<lambda>info. Inr ([route_node info rid], None)))"
  by (auto simp: parse_request_def request_of_def text_of_def answer_def as_dict_def as_string_def as_int_def
      require_key_def field_def name_of_def id_of_def response_bus_ok response_stop_ok response_router_ok
      response_map_def Let_def bindR_assoc split: node.splits option.splits if_splits)

lemma bus_of_in: "cat_ok db \<Longrightarrow> n \<in> set (bnames db) \<Longrightarrow> bus_of db n \<in> set (all_buses db)"
  by (erule (1) bus_lookup) (simp add: bus_of_def)

lemma bus_replies:
  assumes db: "cat_ok db" and ok: "measurable db"
  shows "\<exists>info. get_info_bus m db n = Inr info \<and> replies m db rs ms (Bus_request n rid) (bus_node info rid)"
proof (cases "n \<in> set (bnames db)")
  case False
  then have "\<not> bus_availability db n"
    using db by (simp add: bus_availability_def cat_ok_def map_of_eq_None_iff keys_by_name)
  then show ?thesis using replies.no_bus [OF False] by (simp add: get_info_bus_def bus_node_def not_found_def)
next
  case True
  let ?b = "bus_of db n"
  obtain i where i: "map_of (buses_by_name db) n = Some i" using bus_lookup [OF db True] by blast
  have b: "bus_stops ?b \<noteq> []" "\<forall>p \<in> set (adjacent (travelled ?b)). leg db p \<noteq> None" "bus_total db ?b < 2 ^ 31"
    using ok bus_of_in [OF db True] by (simp_all add: measurable_def)
  have "?b = all_buses db ! i" using i by (simp add: bus_of_def)
  from get_info_bus_exact [OF db i this b(1,2) b(3) [unfolded bus_total_def], of m]
  obtain r line where r: "get_info_bus m db n = Inr r" "bi_exists r" "summation_line_length m db ?b = Inr line"
    "curvature r = route_length r / line" "route_length r = double_of_int (int (bus_total db ?b))"
    "quantity_stop r = word_of_nat (length (travelled ?b))"
    "unique_stops r = word_of_nat (card (set (bus_stops ?b)))"
    unfolding bus_total_def by blast
  from replies.bus [OF True refl r(3) refl, of rs ms rid] r
  show ?thesis by (simp add: bus_node_def)
qed

lemma stop_replies:
  assumes db: "cat_ok db"
  shows "replies m db rs ms (Stop_request n rid) (stop_node (get_info_stop db n) rid)"
proof (cases "n \<in> set (snames db)")
  case False
  then have "\<not> si_exists (get_info_stop db n)" using db by (simp add: get_info_stop_def cat_ok_def)
  then show ?thesis using replies.no_stop [OF False] by (simp add: stop_node_def not_found_def)
next
  case True
  then obtain i where i: "i < n_stops db" "stop_n db i = n" by (rule snames_index)
  from get_info_stop_sorted [OF db i(1)] replies.stop [OF i(1) refl, of m rs ms rid] i(2)
  show ?thesis by (simp add: stop_node_def stop_n_def)
qed

text \<open>The router built from the catalogue and settings the constructor accepts.\<close>

definition router_made :: "catalogue \<Rightarrow> routing_settings \<Rightarrow> transport_router \<Rightarrow> bool" where
  "router_made db rs r \<longleftrightarrow> roads_known db \<and> bus_velocity rs \<noteq> 0 \<and> transport_router_new rs db = Inr r"

lemma route_replies:
  assumes db: "cat_ok db" and r: "router_made db rs r" and f: "f \<in> set (snames db)" and u: "u \<in> set (snames db)"
  shows "\<exists>info. get_route_info r f u = Inr info \<and> replies m db rs ms (Route_request f u rid) (route_node info rid)"
proof -
  obtain i where i: "i < n_stops db" "stop_n db i = f" by (rule snames_index [OF f])
  obtain j where j: "j < n_stops db" "stop_n db j = u" by (rule snames_index [OF u])
  have made: "roads_known db" "bus_velocity rs \<noteq> 0" "transport_router_new rs db = Inr r" using r by (simp_all add: router_made_def)
  then have "router_ok db rs r" using transport_router_new_ok [OF db] by fastforce
  note ok = get_route_info_ok [OF db this i(1) j(1), unfolded i(2) j(2)]
  then obtain info where info: "get_route_info r f u = Inr info" by (cases "get_route_info r f u") auto
  show ?thesis
  proof (cases info)
    case None
    then show ?thesis
      using ok info replies.no_route [OF i(1) j(1)] i(2) j(2) by (auto simp: route_node_def not_found_def)
  next
    case (Some ti)
    have "nearly_fastest db rs i (trip_items ti) j"
      using routes_near_million(1) [OF db made i(1) j(1)] info Some i(2) j(2) by (simp add: nearly_fastest_def)
    then show ?thesis
      using Some ok info replies.route [OF i(1) j(1), of rs "trip_items ti"] i(2) j(2) by (auto simp: route_node_def)
  qed
qed

lemma map_replies:
  assumes "cat_ok (rh_db h)" and "color_palette (rh_render h) \<noteq> []"
    and "mset (pf_buses_order pf (buses_by_name (rh_db h))) = mset (buses_by_name (rh_db h))"
  shows "\<exists>doc. render_map pf h = Inr doc \<and> replies m (rh_db h) rs (rh_render h) (Map_request rid)
    (NDict [(''map'', NStr (render_document doc)), (''request_id'', NInt rid)])"
proof -
  obtain cs where "set cs = drawn_places (rh_db h)" "render_map pf h = Inr (map_objects (rh_db h) (rh_render h)
      (sphere_projector_new cs (ms_width (size_of_map (rh_render h))) (ms_height (size_of_map (rh_render h)))
        (ms_padding (size_of_map (rh_render h)))))"
    using render_map_ok [OF assms] by blast
  then show ?thesis using replies.drawn [of cs "rh_db h" m rs "rh_render h" rid] by (simp add: map_text_def)
qed

section \<open>Sessions\<close>

definition servable :: "platform \<Rightarrow> catalogue \<Rightarrow> map_settings \<Rightarrow> bool" where
  "servable pf db ms \<longleftrightarrow> cat_ok db \<and> measurable db \<and> color_palette ms \<noteq> [] \<and>
     mset (pf_buses_order pf (buses_by_name db)) = mset (buses_by_name db)"

definition answered :: "libm \<Rightarrow> catalogue \<Rightarrow> routing_settings \<Rightarrow> map_settings \<Rightarrow> node \<Rightarrow> node \<Rightarrow> bool" where
  "answered m db rs ms q a \<longleftrightarrow> (\<exists>r. parse_request q = Some r \<and> replies m db rs ms r a)"

text \<open>The text of the map in an answer, and what is in \<^verbatim>\<open>map.svg\<close> after some answers.\<close>

definition drawn_text :: "node \<Rightarrow> string option" where
  "drawn_text a = (case a of NDict d \<Rightarrow> (case map_of d ''map'' of Some (NStr s) \<Rightarrow> Some s | _ \<Rightarrow> None) | _ \<Rightarrow> None)"

fun last_drawn :: "string option \<Rightarrow> node list \<Rightarrow> string option" where
  "last_drawn old [] = old"
| "last_drawn old (a # as) = last_drawn (case drawn_text a of None \<Rightarrow> old | Some s \<Rightarrow> Some s) as"

lemma drawn_text_nodes [simp]:
  "drawn_text (bus_node info rid) = None" "drawn_text (stop_node si rid) = None" "drawn_text (route_node t rid) = None"
  "drawn_text (NDict [(''map'', NStr s), (''request_id'', n)]) = Some s"
  by (simp_all add: drawn_text_def bus_node_def stop_node_def route_node_def split: option.split)

lemma answer_replies:
  assumes ok: "servable pf db ms" and r: "router_made db rs router" and q: "valid_request db q"
  shows "\<exists>a. answer pf (request_handler_new db ms (Some router)) q = Inr ([a], drawn_text a) \<and>
    answered (pf_libm pf) db rs ms q a"
proof -
  let ?h = "request_handler_new db ms (Some router)"
  obtain req where req: "parse_request q = Some req" "stops_known db req"
    using q by (auto simp: valid_request_def split: option.splits)
  note a = answer_request [OF req(1), of pf ?h]
  have db: "cat_ok db" and m: "measurable db" using ok by (simp_all add: servable_def)
  show ?thesis
  proof (cases req)
    case (Bus_request n rid)
    obtain info where "get_info_bus (pf_libm pf) db n = Inr info"
      "replies (pf_libm pf) db rs ms req (bus_node info rid)"
      using bus_replies [OF db m] Bus_request by blast
    then show ?thesis using a req Bus_request by (simp add: answered_def get_bus_stat_def request_handler_new_def)
  next
    case (Stop_request n rid)
    then show ?thesis
      using a req stop_replies [OF db] by (simp add: answered_def request_handler_new_def)
  next
    case (Map_request rid)
    obtain doc where "render_map pf ?h = Inr doc" "replies (pf_libm pf) db rs ms req
        (NDict [(''map'', NStr (render_document doc)), (''request_id'', NInt rid)])"
      using map_replies [of ?h pf "pf_libm pf" rs rid] ok Map_request
      by (auto simp: servable_def request_handler_new_def)
    then show ?thesis using a req Map_request by (simp add: answered_def)
  next
    case (Route_request f u rid)
    then have "f \<in> set (snames db)" "u \<in> set (snames db)" using req(2) by simp_all
    from route_replies [OF db r this] obtain info where "get_route_info router f u = Inr info"
      "replies (pf_libm pf) db rs ms req (route_node info rid)" using Route_request by blast
    then show ?thesis using a req Route_request by (simp add: answered_def get_route_stat_def request_handler_new_def)
  qed
qed

theorem answer_all_replies:
  assumes ok: "servable pf db ms" and r: "router_made db rs router"
  shows "\<forall>q \<in> set qs. valid_request db q \<Longrightarrow>
    \<exists>fs' as. answer_all pf (request_handler_new db ms (Some router)) fs acc qs = (fs', Inr (acc @ as)) \<and>
      list_all2 (answered (pf_libm pf) db rs ms) qs as \<and>
      map_of fs' = (map_of fs)(''map.svg'' := last_drawn (map_of fs ''map.svg'') as)"
proof (induction qs arbitrary: fs acc)
  case Nil
  then show ?case by (auto simp: fun_eq_iff)
next
  case (Cons q qs)
  obtain a where a: "answer pf (request_handler_new db ms (Some router)) q = Inr ([a], drawn_text a)"
    "answered (pf_libm pf) db rs ms q a"
    using answer_replies [OF ok r, of q] Cons.prems by auto
  define fs1 where "fs1 = (case drawn_text a of None \<Rightarrow> fs | Some t \<Rightarrow> um_put ''map.svg'' t fs)"
  have "\<forall>q \<in> set qs. valid_request db q" using Cons.prems by simp
  from Cons.IH [OF this, of fs1 "acc @ [a]"]
  obtain fs' as where "answer_all pf (request_handler_new db ms (Some router)) fs1 (acc @ [a]) qs = (fs', Inr ((acc @ [a]) @ as))"
    "list_all2 (answered (pf_libm pf) db rs ms) qs as"
    "map_of fs' = (map_of fs1)(''map.svg'' := last_drawn (map_of fs1 ''map.svg'') as)"
    by blast
  then show ?case using a
    by (intro exI [of _ fs'] exI [of _ "a # as"]) (auto simp: fs1_def map_of_um_put fun_eq_iff split: option.split)
qed

end
