(* ===== verification/Request_Props.thy ===== *)
theory Request_Props
  imports Request_Spec Reader_Props
begin

text \<open>The properties of the answers to requests, with the catalogue of one bus that stops twice as an example.\<close>

text \<open>
  C3: For a consistent catalogue with measured routes, its router and settings with a palette, every
  list of well-formed requests between known stops is answered without an exception, one answer per
  request in order, and each answer says what \<open>replies\<close> says of the catalogue: the statistics of
  the bus, the sorted buses of the stop, the drawn map, or an itinerary where there is one, and
  then (up to ten thousand stops) one that takes at most a millionth longer than any other. The last
  map drawn is left in \<^verbatim>\<open>map.svg\<close>, and no other file changes.
\<close>

theorem requests_answered:
  assumes "cat_ok db" and "roads_known db" and "bus_velocity rs \<noteq> 0" and "measurable db"
    and "color_palette ms \<noteq> []" and "platform_ok pf" and "transport_router_new rs db = Inr router"
    and "\<forall>q \<in> set qs. valid_request db q"
  shows "\<exists>fs' as. answer_all pf (request_handler_new db ms (Some router)) fs [] qs = (fs', Inr as) \<and>
    list_all2 (answered (pf_libm pf) db rs ms) qs as \<and>
    map_of fs' = (map_of fs)(''map.svg'' := last_drawn (map_of fs ''map.svg'') as)"
proof -
  have "servable pf db ms" using assms(1,4-6) by (simp add: servable_def platform_ok_def)
  moreover have "router_made db rs router" using assms(2,3,7) by (simp add: router_made_def)
  ultimately show ?thesis using answer_all_replies [OF _ _ assms(8), of pf ms rs router fs "[]"] by simp
qed

definition demo_requests :: "node list" where
  "demo_requests =
     [NDict [(''id'', NInt 1), (''name'', NStr ''7''), (''type'', NStr ''Bus'')],
      NDict [(''id'', NInt 2), (''name'', NStr ''Z''), (''type'', NStr ''Stop'')],
      NDict [(''id'', NInt 3), (''type'', NStr ''Map'')],
      NDict [(''from'', NStr ''A''), (''id'', NInt 4), (''to'', NStr ''B''), (''type'', NStr ''Route'')]]"

lemma demo_valid: "\<forall>q \<in> set demo_requests. valid_request demo_catalogue q"
  by (simp add: demo_requests_def valid_request_def parse_request_def request_of_def text_of_def demo_names)

lemma demo_measurable: "measurable demo_catalogue"
  by (simp add: measurable_def bus_total_def travelled_def there_and_back_def adjacent_def leg_def demo_catalogue_def)

lemma requests_answered_witness:
  "\<exists>router fs' as. transport_router_new demo_settings demo_catalogue = Inr router \<and>
     answer_all demo_platform (request_handler_new demo_catalogue (map_settings_default\<lparr>color_palette := [Color_name ''green'']\<rparr>)
       (Some router)) [] [] demo_requests = (fs', Inr as) \<and> length as = 4 \<and>
     map_of fs' = Map.empty(''map.svg'' := last_drawn None as)"
proof -
  let ?ms = "map_settings_default\<lparr>color_palette := [Color_name ''green'']\<rparr>"
  obtain router where r: "transport_router_new demo_settings demo_catalogue = Inr router"
    using transport_router_new_ok [OF demo_ok demo_roads demo_velocity] by blast
  have "color_palette ?ms \<noteq> []" "platform_ok demo_platform"
    by (simp_all add: platform_ok_def demo_platform_def demo_orders_ok)
  from requests_answered [OF demo_ok demo_roads demo_velocity demo_measurable this r demo_valid, of "[]"]
  obtain fs' as where a: "answer_all demo_platform (request_handler_new demo_catalogue ?ms (Some router)) [] []
      demo_requests = (fs', Inr as)" "length as = length demo_requests"
      "map_of fs' = Map.empty(''map.svg'' := last_drawn None as)"
    by (auto dest: list_all2_lengthD)
  then have "length as = 4" by (simp add: demo_requests_def)
  then show ?thesis using r a(1,3) by blast
qed

text \<open>
  C32: A leg without a recorded length in a catalogue the router accepts leads from a stop to itself: the
  router takes its length to be 0, but the statistics of the bus throw \<^verbatim>\<open>std::out_of_range\<close>.
\<close>

theorem repeated_stop_throws:
  assumes "cat_ok db" and "roads_known db" and "bus_velocity rs \<noteq> 0" and "n \<in> set (bnames db)"
    and "(y, x) \<in> set (adjacent (travelled (bus_of db n)))" and "leg db (y, x) = None"
  shows "x = y \<and> (\<exists>r. transport_router_new rs db = Inr r) \<and> get_info_bus m db n = Inl Out_of_range"
proof (intro conjI)
  note b = bus_of_in [OF assms(1,4)]
  have s: "x \<in> set (bus_stops (bus_of db n))" "y \<in> set (bus_stops (bus_of db n))"
    using adjacent_stops [OF assms(5)] travelled_stops by blast+
  then have "x < n_stops db" "y < n_stops db" using get_bus_of [OF assms(1,4)] by blast+
  then show "x = y"
    using unmeasured_leg [OF assms(1) _ _ roads_of_trip [OF assms(2) b assms(5)] assms(6)] by blast
  show "\<exists>r. transport_router_new rs db = Inr r" using transport_router_new_ok [OF assms(1-3)] by blast
  have "bus_stops (bus_of db n) \<noteq> []" using s(1) by auto
  then show "get_info_bus m db n = Inl Out_of_range"
    by (rule get_info_bus_unmeasured [OF assms(1,4) _ assms(5,6)])
qed

definition demo_twice :: catalogue where
  "demo_twice = \<lparr>buses_by_name = [(''7'', 0)], stops_by_name = [(''A'', 0)],
     buses_in_stop = [(''A'', [''7''])], length_between_stops = [],
     all_buses = [\<lparr>bus_name = ''7'', bus_stops = [0, 0], is_loop_trip = True\<rparr>],
     all_stops = [\<lparr>stop_name = ''A'', stop_coordinates = \<lparr>lat = 1, lng = 1\<rparr>\<rparr>]\<rparr>"

lemma repeated_stop_throws_witness:
  "(\<exists>r. transport_router_new demo_settings demo_twice = Inr r) \<and> get_info_bus demo_libm demo_twice ''7'' = Inl Out_of_range"
proof -
  have "cat_ok demo_twice"
    by (simp add: cat_ok_def stops_ok_def snames_def bnames_def by_name_def visits_def visit_bus_def
        note_visit_def demo_twice_def um_ok_def)
  moreover have "roads_known demo_twice"
    by (simp add: roads_known_def runs_def known_def demo_twice_def stop_n_def get_length_def)
  moreover have "''7'' \<in> set (bnames demo_twice)" "(0, 0) \<in> set (adjacent (travelled (bus_of demo_twice ''7'')))"
    "leg demo_twice (0, 0) = None"
    by (simp_all add: bnames_def bus_of_def travelled_def adjacent_def leg_def demo_twice_def)
  ultimately show ?thesis using repeated_stop_throws [OF _ _ demo_velocity] by blast
qed

end
