(* ===== verification/Route_Props.thy ===== *)
theory Route_Props
  imports Route_Times Transport_Props Router_Props
begin

text \<open>How near the routes are to the shortest, in the program's own arithmetic.\<close>

text \<open>
  C8: With weights of type \<^verbatim>\<open>double\<close>, whose addition rounds, the weight \<^verbatim>\<open>BuildRoute\<close> reports exceeds the
  exact length of no path by more than the factor \<open>(1 + 2 ^ -53) ^ n\<close>, \<open>n\<close> the number of vertices; the
  route has fewer than \<open>n\<close> edges, and unless the report overflowed its exact length exceeds the report
  at most by \<open>((1 + 2 ^ -53) / (1 - 2 ^ -53)) ^ (n * m)\<close>, \<open>m\<close> the number of its edges.
\<close>

theorem router_nearly_shortest:
  fixes g :: "double graph"
  assumes "graph_wf g" and "\<forall>e \<in> set (edges g). nonneg_double (edge_weight e)"
  shows "\<exists>t. router_new g = Inr t \<and> (\<forall>i < get_vertex_count g. \<forall>j < get_vertex_count g. \<forall>r.
    build_route g t i j = Inr (Some r) \<longrightarrow> length (ri_edges r) < get_vertex_count g \<and>
      (\<forall>ids. path g i ids j \<longrightarrow>
         mag_val (ri_weight r) \<le> (1 + 1 / 2 ^ 53) ^ get_vertex_count g * cost mag_val g ids) \<and>
      (is_finite (ri_weight r) \<longrightarrow> cost mag_val g (ri_edges r) \<le>
         ((1 + 1 / 2 ^ 53) / (1 - 1 / 2 ^ 53)) ^ (get_vertex_count g * length (ri_edges r)) * mag_val (ri_weight r)))"
  using near.router_near [OF assms(1)] assms(2) unfolding near_shortest_def half_ulp_def weights_ok_def by blast

lemma router_nearly_shortest_witness:
  "\<exists>t r. router_new double_demo = Inr t \<and> build_route double_demo t 0 2 = Inr (Some r) \<and>
     mag_val (ri_weight r) \<le> (1 + 1 / 2 ^ 53) ^ 3 * cost mag_val double_demo [0, 1]"
proof -
  have p: "path double_demo 0 [0, 1] 2" by (simp add: double_demo_def)
  then have some: "\<not> (\<forall>ids. \<not> path double_demo 0 ids 2)" by blast
  obtain t0 where t0: "router_new double_demo = Inr t0" "answers double_demo t0"
    using dbl.router_answers [of double_demo] double_demo_ok by (auto simp: weights_ok_def)
  have "case build_route double_demo t0 0 2 of Inl e \<Rightarrow> False
     | Inr None \<Rightarrow> \<not> (\<exists>ids. path double_demo 0 ids 2)
     | Inr (Some r) \<Rightarrow> path double_demo 0 (ri_edges r) 2"
    using t0(2) by (simp add: answers_def double_demo_size)
  then obtain r where r: "build_route double_demo t0 0 2 = Inr (Some r)"
    using some by (cases "build_route double_demo t0 0 2") (simp_all only: sum.case not_False_eq_True, simp split: option.splits)
  obtain t where "router_new double_demo = Inr t" "\<forall>i < 3. \<forall>j < 3. \<forall>r. build_route double_demo t i j = Inr (Some r) \<longrightarrow>
      (\<forall>ids. path double_demo i ids j \<longrightarrow>
        mag_val (ri_weight r) \<le> (1 + 1 / 2 ^ 53) ^ 3 * cost mag_val double_demo ids)"
    using router_nearly_shortest [OF double_demo_ok] unfolding double_demo_size by blast
  moreover from this(1) have "t = t0" using t0(1) by simp
  ultimately have "mag_val (ri_weight r) \<le> (1 + 1 / 2 ^ 53) ^ 3 * cost mag_val double_demo [0, 1]"
    using r p by (meson zero_less_numeral numeral_less_iff semiring_norm)
  then show ?thesis using t0(1) r by blast
qed

text \<open>
  C5: In a network of up to ten thousand stops, the trip \<^verbatim>\<open>GetRouteInfo\<close> returns takes at most one
  millionth longer than any other itinerary between the two stops (times being far from overflow), and
  the total time it shows is within one millionth of the trip's exact time.
\<close>

theorem routes_nearly_fastest:
  assumes "cat_ok db" and "roads_known db" and "bus_velocity rs \<noteq> 0" and "transport_router_new rs db = Inr r"
    and "i < n_stops db" and "j < n_stops db" and "n_stops db \<le> 10000"
    and "get_route_info r (stop_n db i) (stop_n db j) = Inr (Some ti)"
    and "itinerary db rs i cs j" and "exact_time cs < 2 ^ 1023"
  shows "exact_time (trip_items ti) \<le> (1 + 1 / 10 ^ 6) * exact_time cs \<and>
    mag_val (total_time ti) \<le> (1 + 1 / 10 ^ 6) * exact_time cs \<and>
    (1 - 1 / 10 ^ 6) * exact_time (trip_items ti) \<le> mag_val (total_time ti)"
  using routes_near_million [OF assms] by simp

lemma demo_ints:
  "double_of_int 1000 = Double 4652007308841189376" "double_of_int 40 = Double 4630826316843712512" "double_of_int 60 = Double 4633641066610819072"
  by (simp_all add: dbl_eval)

lemma demo_products:
  "Double 4652007308841189376 * Double 4630826316843712512 = Double 4675730371722084352"
  "Double 4582862980812216730 * Double 4633641066610819072 = Double 4609434218613702656"
  by (simp_all add: dbl_eval)

lemma demo_quotient:
  "Double 4652007308841189376 / Double 4675730371722084352 = Double 4582862980812216730"
  by (simp add: dbl_eval bit_len_mant del: bit_len.simps)

lemma demo_ride: "run_time (leg_time demo_catalogue demo_settings) 0 0 [1] = Double 4609434218613702656"
proof -
  have "road demo_catalogue (0, 1) = 1000"
    by (simp add: road_def demo_catalogue_def stop_n_def get_length_def)
  then have "leg_time demo_catalogue demo_settings 0 1 = double_of_int 1000 / (double_of_int 1000 * double_of_int 40) * double_of_int 60"
    by (simp add: leg_time_def demo_settings_def)
  then have leg: "leg_time demo_catalogue demo_settings 0 1 = Double 4609434218613702656"
    by (simp only: demo_ints demo_products demo_quotient)
  have "0 + Double 4609434218613702656 = Double 4609434218613702656"
    by (rule zero_plus_pos) (simp_all add: nonneg_double_def is_nan_def mag_of_def sign_of_def inf_mag_def)
  then show ?thesis by (simp only: run_time.simps leg)
qed

lemma demo_wait: "wait_time demo_settings = Double 4618441417868443648"
  by (simp add: wait_time_def demo_settings_def dbl_eval)

lemma demo_mag_vals: "mag_val (Double 4609434218613702656) = 1.5" "mag_val (Double 4618441417868443648) = 6"
  by (simp_all add: mag_val_def mag_of_def mval_def mant_def expo_def)

lemma demo_times: "exact_time [wait_item demo_catalogue demo_settings 0,
    \<lparr>ct_name = ''7'', ct_weight = run_time (leg_time demo_catalogue demo_settings) 0 0 [1], span_count = Some 1\<rparr>] = 7.5"
  unfolding exact_time_def wait_item_def demo_ride demo_wait by (simp add: demo_mag_vals)

lemma routes_nearly_fastest_witness:
  "\<exists>r ti. transport_router_new demo_settings demo_catalogue = Inr r \<and>
     get_route_info r ''A'' ''B'' = Inr (Some ti) \<and> exact_time (trip_items ti) \<le> (1 + 1 / 10 ^ 6) * 7.5"
proof -
  let ?b = "all_buses demo_catalogue ! 0" and ?c = "\<lparr>ct_name = ''7'',
    ct_weight = run_time (leg_time demo_catalogue demo_settings) 0 0 [1], span_count = Some (1 :: 32 word)\<rparr>"
  have b: "?b \<in> set (all_buses demo_catalogue)" "[0, 1] \<in> set (runs ?b)" "bus_name ?b = ''7''"
    by (simp_all add: demo_catalogue_def runs_def)
  have "hop demo_catalogue demo_settings 0 ?c 1"
    using hop.ride [OF b(1,2), of "[]" 0 "[1]" "[]" demo_settings] b(3) by simp
  then have it: "itinerary demo_catalogue demo_settings 0 [wait_item demo_catalogue demo_settings 0, ?c] 1"
    by (rule itinerary.board [OF _ itinerary.arrived])
  obtain r where r: "transport_router_new demo_settings demo_catalogue = Inr r" "router_ok demo_catalogue demo_settings r"
    using transport_router_new_ok [OF demo_ok demo_roads demo_velocity] by blast
  have ij: "0 < n_stops demo_catalogue" "1 < n_stops demo_catalogue" "n_stops demo_catalogue \<le> 10000"
    by (simp_all add: demo_stops)
  obtain ti where ti: "get_route_info r (stop_n demo_catalogue 0) (stop_n demo_catalogue 1) = Inr (Some ti)"
    using get_route_info_ok [OF demo_ok r(2) ij(1,2)] it by (auto split: sum.splits option.splits)
  have "exact_time [wait_item demo_catalogue demo_settings 0, ?c] < 2 ^ 1023" unfolding demo_times by simp
  from routes_nearly_fastest [OF demo_ok demo_roads demo_velocity r(1) ij ti it this] r(1) ti
  show ?thesis unfolding demo_times demo_stops by blast
qed

end
