(* ===== verification/Number_Text.thy ===== *)
theory Number_Text
  imports Json_Print
begin

text \<open>
  The texts of JSON numbers: an optional sign, a whole part without leading zeros, a fraction and
  an exponent. \<open>load_number\<close> reads such a text to its end, \<open>decimal_parts\<close> takes it apart again, and
  \<open>double_str\<close> prints every finite double as one.
\<close>

section \<open>The grammar\<close>

definition digits :: "string \<Rightarrow> bool" where
  "digits s \<longleftrightarrow> (\<forall>c \<in> set s. isdigit c)"

definition whole_ok :: "string \<Rightarrow> bool" where
  "whole_ok w \<longleftrightarrow> w = ''0'' \<or> (digits w \<and> w \<noteq> [] \<and> hd w \<noteq> CHR ''0'')"

definition sign_part :: "bool \<Rightarrow> string" where
  "sign_part neg = (if neg then ''-'' else [])"

definition fraction_part :: "string \<Rightarrow> string" where
  "fraction_part f = (if f = [] then [] else CHR ''.'' # f)"

definition exponent_part :: "int option \<Rightarrow> string" where
  "exponent_part ex = (case ex of None \<Rightarrow> [] | Some x \<Rightarrow> exponent_str x)"

definition exponent_val :: "int option \<Rightarrow> int" where
  "exponent_val ex = (case ex of None \<Rightarrow> 0 | Some x \<Rightarrow> x)"

definition number_text :: "bool \<Rightarrow> string \<Rightarrow> string \<Rightarrow> int option \<Rightarrow> string" where
  "number_text neg w f ex = sign_part neg @ w @ fraction_part f @ exponent_part ex"

lemma digits_simps [simp]:
  "digits []" "digits (c # s) \<longleftrightarrow> isdigit c \<and> digits s" "digits (s @ t) \<longleftrightarrow> digits s \<and> digits t"
  "digits (dec n)"
  by (auto simp: digits_def dec_digits)

lemma isdigit_0 [simp]: "isdigit (CHR ''0'')"
  by (simp add: isdigit_def)

lemma digits_replicate [simp]: "digits (replicate k (CHR ''0''))"
  by (simp add: digits_def)

lemma whole_okD: "whole_ok w \<Longrightarrow> digits w \<and> w \<noteq> []"
  by (auto simp: whole_ok_def)

lemma whole_cases:
  assumes "whole_ok w"
  obtains c r where "w = c # r" and "isdigit c" and "digits r" and "c = CHR ''0'' \<longrightarrow> r = []"
  using assms by (cases w) (auto simp: whole_ok_def)

text \<open>The exponent \<^verbatim>\<open>printf\<close> writes has a sign and at least two digits.\<close>

lemma undec_append: "undec (s @ t) = undec s * 10 ^ length t + undec t"
proof (induction t rule: rev_induct)
  case (snoc c t)
  then show ?case using undec_snoc [of "s @ t" c] by (simp add: distrib_left)
qed (simp add: undec_def)

lemma undec_zeros [simp]: "undec (replicate k (CHR ''0'')) = 0"
proof (induction k)
  case (Suc k)
  have "replicate (Suc k) (CHR ''0'') = replicate k (CHR ''0'') @ ''0''" by (simp add: replicate_append_same)
  then show ?case using Suc by (simp add: digit_val_def del: replicate.simps)
qed (simp add: undec_def)

lemma exponent_str_shape:
  obtains ds where "exponent_str x = CHR ''e'' # (if x < 0 then CHR ''-'' else CHR ''+'') # ds"
    and "digits ds" and "ds \<noteq> []" and "undec ds = nat \<bar>x\<bar>"
proof -
  define n where "n = nat \<bar>x\<bar>"
  have "undec (''0'' @ dec n) = n" using undec_append [of "''0''" "dec n"] undec_zeros [of 1] by simp
  then show ?thesis
    by (intro that [of "if length (dec n) < 2 then ''0'' @ dec n else dec n"])
      (simp_all add: exponent_str_def Let_def flip: n_def)
qed

section \<open>The parser reads it\<close>

lemma takeWhile_digits:
  assumes "digits s" and "\<not> peek_is isdigit rest"
  shows "takeWhile isdigit (s @ rest) = s" and "dropWhile isdigit (s @ rest) = rest"
proof -
  have "\<not> isdigit c" if "rest = c # r" for c r using assms(2) that by (simp add: peek_is_def)
  then have "takeWhile isdigit (s @ rest) = s \<and> dropWhile isdigit (s @ rest) = rest"
    using assms(1) by (intro takeWhile_stop) (simp_all add: digits_def)
  then show "takeWhile isdigit (s @ rest) = s" "dropWhile isdigit (s @ rest) = rest" by simp_all
qed

lemma read_digits_stop:
  assumes "digits s" and "s \<noteq> []" and "\<not> peek_is isdigit rest"
  shows "read_digits (num, s @ rest) = Inr (num @ s, rest)"
  using assms takeWhile_digits [OF assms(1,3)] by (cases s) (auto simp: read_digits_def digits_loop_eq peek_is_def)

lemma read_whole_text:
  assumes w: "whole_ok w" and "\<not> peek_is isdigit rest"
  shows "read_whole (sign_part neg @ w @ rest) = Inr (sign_part neg @ w, rest)"
proof -
  obtain c r where c: "w = c # r" "isdigit c" "digits r" "c = CHR ''0'' \<longrightarrow> r = []"
    by (rule whole_cases [OF w])
  have minus: "c \<noteq> CHR ''-''" using c(2) by (auto simp: isdigit_def)
  have "(if peek_is (\<lambda>c. c = CHR ''0'') (w @ rest) then read_char (num, w @ rest) else read_digits (num, w @ rest)) =
      Inr (num @ w, rest)" for num
    using c read_digits_stop [of w rest num] assms(2) by (auto simp: peek_is_def read_char_def)
  note body = this
  have "\<not> peek_is (\<lambda>c. c = CHR ''-'') (w @ rest)" using c(1) minus by (simp add: peek_is_def)
  then have "read_whole (sign_part neg @ w @ rest) =
      (if peek_is (\<lambda>c. c = CHR ''0'') (w @ rest) then read_char (sign_part neg, w @ rest)
       else read_digits (sign_part neg, w @ rest))"
    by (cases neg) (simp_all add: read_whole_def sign_part_def peek_is_def [of "\<lambda>c. c = CHR ''-''" "_ # _"]
      read_char_def [of "(_, _ # _)"])
  then show ?thesis unfolding body .
qed

lemma read_fraction_text:
  assumes "digits f" and "\<not> peek_is isdigit rest" and "\<not> peek_is (\<lambda>c. c = CHR ''.'') rest"
  shows "read_fraction (num, fraction_part f @ rest) = Inr ((num @ fraction_part f, rest), f = [])"
  using assms read_digits_stop [of f rest "num @ ''.''"]
  by (auto simp: read_fraction_def fraction_part_def read_char_def peek_is_def [of "\<lambda>c. c = CHR ''.''" "_ # _"])

lemma read_exponent_text:
  assumes "stops rest"
  shows "read_exponent ((num, exponent_part ex @ rest), b) = Inr ((num @ exponent_part ex, rest), b \<and> ex = None)"
proof (cases ex)
  case None
  have "\<not> peek_is (\<lambda>c. c = CHR ''e'' \<or> c = CHR ''E'') rest"
    using assms by (auto simp: stops_def peek_is_def isalpha_def split: list.splits)
  then show ?thesis by (simp add: None exponent_part_def read_exponent_def)
next
  case (Some x)
  obtain ds where x: "exponent_str x = CHR ''e'' # (if x < 0 then CHR ''-'' else CHR ''+'') # ds"
    and ds: "digits ds" "ds \<noteq> []" using exponent_str_shape [of x] .
  have "\<not> peek_is isdigit rest" using assms by (auto simp: stops_def peek_is_def split: list.splits)
  then have "read_digits (num', ds @ rest) = Inr (num' @ ds, rest)" for num' using ds by (intro read_digits_stop)
  then show ?thesis by (simp add: Some exponent_part_def x read_exponent_def peek_is_def read_char_def)
qed

lemma not_digit_parts:
  assumes "stops rest"
  shows "\<not> peek_is isdigit (exponent_part ex @ rest)" and "\<not> peek_is (\<lambda>c. c = CHR ''.'') (exponent_part ex @ rest)"
    and "\<not> peek_is isdigit (fraction_part f @ exponent_part ex @ rest)"
proof -
  have rest: "\<not> peek_is isdigit rest" "\<not> peek_is (\<lambda>c. c = CHR ''.'') rest"
    using assms by (auto simp: stops_def peek_is_def split: list.splits)
  have "\<exists>t. exponent_str x = CHR ''e'' # t" for x by (rule exponent_str_shape [of x]) simp
  then obtain t where t: "exponent_part ex = [] \<or> exponent_part ex = CHR ''e'' # t"
    by (cases ex) (auto simp: exponent_part_def)
  show 1: "\<not> peek_is isdigit (exponent_part ex @ rest)"
    using rest t by (auto simp: peek_is_def [of _ "_ # _"] isdigit_def)
  show "\<not> peek_is (\<lambda>c. c = CHR ''.'') (exponent_part ex @ rest)"
    using rest t by (auto simp: peek_is_def [of _ "_ # _"])
  show "\<not> peek_is isdigit (fraction_part f @ exponent_part ex @ rest)"
    using 1 by (simp add: fraction_part_def) (simp add: peek_is_def isdigit_def)
qed

theorem load_number_text:
  assumes "whole_ok w" and "digits f" and "stops rest"
  shows "load_number (number_text neg w f ex @ rest) =
    bindR (convert_number (number_text neg w f ex) (f = [] \<and> ex = None)) (\<lambda>n. Inr (n, rest))"
proof -
  note parts = not_digit_parts [OF assms(3)]
  have "read_whole (number_text neg w f ex @ rest) =
      Inr (sign_part neg @ w, fraction_part f @ exponent_part ex @ rest)"
    using read_whole_text [OF assms(1) parts(3)] by (simp add: number_text_def)
  then show ?thesis
    using read_fraction_text [OF assms(2) parts(1,2)] read_exponent_text [OF assms(3)]
    by (simp add: load_number_def number_text_def)
qed

lemma unsign_text: "whole_ok w \<Longrightarrow> unsign (sign_part neg @ w @ s) = (neg, w @ s)"
  by (erule whole_cases) (auto simp: unsign_def sign_part_def isdigit_def)

theorem decimal_parts_text:
  assumes w: "whole_ok w" and f: "digits f"
  shows "decimal_parts (number_text neg w f ex) = (neg, undec (w @ f), exponent_val ex - int (length f))"
proof -
  have w': "digits w" using whole_okD [OF w] by simp
  define X where "X = exponent_part ex"
  have X: "\<not> peek_is isdigit X" "\<not> peek_is (\<lambda>c. c = CHR ''.'') X" "\<not> peek_is isdigit (fraction_part f @ X)"
    using not_digit_parts [of "[]"] by (simp_all add: X_def)
  have whole: "takeWhile isdigit (w @ fraction_part f @ X) = w"
    "dropWhile isdigit (w @ fraction_part f @ X) = fraction_part f @ X"
    using takeWhile_digits [OF w' X(3)] by simp_all
  have fraction: "(case fraction_part f @ X of c # r \<Rightarrow> if c = CHR ''.'' then (takeWhile isdigit r, dropWhile isdigit r)
      else ([], fraction_part f @ X) | [] \<Rightarrow> ([], [])) = (f, X)"
    using takeWhile_digits [OF f X(1)] X(2)
    by (auto simp: fraction_part_def peek_is_def split: list.splits)
  have exponent: "(case X of [] \<Rightarrow> 0 | c # r \<Rightarrow>
      (let (eneg, ds) = unsign (case r of d # r' \<Rightarrow> if d = CHR ''+'' then r' else r | [] \<Rightarrow> [])
       in if eneg then - int (undec ds) else int (undec ds))) = exponent_val ex"
  proof (cases ex)
    case (Some x)
    obtain ds where x: "exponent_str x = CHR ''e'' # (if x < 0 then CHR ''-'' else CHR ''+'') # ds"
      and ds: "digits ds" "ds \<noteq> []" "undec ds = nat \<bar>x\<bar>" using exponent_str_shape [of x] .
    obtain c r where c: "ds = c # r" using ds(2) by (cases ds) simp_all
    then have "unsign ds = (False, ds)" using ds(1) by (auto simp: unsign_def isdigit_def)
    then show ?thesis using ds(3) by (auto simp: X_def Some exponent_part_def exponent_val_def x unsign_def [of "_ # _"])
  qed (simp add: X_def exponent_part_def exponent_val_def)
  show ?thesis
    unfolding decimal_parts_def number_text_def X_def [symmetric] unsign_text [OF w] Let_def prod.case whole fraction
      exponent [unfolded Let_def] by simp
qed

end
