(* ===== verification/Decimal_Real.thy ===== *)
theory Decimal_Real
  imports Decimal Ieee_Error
begin

text \<open>
  What the six digits \<^verbatim>\<open>operator<<\<close> prints of a double say of its value, and what \<^verbatim>\<open>std::stod\<close> makes of
  them.
\<close>

section \<open>The decimal logarithm\<close>

lemma dec_length: "0 < n \<Longrightarrow> 10 ^ (length (dec n) - 1) \<le> n \<and> n < 10 ^ length (dec n)"
proof (induction n rule: dec.induct)
  case (1 n)
  show ?case
  proof (cases "n < 10")
    case True
    then show ?thesis using 1 by (subst (1 2) dec.simps) simp
  next
    case False
    define q l where "q = n div 10" and "l = length (dec q)"
    have "0 < q" using False by (simp add: q_def div_greater_zero_iff)
    then have q: "10 ^ (l - 1) \<le> q" "q < 10 ^ l" using 1 False by (simp_all add: q_def l_def)
    have l: "length (dec n) = Suc l" using False by (subst dec.simps) (simp add: l_def q_def)
    have "0 < l" unfolding l_def by simp
    then have "10 ^ l = 10 * (10::nat) ^ (l - 1)" by (cases l) simp_all
    then have "10 ^ l \<le> 10 * q" "10 * Suc q \<le> 10 * 10 ^ l" using q by simp_all
    moreover have "10 * q \<le> n" "n < 10 * Suc q" by (simp_all add: q_def)
    ultimately show ?thesis unfolding l by simp
  qed
qed

lemma dec_shift_bounds:
  "0 < n \<Longrightarrow> n < d \<Longrightarrow> 0 < dec_shift n d \<and> d \<le> n * 10 ^ dec_shift n d \<and> n * 10 ^ (dec_shift n d - 1) < d"
proof (induction n d rule: dec_shift.induct)
  case (1 n d)
  have s: "dec_shift n d = Suc (dec_shift (10 * n) d)" using "1.prems" by (subst dec_shift.simps) simp
  show ?case
  proof (cases "10 * n < d")
    case True
    then have IH: "0 < dec_shift (10 * n) d" "d \<le> 10 * n * 10 ^ dec_shift (10 * n) d"
      "10 * n * 10 ^ (dec_shift (10 * n) d - 1) < d" using 1 by simp_all
    then obtain j where j: "dec_shift (10 * n) d = Suc j" by (cases "dec_shift (10 * n) d") simp_all
    then show ?thesis using IH s by (simp add: mult.left_commute)
  next
    case False
    then have "dec_shift (10 * n) d = 0" by (subst dec_shift.simps) simp
    then show ?thesis using s False "1.prems" by simp
  qed
qed

lemma flog10_bounds:
  assumes n: "0 < n" and d: "0 < d"
  shows "10 powi flog10 n d \<le> real n / real d" and "real n / real d < 10 powi (flog10 n d + 1)"
proof -
  have "10 powi flog10 n d \<le> real n / real d \<and> real n / real d < 10 powi (flog10 n d + 1)"
  proof (cases "d \<le> n")
    case True
    define q l where "q = n div d" and "l = length (dec q)"
    have "0 < q" using True d by (simp add: q_def div_greater_zero_iff)
    then have q: "10 ^ (l - 1) \<le> q" "q < 10 ^ l" and l: "0 < l" using dec_length [of q] by (simp_all add: l_def)
    have f: "flog10 n d = int (l - 1)" using True l by (simp add: flog10_def of_nat_diff flip: q_def l_def)
    have "10 ^ (l - 1) * d \<le> q * d" using q(1) by simp
    also have "\<dots> \<le> n" by (simp add: q_def)
    finally have lo: "10 ^ (l - 1) * d \<le> n" .
    have "n < Suc q * d" using d by (simp add: q_def dividend_less_div_times)
    also have "\<dots> \<le> 10 ^ l * d" using q(2) by (intro mult_right_mono) simp_all
    finally have hi: "n < 10 ^ l * d" .
    have "10 powi flog10 n d = (10 :: real) ^ (l - 1)" unfolding f by (rule power_int_of_nat)
    moreover have "flog10 n d + 1 = int l" using f l by simp
    then have "10 powi (flog10 n d + 1) = (10 :: real) ^ l" by (simp only: power_int_of_nat)
    moreover have "real (10 ^ (l - 1) * d) \<le> real n" "real n < real (10 ^ l * d)"
      using lo hi unfolding of_nat_le_iff of_nat_less_iff .
    then have "(10 :: real) ^ (l - 1) * real d \<le> real n" "real n < (10 :: real) ^ l * real d" by simp_all
    ultimately show ?thesis using d by (simp only: le_divide_eq divide_less_eq of_nat_0_less_iff if_True)
  next
    case False
    then have j: "0 < dec_shift n d" "d \<le> n * 10 ^ dec_shift n d" "n * 10 ^ (dec_shift n d - 1) < d"
      using dec_shift_bounds [OF n] by simp_all
    then obtain i where i: "dec_shift n d = Suc i" by (cases "dec_shift n d") simp_all
    have f: "flog10 n d = - int (Suc i)" "flog10 n d + 1 = - int i" using False i by (simp_all add: flog10_def)
    have L: "10 powi flog10 n d = 1 / (10 :: real) ^ Suc i"
      unfolding f(1) power_int_minus power_int_of_nat inverse_eq_divide ..
    have U: "10 powi (flog10 n d + 1) = 1 / (10 :: real) ^ i"
      unfolding f(2) power_int_minus power_int_of_nat inverse_eq_divide ..
    have "real d \<le> real (n * 10 ^ Suc i)" "real (n * 10 ^ i) < real d"
      using j(2,3) unfolding i of_nat_le_iff of_nat_less_iff by simp_all
    then have "real d \<le> real n * 10 ^ Suc i" "real n * 10 ^ i < real d" by simp_all
    then show ?thesis unfolding L U using d by (simp add: divide_simps mult.commute)
  qed
  then show "10 powi flog10 n d \<le> real n / real d" "real n / real d < 10 powi (flog10 n d + 1)" by simp_all
qed

section \<open>Six digits\<close>

lemma powi10_split: "(10::real) powi k = 10 ^ nat k / 10 ^ nat (- k)"
  by (cases "0 \<le> k") (simp_all add: power_int_def power_one_over inverse_eq_divide)

lemma powi10_add: "(10::real) powi (i + j) = 10 powi i * 10 powi j"
  by (rule power_int_add) simp

text \<open>The six digits and their exponent are within half a unit of the last digit.\<close>

lemma six_digits_error:
  assumes n: "0 < n" and d: "0 < d" and s: "six_digits n d = (m, x)"
  shows "10 ^ 5 \<le> m" and "m < 10 ^ 6"
    and "\<bar>real m * 10 powi (x - 5) - real n / real d\<bar> \<le> real n / real d / (2 * 10 ^ 5)"
proof -
  define k r where "k = flog10 n d" and "r = real n / real d"
  define y where "y = r * 10 powi (5 - k)"
  define m0 where "m0 = round_half_even (n * 10 ^ nat (5 - k)) (d * 10 ^ nat (k - 5))"
  have k: "10 powi k \<le> r" "r < 10 powi (k + 1)" using flog10_bounds [OF n d] by (simp_all add: k_def r_def)
  have p: "10 powi k * 10 powi (5 - k) = (10 :: real) ^ 5" "10 powi (k + 1) * 10 powi (5 - k) = (10 :: real) ^ 6"
    by (simp_all flip: powi10_add add: power_int_numeral)
  have "(10 :: real) ^ 5 \<le> y" unfolding y_def p(1) [symmetric] using k(1) by (intro mult_right_mono) simp_all
  moreover have "y < (10 :: real) ^ 6"
    unfolding y_def p(2) [symmetric] using k(2) by (intro mult_strict_right_mono) simp_all
  ultimately have y: "10 ^ 5 \<le> y" "y < 10 ^ 6" .
  have "int m0 = rhe (real (n * 10 ^ nat (5 - k)) / real (d * 10 ^ nat (k - 5)))"
    unfolding m0_def using d by (intro rhe_ratio) simp
  also have "real (n * 10 ^ nat (5 - k)) / real (d * 10 ^ nat (k - 5)) = y"
    using powi10_split [of "5 - k"] by (simp add: y_def r_def)
  finally have m0: "int m0 = rhe y" .
  have "rhe (of_int (10 ^ 5)) \<le> rhe y" "rhe y \<le> rhe (of_int (10 ^ 6))" using y by (intro rhe_mono; simp)+
  then have "10 ^ 5 \<le> int m0" "int m0 \<le> 10 ^ 6" unfolding rhe_of_int m0 .
  then have range: "10 ^ 5 \<le> m0" "m0 \<le> 10 ^ 6" by simp_all
  have half: "\<bar>real m0 - y\<bar> \<le> 1 / 2" using rhe_error [of y] m0 by (metis of_int_of_nat_eq)
  have "y * 10 powi (k - 5) = r" by (simp add: y_def mult.assoc flip: powi10_add)
  then have "\<bar>real m0 * 10 powi (k - 5) - r\<bar> = \<bar>(real m0 - y) * 10 powi (k - 5)\<bar>" by (simp add: left_diff_distrib)
  also have "\<dots> = \<bar>real m0 - y\<bar> * 10 powi (k - 5)" by (simp add: abs_mult)
  also have "\<dots> \<le> 1 / 2 * 10 powi (k - 5)" using half by (rule mult_right_mono) simp
  also have "\<dots> \<le> r / (2 * 10 ^ 5)" using k(1) by (simp add: power_int_diff power_int_numeral)
  finally have err: "\<bar>real m0 * 10 powi (k - 5) - r\<bar> \<le> r / (2 * 10 ^ 5)" .
  have "10 ^ 5 \<le> m \<and> m < 10 ^ 6 \<and> real m * 10 powi (x - 5) = real m0 * 10 powi (k - 5)"
  proof (cases "m0 = 10 ^ 6")
    case True
    then have mx: "m = 10 ^ 5" "x = k + 1" using s by (simp_all add: six_digits_def Let_def flip: k_def m0_def)
    have "(10 :: real) powi (k + 1 - 5) = 10 * 10 powi (k - 5)" using powi10_add [of 1 "k - 5"] by (simp add: algebra_simps)
    then show ?thesis using True mx by simp
  next
    case False
    then have "m = m0" "x = k" using s by (simp_all add: six_digits_def Let_def flip: k_def m0_def)
    then show ?thesis using range False by simp
  qed
  then show "10 ^ 5 \<le> m" "m < 10 ^ 6"
    "\<bar>real m * 10 powi (x - 5) - real n / real d\<bar> \<le> real n / real d / (2 * 10 ^ 5)"
    using err by (simp_all add: r_def)
qed

end
