(* ===== verification/Printed_Double.thy ===== *)
theory Printed_Double
  imports Number_Text Decimal_Real
begin

text \<open>
  Printing a double and reading it back. The six digits stand for a value within \<open>5 * 10 ^ -6\<close> of
  the double's; reading them gives an integer where they are one and the nearest double elsewhere.
\<close>

section \<open>What is printed\<close>

definition text_val :: "string \<Rightarrow> string \<Rightarrow> int option \<Rightarrow> real" where
  "text_val w f ex = real (undec (w @ f)) * 10 powi (exponent_val ex - int (length f))"

lemma strip_zeros_split: "\<exists>j. fr = strip_zeros fr @ replicate j (CHR ''0'')"
proof -
  define t where "t = takeWhile (\<lambda>c. c = CHR ''0'') (rev fr)"
  have "fr = rev (t @ dropWhile (\<lambda>c. c = CHR ''0'') (rev fr))" by (simp add: t_def)
  also have "\<dots> = strip_zeros fr @ rev t" by (simp only: rev_append strip_zeros_def)
  finally have "fr = strip_zeros fr @ rev t" .
  moreover have "c = CHR ''0''" if "c \<in> set t" for c using that unfolding t_def by (rule set_takeWhileD [THEN conjunct2])
  then have "rev t = replicate (length t) (CHR ''0'')" by (intro replicate_eqI) simp_all
  ultimately show ?thesis by metis
qed

lemma with_fraction_part: "with_fraction w fr = w @ fraction_part (strip_zeros fr)"
  by (simp add: with_fraction_def fraction_part_def Let_def)

text \<open>The zeros \<^verbatim>\<open>%g\<close> leaves out change nothing.\<close>

lemma strip_zeros_val:
  assumes "digits fr"
  shows "digits (strip_zeros fr)" and "text_val w (strip_zeros fr) ex = text_val w fr ex"
proof -
  define f where "f = strip_zeros fr"
  obtain j where fr: "fr = f @ replicate j (CHR ''0'')" using strip_zeros_split [of fr] by (auto simp: f_def)
  show "digits (strip_zeros fr)" using assms fr unfolding f_def [symmetric] by simp
  have u: "undec (w @ fr) = undec (w @ f) * 10 ^ j"
    using undec_append [of "w @ f" "replicate j (CHR ''0'')"] by (simp add: fr)
  have "exponent_val ex - int (length f) = int j + (exponent_val ex - int (length fr))" by (simp add: fr)
  then have p: "(10::real) powi (exponent_val ex - int (length f)) = 10 ^ j * 10 powi (exponent_val ex - int (length fr))"
    by (simp only: powi10_add power_int_of_nat)
  show "text_val w (strip_zeros fr) ex = text_val w fr ex" by (simp add: text_val_def u p flip: f_def)
qed

lemma general_str_text:
  assumes m: "10 ^ 5 \<le> m" "m < 10 ^ 6"
  obtains w f ex where "general_str (m, x) = w @ fraction_part f @ exponent_part ex"
    and "whole_ok w" and "digits f" and "text_val w f ex = real m * 10 powi (x - 5)"
proof -
  note whole = that
  define ds where "ds = dec m"
  have "10 ^ (length ds - 1) \<le> m" "m < 10 ^ length ds" using dec_length [of m] m by (simp_all add: ds_def)
  then have "(10::nat) ^ (length ds - 1) < 10 ^ 6" "(10::nat) ^ 5 < 10 ^ length ds" using m by linarith+
  note exps = this [THEN power_less_imp_less_exp [rotated]]
  have len: "length ds = 6" using exps by simp
  have ds: "digits ds" "undec ds = m" "ds \<noteq> []" "hd ds \<noteq> CHR ''0''" using hd_dec [of m] m by (auto simp: ds_def)
  have front: "whole_ok (take k ds)" if "0 < k" for k
    using ds that by (cases ds; cases k) (auto simp: whole_ok_def digits_def dest: in_set_takeD)
  have tail: "digits (drop k ds)" for k using ds(1) by (auto simp: digits_def dest: in_set_dropD)
  have joined: "text_val (take k ds) (drop k ds) ex = real m * 10 powi (exponent_val ex - int (6 - k))" for k ex
    by (simp add: text_val_def ds len)
  have res: thesis if "general_str (m, x) = with_fraction w fr @ exponent_part ex" "whole_ok w" "digits fr"
    "text_val w fr ex = real m * 10 powi (x - 5)" for w fr ex
    using whole [of w "strip_zeros fr" ex] strip_zeros_val [OF that(3)] that by (simp add: with_fraction_part)
  consider "x < -4 \<or> 6 \<le> x" | "-4 \<le> x" "x < 0" | "0 \<le> x" "x < 6" by linarith
  then show thesis
  proof cases
    case 1
    then show thesis
      by (intro res [of "take 1 ds" "drop 1 ds" "Some x"] front tail)
        (auto simp: general_str_def Let_def ds_def [symmetric] exponent_part_def joined exponent_val_def)
  next
    case 2
    define z where "z = replicate (nat (- x - 1)) (CHR ''0'')"
    have "undec (''0'' @ z @ ds) = m"
      using undec_append [of "''0'' @ z" ds] undec_zeros [of "Suc (nat (- x - 1))"] by (simp add: z_def ds)
    then have "text_val ''0'' (z @ ds) None = real m * 10 powi (x - 5)"
      using 2 by (simp add: text_val_def exponent_val_def z_def len)
    then show thesis
      using 2 by (intro res [of "''0''" "z @ ds" None])
        (auto simp: general_str_def Let_def ds_def [symmetric] z_def exponent_part_def whole_ok_def ds)
  next
    case 3
    have e: "exponent_val None - int (6 - (nat x + 1)) = x - 5" using 3 by (simp add: exponent_val_def)
    have "text_val (take (nat x + 1) ds) (drop (nat x + 1) ds) None = real m * 10 powi (x - 5)"
      using joined [of "nat x + 1" None] unfolding e .
    then show thesis
      using 3 by (intro res [of "take (nat x + 1) ds" "drop (nat x + 1) ds" None] front tail)
        (auto simp: general_str_def Let_def ds_def [symmetric] exponent_part_def)
  qed
qed

theorem double_str_text:
  assumes "mag_of d < inf_mag"
  obtains w f ex where "double_str d = number_text (sign_of d) w f ex" and "whole_ok w" and "digits f"
    and "\<bar>text_val w f ex - mval (mag_of d)\<bar> \<le> mval (mag_of d) / (2 * 10 ^ 5)"
    and "mag_of d = 0 \<longrightarrow> w = ''0'' \<and> f = [] \<and> ex = None"
proof (cases "mag_of d = 0")
  case True
  have "double_str d = number_text (sign_of d) ''0'' [] None"
    using True assms by (simp add: double_str_def number_text_def sign_part_def fraction_part_def exponent_part_def
        is_nan_def is_inf_def)
  moreover have "text_val ''0'' [] None = 0" by (simp add: text_val_def undec_def digit_val_def)
  ultimately show thesis using that [of "''0''" "[]" None] True by (simp add: whole_ok_def)
next
  case False
  define n e where "n = mag_of d" and "e = int (expo n) - 1074"
  define p q where "p = mant n * 2 ^ nat e" and "q = (2::nat) ^ nat (- e)"
  have pos: "0 < p" "0 < q" using False mant_0_iff [of "mag_of d"] by (simp_all add: p_def q_def n_def neq0_conv [symmetric] del: neq0_conv)
  obtain m x where s: "six_digits p q = (m, x)" by (cases "six_digits p q")
  have v: "real p / real q = mval n"
    using powi_nonneg_split [of e] by (simp add: p_def q_def mval_powi flip: e_def)
  obtain w f ex where t: "general_str (m, x) = w @ fraction_part f @ exponent_part ex" "whole_ok w" "digits f"
    "text_val w f ex = real m * 10 powi (x - 5)"
    using general_str_text [OF six_digits_error(1,2) [OF pos s]] .
  have "double_str d = number_text (sign_of d) w f ex"
    using False assms t(1) s by (simp add: double_str_def Let_def is_nan_def is_inf_def number_text_def sign_part_def
        p_def q_def e_def n_def)
  then show thesis using that t six_digits_error(3) [OF pos s] False by (simp add: v n_def)
qed

section \<open>What is read\<close>

text \<open>\<open>plain d\<close>: zero, or between \<open>2 ^ -1020\<close> and \<open>2 ^ 1023\<close> in absolute value.\<close>

definition plain :: "double \<Rightarrow> bool" where
  "plain d \<longleftrightarrow> mag_of d = 0 \<or> (3 * 2 ^ 52 \<le> mag_of d \<and> mag_of d \<le> 2046 * 2 ^ 52)"

lemma rnd_near:
  assumes k: "3 * 2 ^ 52 \<le> k" "k \<le> 2046 * 2 ^ 52" and v: "\<bar>v - mval k\<bar> \<le> mval k / (2 * 10 ^ 5)"
  shows "2 ^ 52 \<le> rnd v" and "rnd v < inf_mag" and "\<bar>mval (rnd v) - mval k\<bar> \<le> mval k / 10 ^ 5"
proof -
  have k0: "0 < mval k" using k(1) by (intro mval_pos) simp
  have "mval k / (2 * 10 ^ 5) \<le> mval k / 2" using k0 by simp
  then have "\<bar>v - mval k\<bar> \<le> mval k / 2" using v by (rule order_trans [rotated])
  then have v0: "mval k / 2 \<le> v" "v \<le> 3 / 2 * mval k" by linarith+
  have "2 * mval (2 * 2 ^ 52) = mval (3 * 2 ^ 52)" using mval_binade [of 1] mval_binade [of 2] by simp
  also have "\<dots> \<le> mval k" using k(1) by (rule mval_mono)
  finally have low: "mval (2 * 2 ^ 52) \<le> v" using v0(1) by linarith
  have "2 * 2 ^ 52 \<le> rnd v" using rnd_mono [OF low] rnd_mval [of "2 * 2 ^ 52"] by (simp add: inf_mag_def)
  then show "2 ^ 52 \<le> rnd v" by simp
  have "mant ((2 ^ 52 + 2 ^ 51) + 2045 * 2 ^ 52) = 2 ^ 52 + 2 ^ 51 \<and> expo ((2 ^ 52 + 2 ^ 51) + 2045 * 2 ^ 52) = 2045"
    by (rule mant_expo_join) simp_all
  then have top: "mval ((2 ^ 52 + 2 ^ 51) + 2045 * 2 ^ 52) = 3 / 2 * mval (2046 * 2 ^ 52)"
    using mval_binade [of 2045] by (simp add: mval_def)
  have "v \<le> mval ((2 ^ 52 + 2 ^ 51) + 2045 * 2 ^ 52)" unfolding top using v0(2) mval_mono [OF k(2)] by linarith
  then have "rnd v \<le> (2 ^ 52 + 2 ^ 51) + 2045 * 2 ^ 52"
    using rnd_mono [of v "mval ((2 ^ 52 + 2 ^ 51) + 2045 * 2 ^ 52)"] rnd_mval [of "(2 ^ 52 + 2 ^ 51) + 2045 * 2 ^ 52"]
    by (simp add: inf_mag_def)
  then show fin: "rnd v < inf_mag" by (simp add: inf_mag_def)
  have "0 < mval (2 * 2 ^ 52)" by (intro mval_pos) simp
  then have "unit_exp (mval (2 * 2 ^ 52)) \<le> unit_exp v" using low by (rule unit_exp_mono)
  moreover have "unit_exp (mval (2 * 2 ^ 52)) = -1073" by (subst unit_exp_mval) (simp_all add: expo_def)
  ultimately have "-1074 < unit_exp v" by simp
  then have "(1 - half_ulp) * v \<le> mval (rnd v)" "mval (rnd v) \<le> (1 + half_ulp) * v"
    using mval_rnd_ge [of v] mval_rnd_le [of v] fin v0(1) k0 by simp_all
  then have "\<bar>mval (rnd v) - v\<bar> \<le> half_ulp * v" by (simp add: abs_le_iff algebra_simps)
  moreover have "half_ulp * v \<le> half_ulp * (3 / 2 * mval k)" using v0(2) by (intro mult_left_mono) (simp_all add: half_ulp_def)
  moreover have "half_ulp * (3 / 2 * mval k) \<le> mval k / (2 * 10 ^ 5)" using k0 by (simp add: half_ulp_def)
  moreover have "mval k / (2 * 10 ^ 5) + mval k / (2 * 10 ^ 5) = mval k / 10 ^ 5" by simp
  ultimately show "\<bar>mval (rnd v) - mval k\<bar> \<le> mval k / 10 ^ 5" using v by linarith
qed

lemma stoi_text:
  assumes "whole_ok w"
  shows "stoi (number_text neg w [] None) = (let i = (if neg then - int (undec w) else int (undec w))
    in if - (2 ^ 31) \<le> i \<and> i < 2 ^ 31 then Inr (word_of_int i) else Inl Out_of_range)"
  using unsign_text [OF assms, of neg "[]"]
  by (simp add: stoi_def number_text_def fraction_part_def exponent_part_def)

lemma stod_text:
  assumes "whole_ok w" and "digits f" and "2 ^ 52 \<le> rnd (text_val w f ex)" and "rnd (text_val w f ex) < inf_mag"
  shows "stod (number_text neg w f ex) = Inr (pack neg (rnd (text_val w f ex)))"
proof -
  define e where "e = exponent_val ex - int (length f)"
  have "mag_of_decimal (undec (w @ f)) e = rnd (text_val w f ex)"
    unfolding mag_of_decimal_def by (subst round_mag_rnd) (simp_all add: text_val_def powi10_split flip: e_def)
  then show ?thesis
    using assms by (simp add: stod_def decimal_parts_text Let_def flip: e_def)
qed

text \<open>A JSON number whose value is that of the double up to one part in \<open>10 ^ 5\<close>.\<close>

primrec near_number :: "node \<Rightarrow> double \<Rightarrow> bool" where
  "near_number (NInt i) d \<longleftrightarrow> \<bar>real_of_int (sint i) - dval d\<bar> \<le> \<bar>dval d\<bar> / 10 ^ 5"
| "near_number (NDbl e) d \<longleftrightarrow> mag_of e < inf_mag \<and> \<bar>dval e - dval d\<bar> \<le> \<bar>dval d\<bar> / 10 ^ 5"
| "near_number NNull d \<longleftrightarrow> False"
| "near_number (NBool b) d \<longleftrightarrow> False"
| "near_number (NStr s) d \<longleftrightarrow> False"
| "near_number (NArr xs) d \<longleftrightarrow> False"
| "near_number (NDict ps) d \<longleftrightarrow> False"

lemma dval_diff: "\<bar>(if sign_of d then - v else v) - dval d\<bar> = \<bar>v - mval (mag_of d)\<bar>" "\<bar>dval d\<bar> = mval (mag_of d)"
  using mval_nonneg [of "mag_of d"] by (simp_all add: dval_def abs_minus_commute)

lemma convert_near:
  assumes "plain d" and w: "whole_ok w" and f: "digits f"
    and v: "\<bar>text_val w f ex - mval (mag_of d)\<bar> \<le> mval (mag_of d) / (2 * 10 ^ 5)"
    and t: "mag_of d = 0 \<longrightarrow> w = ''0'' \<and> f = [] \<and> ex = None"
  shows "\<exists>n. convert_number (number_text (sign_of d) w f ex) (f = [] \<and> ex = None) = Inr n \<and> near_number n d"
proof -
  define i where "i = (if sign_of d then - int (undec w) else int (undec w))"
  have half: "mval (mag_of d) / (2 * 10 ^ 5) \<le> mval (mag_of d) / 10 ^ 5" using mval_nonneg [of "mag_of d"] by simp
  show ?thesis
  proof (cases "f = [] \<and> ex = None \<and> - (2 ^ 31) \<le> i \<and> i < 2 ^ 31")
    case True
    then have "text_val w f ex = real (undec w)" by (simp add: text_val_def exponent_val_def)
    then have "\<bar>real (undec w) - mval (mag_of d)\<bar> \<le> mval (mag_of d) / 10 ^ 5" using v half by linarith
    moreover have "real_of_int i = (if sign_of d then - real (undec w) else real (undec w))" by (simp add: i_def)
    ultimately have "\<bar>real_of_int i - dval d\<bar> \<le> \<bar>dval d\<bar> / 10 ^ 5" by (simp only: dval_diff)
    moreover have "sint (word_of_int i :: 32 word) = i" using True by (simp add: sint_sbintrunc' signed_take_bit_int_eq_self)
    ultimately show ?thesis using True stoi_text [OF w, of "sign_of d"] by (simp add: convert_number_def Let_def flip: i_def)
  next
    case False
    have "mag_of d \<noteq> 0"
    proof
      assume "mag_of d = 0"
      then have z: "w = ''0''" "f = []" "ex = None" using t by simp_all
      then have "i = 0" by (simp add: i_def undec_def digit_val_def)
      then show False using False z by simp
    qed
    then have k: "3 * 2 ^ 52 \<le> mag_of d" "mag_of d \<le> 2046 * 2 ^ 52" using assms(1) by (simp_all add: plain_def)
    define n where "n = rnd (text_val w f ex)"
    have n: "2 ^ 52 \<le> n" "n < inf_mag" "\<bar>mval n - mval (mag_of d)\<bar> \<le> mval (mag_of d) / 10 ^ 5"
      using rnd_near [OF k v] by (simp_all add: n_def)
    have stod: "stod (number_text (sign_of d) w f ex) = Inr (pack (sign_of d) n)"
      using stod_text [OF w f] n by (simp add: n_def)
    have n63: "n < 2 ^ 63" using n(2) inf_mag_less by linarith
    then have "dval (pack (sign_of d) n) = (if sign_of d then - mval n else mval n)" by (simp add: dval_def)
    then have "near_number (NDbl (pack (sign_of d) n)) d"
      using n n63 dval_diff(1) [of d "mval n"] by (simp only: near_number.simps dval_diff mag_of_pack)
    moreover have "f = [] \<Longrightarrow> ex = None \<Longrightarrow> stoi (number_text (sign_of d) w f ex) = Inl Out_of_range"
      using False stoi_text [OF w, of "sign_of d"] by (auto simp: Let_def simp flip: i_def)
    ultimately show ?thesis using stod by (auto simp: convert_number_def)
  qed
qed

lemma load_node_number:
  assumes "whole_ok w"
  shows "begins (number_text neg w f ex)"
    and "load_node (number_text neg w f ex @ rest) = load_number (number_text neg w f ex @ rest)"
proof -
  obtain c0 r0 where "w = c0 # r0" "isdigit c0" by (rule whole_cases [OF assms])
  then obtain c r where c: "number_text neg w f ex = c # r" "isdigit c \<or> c = CHR ''-''"
    by (cases neg) (auto simp: number_text_def sign_part_def)
  then have "\<not> isspace c" "c \<notin> {CHR '','', CHR '']'', CHR ''['', CHR ''{'', CHR 0x22, CHR ''t'', CHR ''f'', CHR ''n''}"
    by (auto simp: isdigit_def isspace_def)
  then show "begins (number_text neg w f ex)"
    "load_node (number_text neg w f ex @ rest) = load_number (number_text neg w f ex @ rest)"
    by (simp_all add: begins_def c(1) load_node.simps get_char_Cons)
qed

theorem reads_dbl:
  assumes "plain d"
  shows "\<exists>n. reads_as (NDbl d) n \<and> near_number n d"
proof -
  have "mag_of d < inf_mag" using assms by (auto simp: plain_def inf_mag_def)
  then obtain w f ex where t: "double_str d = number_text (sign_of d) w f ex" "whole_ok w" "digits f"
    "\<bar>text_val w f ex - mval (mag_of d)\<bar> \<le> mval (mag_of d) / (2 * 10 ^ 5)"
    "mag_of d = 0 \<longrightarrow> w = ''0'' \<and> f = [] \<and> ex = None"
    by (rule double_str_text)
  obtain n where n: "convert_number (number_text (sign_of d) w f ex) (f = [] \<and> ex = None) = Inr n" "near_number n d"
    using convert_near [OF assms t(2-5)] by blast
  then have "reads_as (NDbl d) n"
    using load_number_text [OF t(2,3)] load_node_number [OF t(2)] by (simp add: reads_as_def print_node.simps t(1))
  then show ?thesis using n by blast
qed

end
