(* ===== verification/Json_Reals.thy ===== *)
theory Json_Reals
  imports Printed_Double
begin

text \<open>
  Documents with doubles in them. What is read back has the same shape, keys, strings, integers and
  literals; every double has become a number near it.
\<close>

primrec plain_node :: "node \<Rightarrow> bool" where
  "plain_node NNull = True"
| "plain_node (NArr xs) = list_all (\<lambda>b. b) (map plain_node xs)"
| "plain_node (NDict ps) = list_all (\<lambda>p. snd p) (map (map_prod id plain_node) ps)"
| "plain_node (NBool _) = True"
| "plain_node (NInt _) = True"
| "plain_node (NDbl d) = plain d"
| "plain_node (NStr _) = True"

lemma plain_node_NArr [simp]: "plain_node (NArr xs) \<longleftrightarrow> (\<forall>n \<in> set xs. plain_node n)"
  by (simp add: list_all_iff)

lemma plain_node_NDict [simp]: "plain_node (NDict ps) \<longleftrightarrow> (\<forall>p \<in> set ps. plain_node (snd p))"
  by (simp add: list_all_iff)

declare plain_node.simps(2,3) [simp del]

inductive near_node :: "node \<Rightarrow> node \<Rightarrow> bool" where
  near_dbl: "near_number n d \<Longrightarrow> near_node (NDbl d) n"
| near_arr: "list_all2 near_node xs ys \<Longrightarrow> near_node (NArr xs) (NArr ys)"
| near_dict: "list_all2 (\<lambda>p q. fst p = fst q \<and> near_node (snd p) (snd q)) ps qs \<Longrightarrow> near_node (NDict ps) (NDict qs)"
| near_null: "near_node NNull NNull"
| near_bool: "near_node (NBool b) (NBool b)"
| near_int: "near_node (NInt i) (NInt i)"
| near_str: "near_node (NStr s) (NStr s)"
monos list_all2_mono

inductive_simps near_simps: "near_node (NDbl d) n" "near_node (NArr xs) n" "near_node (NDict ps) n"
  "near_node (NInt i) n" "near_node (NStr s) n" "near_node NNull n" "near_node (NBool b) n"

lemma reads_near: "node_ok n \<Longrightarrow> plain_node n \<Longrightarrow> \<exists>m. reads_as n m \<and> near_node n m"
proof (induction n rule: node_induct)
  case (Arr xs)
  then obtain g where g: "\<And>n. n \<in> set xs \<Longrightarrow> reads_as n (g n) \<and> near_node n (g n)" by (metis node_ok_NArr plain_node_NArr)
  then have "list_all2 reads_as xs (map g xs)" "list_all2 near_node xs (map g xs)"
    by (simp_all add: list_all2_map2 list.rel_refl_strong)
  then show ?case by (blast intro: reads_arr near_arr)
next
  case (Dict ps)
  have "\<forall>p \<in> set ps. \<exists>m. reads_as (snd p) m \<and> near_node (snd p) m" using Dict by fastforce
  then obtain g where g: "\<And>p. p \<in> set ps \<Longrightarrow> reads_as (snd p) (g p) \<and> near_node (snd p) (g p)" by metis
  define qs where "qs = map (\<lambda>p. (fst p, g p)) ps"
  have keys: "map fst qs = map fst ps" by (simp add: qs_def)
  then have "sm_ok qs" using Dict.prems(1) by (simp add: sm_ok_def)
  moreover have "list_all2 (\<lambda>p q. fst p = fst q \<and> reads_as (snd p) (snd q)) ps qs"
    "list_all2 (\<lambda>p q. fst p = fst q \<and> near_node (snd p) (snd q)) ps qs"
    using g by (simp_all add: qs_def list_all2_map2 list.rel_refl_strong)
  ultimately show ?case by (blast intro: reads_dict near_dict)
qed (use reads_scalar reads_dbl in \<open>auto simp: near_simps\<close>)

theorem load_print_near:
  assumes "node_ok (get_root doc)" and "plain_node (get_root doc)"
  shows "\<exists>doc'. near_node (get_root doc) (get_root doc') \<and>
    (\<forall>rest. stops rest \<longrightarrow> load (print_doc doc @ rest) = Inr (doc', rest))"
proof -
  obtain m where "reads_as (get_root doc) m" "near_node (get_root doc) m" using reads_near [OF assms] by blast
  then show ?thesis
    by (intro exI [of _ "document_new m"]) (simp add: reads_as_def load_def print_doc_def document_new_def get_root_def)
qed

end
