(* ===== verification/Print_Props.thy ===== *)
theory Print_Props
  imports Json_Reals Reader_Props
begin

text \<open>
  The properties of printed doubles: what is read back of a document with doubles in it, and the
  doubles no JSON text stands for.
\<close>

text \<open>
  C12: A printed document whose doubles are zero or between \<open>2 ^ -1020\<close> and \<open>2 ^ 1023\<close> in absolute value
  is read back, whatever text follows it, as a document of the same shape: keys, strings, integers
  and literals are the same, and each double has become an integer or a double whose value differs
  from its own by at most one part in \<open>10 ^ 5\<close>, what six significant digits keep.
\<close>

theorem printed_doubles_near:
  assumes "node_ok (get_root doc)" and "plain_node (get_root doc)"
  shows "\<exists>doc'. near_node (get_root doc) (get_root doc') \<and>
    (\<forall>rest. stops rest \<longrightarrow> load (print_doc doc @ rest) = Inr (doc', rest))"
  by (rule load_print_near [OF assms])

lemma printed_doubles_near_witness:
  "\<exists>n m. load (print_doc (document_new (NArr [NDbl (pack True (1023 * 2 ^ 52 + 7)), NStr ''km'']))) =
      Inr (document_new (NArr [n, m]), []) \<and> near_number n (pack True (1023 * 2 ^ 52 + 7)) \<and> m = NStr ''km''"
proof -
  let ?d = "pack True (1023 * 2 ^ 52 + 7)"
  have "plain ?d" by (simp add: plain_def)
  then obtain doc' where "near_node (NArr [NDbl ?d, NStr ''km'']) (get_root doc')"
    "load (print_doc (document_new (NArr [NDbl ?d, NStr ''km'']))) = Inr (doc', [])"
    using printed_doubles_near [of "document_new (NArr [NDbl ?d, NStr ''km''])"]
    by (auto simp: get_root_def document_new_def dest: spec [of _ "[]"])
  then show ?thesis
    by (cases doc') (auto simp: near_simps list_all2_Cons1 get_root_def document_new_def)
qed

text \<open>A double that is not finite is printed as \<^verbatim>\<open>nan\<close> or \<^verbatim>\<open>inf\<close>, which no reader of numbers takes.\<close>

lemma load_not_finite:
  assumes "\<not> mag_of d < inf_mag"
  shows "\<exists>m. load_node (double_str d @ rest) = Inl (Parsing_error m)"
proof -
  have "double_str d = (if sign_of d then ''-'' else []) @ ''nan'' \<or> double_str d = (if sign_of d then ''-'' else []) @ ''inf''"
    using assms by (cases "mag_of d = inf_mag") (simp_all add: double_str_def is_nan_def is_inf_def Let_def)
  then show ?thesis
    by (auto simp: load_node.simps get_char_Cons isspace_def load_null_def load_literal_eq isalpha_def load_number_def
        read_whole_def peek_is_def read_char_def read_digits_def isdigit_def)
qed

lemma load_member_fails:
  assumes "load_node (print_node (indented print_ctx_new) n @ after) = Inl e"
    and "after = print_members (indented print_ctx_new) False ps @ CHR 0x0A # ''}'' @ rest"
  shows "load (print_doc (document_new (NDict ((k, n) # ps))) @ rest) = Inl e"
proof -
  let ?c = "indented print_ctx_new"
  have "load_dict [] (CHR 0x0A # print_indent ?c @ print_string k @ '': '' @ print_node ?c n @ after) = Inl e"
    using assms(1) load_dict_member [of "[]" k "print_node ?c n @ after"]
      load_dict_skip [of "CHR 0x0A # print_indent ?c @ print_string k @ '': '' @ print_node ?c n @ after"
        "print_string k @ '': '' @ print_node ?c n @ after" "[]"]
    by (simp add: skip_space)
  then show ?thesis
    using assms(2) by (simp add: load_def print_doc_def document_new_def get_root_def print_node.simps [of _ "NDict _"]
        print_members.simps [of _ True] load_node.simps [of "CHR ''{'' # _"] get_char_Cons isspace_def)
      (simp add: print_indent_def print_ctx_new_def)
qed

text \<open>
  C35: The statistics of a bus with a single stop: both lengths are 0 and the curvature is their quotient, a NaN
  (where \<^verbatim>\<open>transform_reduce\<close> of an empty range is its initial value). The answer is printed with the
  word \<^verbatim>\<open>nan\<close>, and the program's own parser rejects what the program printed.
\<close>

theorem one_stop_bus_unreadable:
  assumes "cat_ok c" and "map_of (buses_by_name c) n = Some i" and "bus_stops (all_buses c ! i) = [s]"
    and "libm_reduce m [] = 0"
  shows "\<exists>info answer msg. get_info_bus m c n = Inr info \<and> is_nan (curvature info) \<and>
    response_bus info rid = Inr answer \<and>
    load (print_doc (document_new answer) @ rest) = Inl (Parsing_error msg)"
proof -
  let ?b = "all_buses c ! i"
  have zero: "double_of_int (2 :: int) * 0 = 0" "(0 :: double) / 0 = nan_double" "double_of_int 0 = 0"
    by (simp_all add: dbl_eval zero_double_def times_double_def divide_double_def is_nan_def is_inf_def inf_mag_def)
  have line: "summation_line_length m c ?b = Inr 0"
    using assms(3,4) zero by (simp add: summation_line_length_def adjacent_def)
  have "travelled ?b = [s]" using assms(3) by (simp add: travelled_def there_and_back_def)
  then have "\<exists>r line. get_info_bus m c n = Inr r \<and> bi_exists r \<and> summation_line_length m c ?b = Inr line \<and>
      curvature r = route_length r / line \<and> route_length r = double_of_int 0"
    using get_info_bus_exact [OF assms(1,2) refl, of m] assms(3) by (auto simp: adjacent_def)
  then obtain info where info: "get_info_bus m c n = Inr info" "bi_exists info" "curvature info = nan_double"
    using line zero by auto
  have nan: "is_nan nan_double" "\<not> mag_of nan_double < inf_mag" by (simp_all add: is_nan_def nan_double_def inf_mag_def)
  define after where "after = print_members (indented print_ctx_new) False (tl (case bus_node info rid of NDict ps \<Rightarrow> ps)) @
    CHR 0x0A # ''}'' @ rest"
  obtain msg where "load_node (double_str nan_double @ after) = Inl (Parsing_error msg)"
    using load_not_finite [OF nan(2)] by blast
  then have "load_node (print_node (indented print_ctx_new) (NDbl nan_double) @ after) = Inl (Parsing_error msg)"
    by (simp add: print_node.simps)
  from load_member_fails [OF this, where rest = rest and k = "''curvature''"]
  have "load (print_doc (document_new (bus_node info rid)) @ rest) = Inl (Parsing_error msg)"
    using info by (simp add: after_def bus_node_def)
  then show ?thesis using info nan(1) response_bus_ok [of info rid] by (intro exI [of _ info]) simp
qed

definition one_stop_catalogue :: catalogue where
  "one_stop_catalogue = demo_catalogue\<lparr>buses_by_name := [(''7'', 0)], buses_in_stop := [(''A'', [''7''])],
     all_buses := [\<lparr>bus_name = ''7'', bus_stops = [0], is_loop_trip = True\<rparr>]\<rparr>"

lemma one_stop_bus_unreadable_witness:
  "\<exists>info answer msg. get_info_bus demo_libm one_stop_catalogue ''7'' = Inr info \<and>
     response_bus info 1 = Inr answer \<and> load (print_doc (document_new answer)) = Inl (Parsing_error msg)"
proof -
  have "cat_ok one_stop_catalogue"
    by (simp add: cat_ok_def stops_ok_def snames_def bnames_def by_name_def visits_def visit_bus_def
        note_visit_def demo_catalogue_def one_stop_catalogue_def um_ok_def)
  from one_stop_bus_unreadable [OF this, of "''7''" 0 0 demo_libm 1 "[]"] show ?thesis
    by (auto simp: one_stop_catalogue_def demo_libm_def)
qed

end
