(* ===== verification/Xml_Reader.thy ===== *)
theory Xml_Reader
  imports Prelude "HOL-Library.Sublist"
begin

text \<open>
  A reader of XML, as a specification of what a written document says: elements with quoted
  attributes, character data and processing instructions, without comments, CDATA sections,
  document types and numeric character references. A text is the list of its bytes. Ill-formed
  texts are rejected: an open or misnested tag, a repeated attribute, a bare \<^verbatim>\<open>&\<close>, a \<^verbatim>\<open><\<close> in a
  value, \<^verbatim>\<open>]]>\<close> in data, a control character.
\<close>

datatype xml = Elem string "(string \<times> string) list" "xml list" | Chars string

section \<open>Characters and entities\<close>

definition is_space :: "char \<Rightarrow> bool" where
  "is_space c \<longleftrightarrow> c = CHR '' '' \<or> c = CHR 0x0A \<or> c = CHR 0x09"

definition printable :: "char \<Rightarrow> bool" where
  "printable c \<longleftrightarrow> 32 \<le> (of_char c :: nat)"

definition name_start :: "char \<Rightarrow> bool" where
  "name_start c \<longleftrightarrow> (let n = of_char c :: nat in 65 \<le> n \<and> n \<le> 90 \<or> 97 \<le> n \<and> n \<le> 122 \<or> n = 95 \<or> n = 58)"

definition name_char :: "char \<Rightarrow> bool" where
  "name_char c \<longleftrightarrow> name_start c \<or> (let n = of_char c :: nat in 48 \<le> n \<and> n \<le> 57 \<or> n = 45 \<or> n = 46)"

fun name_ok :: "string \<Rightarrow> bool" where
  "name_ok [] \<longleftrightarrow> False"
| "name_ok (c # s) \<longleftrightarrow> name_start c \<and> list_all name_char s"

definition entities :: "(string \<times> char) list" where
  "entities = [(''amp;'', CHR ''&''), (''quot;'', CHR 0x22), (''apos;'', CHR 0x27), (''lt;'', CHR ''<''),
     (''gt;'', CHR ''>'')]"

fun xml_unescape :: "string \<Rightarrow> string option" where
  "xml_unescape [] = Some []"
| "xml_unescape (c # s) =
     (if c = CHR ''<'' then None
      else if c = CHR ''&'' then
        (case find (\<lambda>(e, d). prefix e s) entities of
           None \<Rightarrow> None
         | Some (e, d) \<Rightarrow> map_option ((#) d) (xml_unescape (drop (length e) s)))
      else map_option ((#) c) (xml_unescape s))"

definition xml_data :: "string \<Rightarrow> string option" where
  "xml_data s =
     (if list_all (\<lambda>c. printable c \<or> is_space c) s \<and> \<not> sublist '']]>'' s then xml_unescape s else None)"

definition xml_value :: "string \<Rightarrow> string option" where
  "xml_value s = (if list_all printable s then xml_unescape s else None)"

lemma xml_unescape_no_tag: "xml_unescape s \<noteq> None \<Longrightarrow> CHR ''<'' \<notin> set s"
proof (induction s rule: xml_unescape.induct)
  case (2 c s)
  show ?case
  proof (cases "c = CHR ''&''")
    case True
    then obtain e d where e: "find (\<lambda>(e, d). prefix e s) entities = Some (e, d)" and u: "xml_unescape (drop (length e) s) \<noteq> None"
      using "2.prems" by (auto split: option.splits)
    then have "prefix e s" "(e, d) \<in> set entities" by (auto simp: find_Some_iff in_set_conv_nth)
    then have "CHR ''<'' \<notin> set e" "s = e @ drop (length e) s" by (auto simp: entities_def prefix_def)
    then have "set s = set e \<union> set (drop (length e) s)" by (metis set_append)
    then show ?thesis using "2.IH"(1) e u True \<open>CHR ''<'' \<notin> set e\<close> by auto
  next
    case False
    then show ?thesis using 2 by (auto split: if_splits)
  qed
qed simp

lemma xml_data_no_tag: "xml_data s \<noteq> None \<Longrightarrow> CHR ''<'' \<notin> set s"
  using xml_unescape_no_tag [of s] by (auto simp: xml_data_def split: if_splits)

section \<open>Tags\<close>

definition quote :: char where
  "quote = CHR 0x22"

text \<open>\<open> name="value"\<close>\<close>

definition read_attr :: "string \<Rightarrow> ((string \<times> string) \<times> string) option" where
  "read_attr s =
     (let n = takeWhile name_char s; r = dropWhile name_char s; r' = dropWhile (\<lambda>c. c \<noteq> quote) (drop 2 r)
      in if name_ok n \<and> prefix [CHR ''='', quote] r \<and> r' \<noteq> []
         then map_option (\<lambda>v. ((n, v), tl r')) (xml_value (takeWhile (\<lambda>c. c \<noteq> quote) (drop 2 r)))
         else None)"

text \<open>The attributes of a tag, whether it is an empty element, and the rest behind it.\<close>

function read_attrs :: "string \<Rightarrow> ((string \<times> string) list \<times> bool \<times> string) option" where
  "read_attrs s =
     (let s' = dropWhile is_space s
      in if prefix ''/>'' s' then Some ([], True, drop 2 s')
         else if prefix ''>'' s' then Some ([], False, drop 1 s')
         else if s' = s then None
         else (case read_attr s' of
             None \<Rightarrow> None
           | Some (a, r) \<Rightarrow> (if length s \<le> length r then None
               else (case read_attrs r of
                   None \<Rightarrow> None
                 | Some (al, e, rest) \<Rightarrow> if fst a \<in> fst ` set al then None else Some (a # al, e, rest)))))"
  by pat_completeness auto
termination by (relation "measure length") auto

declare read_attrs.simps [simp del]

section \<open>Tokens\<close>

datatype token = Open string "(string \<times> string) list" | Close string | Data string

fun skip_instruction :: "string \<Rightarrow> string option" where
  "skip_instruction [] = None"
| "skip_instruction (c # s) = (if prefix ''?>'' (c # s) then Some (tl s) else skip_instruction s)"

definition read_token :: "string \<Rightarrow> (token list \<times> string) option" where
  "read_token s =
     (if prefix ''<?'' s then map_option (\<lambda>r. ([], r)) (skip_instruction (drop 2 s))
      else if prefix ''</'' s then
        (let n = takeWhile name_char (drop 2 s); r = dropWhile is_space (dropWhile name_char (drop 2 s))
         in if prefix ''>'' r then Some ([Close n], tl r) else None)
      else if prefix ''<'' s then
        (let n = takeWhile name_char (tl s)
         in if name_ok n then
              map_option (\<lambda>(al, e, r). (Open n al # (if e then [Close n] else []), r))
                (read_attrs (dropWhile name_char (tl s)))
            else None)
      else map_option (\<lambda>d. ([Data d], dropWhile (\<lambda>c. c \<noteq> CHR ''<'') s))
             (xml_data (takeWhile (\<lambda>c. c \<noteq> CHR ''<'') s)))"

function lex_xml :: "string \<Rightarrow> token list option" where
  "lex_xml s =
     (if s = [] then Some []
      else (case read_token s of
          None \<Rightarrow> None
        | Some (ts, r) \<Rightarrow> if length s \<le> length r then None else map_option ((@) ts) (lex_xml r)))"
  by pat_completeness auto
termination by (relation "measure length") auto

declare lex_xml.simps [simp del]

section \<open>Trees\<close>

text \<open>The open elements, each with its elder siblings, and the nodes read in the innermost one.\<close>

type_synonym frame = "string \<times> (string \<times> string) list \<times> xml list"

fun build_step :: "frame list \<times> xml list \<Rightarrow> token \<Rightarrow> (frame list \<times> xml list) option" where
  "build_step (st, ns) (Data s) = Some (st, ns @ [Chars s])"
| "build_step (st, ns) (Open n al) = Some ((n, al, ns) # st, [])"
| "build_step ([], ns) (Close n) = None"
| "build_step ((m, al, elder) # st, ns) (Close n) = (if m = n then Some (st, elder @ [Elem m al ns]) else None)"

fun build_tree :: "frame list \<times> xml list \<Rightarrow> token list \<Rightarrow> (frame list \<times> xml list) option" where
  "build_tree st [] = Some st"
| "build_tree st (t # ts) = (case build_step st t of None \<Rightarrow> None | Some st' \<Rightarrow> build_tree st' ts)"

fun blank :: "xml \<Rightarrow> bool" where
  "blank (Chars s) \<longleftrightarrow> list_all is_space s"
| "blank (Elem n al cs) \<longleftrightarrow> False"

definition root_of :: "frame list \<times> xml list \<Rightarrow> xml option" where
  "root_of p = (case filter (\<lambda>t. \<not> blank t) (snd p) of
     [Elem n al cs] \<Rightarrow> if fst p = [] then Some (Elem n al cs) else None
   | _ \<Rightarrow> None)"

definition read_xml :: "string \<Rightarrow> xml option" where
  "read_xml s = Option.bind (lex_xml s) (\<lambda>ts. Option.bind (build_tree ([], []) ts) root_of)"

text \<open>The tokens of a tree build the tree.\<close>

fun tokens :: "xml \<Rightarrow> token list" where
  "tokens (Chars s) = [Data s]"
| "tokens (Elem n al cs) = Open n al # concat (map tokens cs) @ [Close n]"

lemma build_tree_append:
  "build_tree st (ts @ us) = Option.bind (build_tree st ts) (\<lambda>st'. build_tree st' us)"
  by (induction ts arbitrary: st) (simp_all split: option.split)

lemma build_tokens: "build_tree (st, ns) (tokens t) = Some (st, ns @ [t])"
proof (induction t arbitrary: st ns)
  case (Elem n al cs)
  have "build_tree (st, ns) (concat (map tokens ts)) = Some (st, ns @ ts)" if "set ts \<subseteq> set cs" for ts st ns
    using that Elem by (induction ts arbitrary: ns) (simp_all add: build_tree_append)
  then show ?case by (simp add: build_tree_append)
qed simp

lemma build_all: "build_tree (st, ns) (concat (map tokens ts)) = Some (st, ns @ ts)"
  by (induction ts arbitrary: ns) (simp_all add: build_tree_append build_tokens)

section \<open>Reading a text piece by piece\<close>

text \<open>A piece with its tokens, whatever follows: nothing, or a tag where the piece is data.\<close>

definition lexes :: "string \<Rightarrow> token list \<Rightarrow> bool" where
  "lexes s ts \<longleftrightarrow> (\<forall>r. lex_xml (s @ r) = map_option ((@) ts) (lex_xml r))"

lemma lexes_Nil [simp]: "lexes [] []"
  by (auto simp: lexes_def map_option_case split: option.split)

lemma lexes_append: "lexes s ts \<Longrightarrow> lexes s' ts' \<Longrightarrow> lexes (s @ s') (ts @ ts')"
  by (simp add: lexes_def option.map_comp map_option_case split: option.split)

lemma lexes_concat: "(\<And>x. x \<in> set xs \<Longrightarrow> lexes (f x) (g x)) \<Longrightarrow> lexes (concat (map f xs)) (concat (map g xs))"
  by (induction xs) (simp_all add: lexes_append)

lemma lexesI: "s \<noteq> [] \<Longrightarrow> (\<And>r. read_token (s @ r) = Some (ts, r)) \<Longrightarrow> lexes s ts"
  unfolding lexes_def by (subst lex_xml.simps) simp

lemma lexes_lex: "lexes s ts \<Longrightarrow> lex_xml s = Some ts"
  using lex_xml.simps [of "[]"] by (auto simp: lexes_def dest: spec [of _ "[]"])

lemma until:
  "c \<notin> set s \<Longrightarrow> takeWhile (\<lambda>d. d \<noteq> c) (s @ c # r) = s \<and> dropWhile (\<lambda>d. d \<noteq> c) (s @ c # r) = c # r"
  by (induction s) auto

text \<open>Data followed by a tag.\<close>

lemma lex_data:
  assumes "xml_data s = Some d" and "s \<noteq> []"
  shows "lex_xml (s @ CHR ''<'' # r) = map_option ((#) (Data d)) (lex_xml (CHR ''<'' # r))"
proof -
  have no: "CHR ''<'' \<notin> set s" by (rule xml_data_no_tag) (simp add: assms(1))
  obtain c cs where s: "s = c # cs" "c \<noteq> CHR ''<''" using assms(2) no by (cases s) auto
  have "takeWhile (\<lambda>c. c \<noteq> CHR ''<'') (s @ CHR ''<'' # r) = s"
    "dropWhile (\<lambda>c. c \<noteq> CHR ''<'') (s @ CHR ''<'' # r) = CHR ''<'' # r"
    using until [OF no] by blast+
  then have "read_token (s @ CHR ''<'' # r) = Some ([Data d], CHR ''<'' # r)"
    using s assms(1) by (simp add: read_token_def)
  then show ?thesis
    using assms(2) by (subst lex_xml.simps) (simp add: map_option_case split: option.split)
qed

lemma lexes_data:
  assumes "xml_data s = Some d" and "s \<noteq> []" and "lexes (CHR ''<'' # s') ts"
  shows "lexes (s @ CHR ''<'' # s') (Data d # ts)"
  using assms(3) lex_data [OF assms(1,2)]
  by (simp add: lexes_def option.map_comp map_option_case split: option.split)

lemma lexes_fails: "lexes s ts \<Longrightarrow> lex_xml r = None \<Longrightarrow> lex_xml (s @ r) = None"
  by (simp add: lexes_def)

section \<open>Written tags\<close>

definition value_ok :: "string \<Rightarrow> bool" where
  "value_ok v \<longleftrightarrow> (\<forall>c \<in> set v. printable c \<and> c \<noteq> quote \<and> c \<noteq> CHR ''&'' \<and> c \<noteq> CHR ''<'')"

lemma value_ok_simps [simp]:
  "value_ok []" "value_ok (c # v) \<longleftrightarrow> printable c \<and> c \<noteq> quote \<and> c \<noteq> CHR ''&'' \<and> c \<noteq> CHR ''<'' \<and> value_ok v"
  "value_ok (v @ w) \<longleftrightarrow> value_ok v \<and> value_ok w"
  by (auto simp: value_ok_def)

lemma value_ok_concat: "(\<And>x. x \<in> set xs \<Longrightarrow> value_ok (f x)) \<Longrightarrow> value_ok (concat (map f xs))"
  by (induction xs) simp_all

lemma xml_value_plain: "value_ok v \<Longrightarrow> xml_value v = Some v"
proof -
  assume v: "value_ok v"
  then have "xml_unescape v = Some v" by (induction v) simp_all
  then show ?thesis using v by (auto simp: xml_value_def value_ok_def list_all_iff)
qed

lemma name_start_facts:
  assumes "name_start c"
  shows "\<not> is_space c \<and> c \<noteq> CHR ''/'' \<and> c \<noteq> CHR ''>'' \<and> c \<noteq> CHR ''?'' \<and> name_char c"
  using assms by (auto simp: name_start_def name_char_def is_space_def)

lemma name_okE:
  assumes "name_ok n"
  obtains c s where "n = c # s" and "name_start c" and "list_all name_char n"
  using assms by (cases n) (auto dest: name_start_facts)

lemma take_name:
  assumes "name_ok n" and "\<not> name_char c"
  shows "takeWhile name_char (n @ c # r) = n" and "dropWhile name_char (n @ c # r) = c # r"
proof -
  have "list_all name_char n" using assms(1) by (rule name_okE)
  then show "takeWhile name_char (n @ c # r) = n" "dropWhile name_char (n @ c # r) = c # r"
    using assms(2) by (induction n) auto
qed

lemma not_name_char [simp]:
  "\<not> name_char CHR ''=''" "\<not> name_char CHR '' ''" "\<not> name_char CHR ''>''" "\<not> name_char CHR ''/''" "\<not> name_char CHR ''<''"
  by (simp_all add: name_char_def name_start_def)

definition write_attr :: "string \<times> string \<Rightarrow> string" where
  "write_attr a = CHR '' '' # fst a @ CHR ''='' # quote # snd a @ [quote]"

definition write_attrs :: "(string \<times> string) list \<Rightarrow> string" where
  "write_attrs al = concat (map write_attr al)"

definition attrs_ok :: "(string \<times> string) list \<Rightarrow> bool" where
  "attrs_ok al \<longleftrightarrow> distinct (map fst al) \<and> (\<forall>a \<in> set al. name_ok (fst a) \<and> value_ok (snd a))"

lemma read_attr_write:
  assumes "name_ok n" and "value_ok v"
  shows "read_attr (n @ CHR ''='' # quote # v @ quote # r) = Some ((n, v), r)"
proof -
  have "quote \<notin> set v" using assms(2) by (auto simp: value_ok_def)
  then show ?thesis
    using take_name [OF assms(1), of "CHR ''=''"] assms until [of quote v r]
    by (simp add: read_attr_def xml_value_plain)
qed

lemma read_attrs_Cons:
  assumes "name_ok (fst a)" and "value_ok (snd a)" and "read_attrs r = Some (al, e, rest)" and "fst a \<notin> fst ` set al"
  shows "read_attrs (write_attr a @ r) = Some (a # al, e, rest)"
proof -
  obtain c s where c: "fst a = c # s" "name_start c" using assms(1) by (rule name_okE)
  let ?s = "fst a @ CHR ''='' # quote # snd a @ quote # r"
  have "dropWhile is_space (write_attr a @ r) = ?s"
    using name_start_facts [OF c(2)] by (simp add: write_attr_def c(1) is_space_def)
  moreover have "\<not> prefix ''/>'' ?s" "\<not> prefix ''>'' ?s" using name_start_facts [OF c(2)] by (auto simp: c(1))
  ultimately show ?thesis
    using read_attr_write [OF assms(1,2), of r] assms(3,4)
    by (subst read_attrs.simps) (simp add: write_attr_def Let_def)
qed

definition tag_end :: "bool \<Rightarrow> string" where
  "tag_end e = (if e then ''/>'' else ''>'')"

lemma read_attrs_write:
  "attrs_ok al \<Longrightarrow> read_attrs (write_attrs al @ tag_end e @ r) = Some (al, e, r)"
proof (induction al)
  case Nil
  then show ?case by (subst read_attrs.simps) (simp add: write_attrs_def tag_end_def is_space_def)
next
  case (Cons a al)
  then show ?case using read_attrs_Cons [of a "write_attrs al @ tag_end e @ r" al e r]
    by (simp add: attrs_ok_def write_attrs_def)
qed

lemma lexes_tag:
  assumes "name_ok n" and "attrs_ok al"
  shows "lexes (CHR ''<'' # n @ write_attrs al @ tag_end e) (Open n al # (if e then [Close n] else []))"
proof (rule lexesI)
  fix r
  obtain c s where c: "n = c # s" "name_start c" using assms(1) by (rule name_okE)
  obtain d t where d: "write_attrs al @ tag_end e @ r = d # t" "\<not> name_char d"
    by (cases al; cases e) (simp_all add: write_attrs_def write_attr_def tag_end_def)
  have "takeWhile name_char (n @ write_attrs al @ tag_end e @ r) = n"
    "dropWhile name_char (n @ write_attrs al @ tag_end e @ r) = write_attrs al @ tag_end e @ r"
    using take_name [OF assms(1) d(2)] by (simp_all only: d(1))
  then show "read_token ((CHR ''<'' # n @ write_attrs al @ tag_end e) @ r) =
      Some (Open n al # (if e then [Close n] else []), r)"
    using read_attrs_write [OF assms(2), of e r] name_start_facts [OF c(2)] assms(1) c
    by (auto simp: read_token_def Let_def)
qed simp

lemma lexes_close: "name_ok n \<Longrightarrow> lexes (''</'' @ n @ ''>'') [Close n]"
  by (rule lexesI) (simp_all add: read_token_def take_name is_space_def)

text \<open>An element of data only, and character data of spaces.\<close>

lemma lexes_element:
  assumes n: "name_ok n" and al: "attrs_ok al" and d: "xml_data s = Some d"
  shows "lexes (CHR ''<'' # n @ write_attrs al @ ''>'' @ s @ ''</'' @ n @ ''>'')
    (tokens (Elem n al (if s = [] then [] else [Chars d])))"
proof -
  have open_tag: "lexes (CHR ''<'' # n @ write_attrs al @ ''>'') [Open n al]"
    using lexes_tag [OF n al, of False] by (simp add: tag_end_def)
  show ?thesis
  proof (cases "s = []")
    case True
    then show ?thesis using lexes_append [OF open_tag lexes_close [OF n]] by simp
  next
    case False
    then show ?thesis
      using lexes_append [OF open_tag lexes_data [OF d False, of "CHR ''/'' # n @ ''>''"]] lexes_close [OF n]
      by simp
  qed
qed

lemma is_space_facts: "is_space c \<Longrightarrow> c \<noteq> CHR ''<'' \<and> c \<noteq> CHR ''&'' \<and> c \<noteq> CHR ''>''"
  by (auto simp: is_space_def)

lemma xml_data_spaces:
  assumes "list_all is_space s"
  shows "xml_data s = Some s"
proof -
  have "xml_unescape s = Some s" using assms by (induction s) (simp_all add: is_space_facts)
  moreover have "CHR ''>'' \<notin> set s" using assms is_space_facts by (auto simp: list_all_iff)
  then have "\<not> sublist '']]>'' s" by (auto simp: sublist_def)
  ultimately show ?thesis using assms by (simp add: xml_data_def list_all_iff)
qed

section \<open>Tags that never close\<close>

text \<open>Behind a \<^verbatim>\<open><\<close>, text without quotes and angle brackets up to the next \<^verbatim>\<open><\<close> is no tag.\<close>

lemma dropWhile_until:
  assumes "\<not> P c"
  shows "\<exists>y. dropWhile P (x @ c # r) = y @ c # r \<and> set y \<subseteq> set x"
  using assms by (induction x) auto

lemma read_attrs_fails:
  assumes "quote \<notin> set x" and "CHR ''>'' \<notin> set x"
  shows "read_attrs (x @ CHR ''<'' # r) = None"
proof -
  obtain y where y: "dropWhile is_space (x @ CHR ''<'' # r) = y @ CHR ''<'' # r" "set y \<subseteq> set x"
    using dropWhile_until [of is_space "CHR ''<''" x r] by (auto simp: is_space_def)
  obtain z where z: "dropWhile name_char (y @ CHR ''<'' # r) = z @ CHR ''<'' # r" "set z \<subseteq> set y"
    using dropWhile_until [of name_char "CHR ''<''" y r] by auto
  have "quote \<notin> set z" using assms(1) y(2) z(2) by blast
  then have "\<not> prefix [CHR ''='', quote] (z @ CHR ''<'' # r)"
    by (cases z rule: remdups_adj.cases) (auto simp: quote_def)
  then have a: "read_attr (y @ CHR ''<'' # r) = None" by (simp add: read_attr_def z(1))
  have "CHR ''>'' \<notin> set y" using assms(2) y(2) by blast
  then have "\<not> prefix ''>'' (y @ CHR ''<'' # r)" "\<not> prefix ''/>'' (y @ CHR ''<'' # r)"
    by (cases y rule: remdups_adj.cases; auto)+
  then show ?thesis using a by (subst read_attrs.simps) (simp add: y(1))
qed

lemma lex_fails:
  assumes "quote \<notin> set x" and "CHR ''>'' \<notin> set x" and "take 1 x \<noteq> ''?''"
  shows "lex_xml (CHR ''<'' # x @ CHR ''<'' # r) = None"
proof -
  have no_pi: "\<not> prefix ''?'' (x @ CHR ''<'' # r)" using assms(3) by (cases x) auto
  have no_close: "\<not> prefix ''>'' (dropWhile is_space (dropWhile name_char (y @ CHR ''<'' # r)))"
    if "set y \<subseteq> set x" for y
  proof -
    obtain y' where y': "dropWhile name_char (y @ CHR ''<'' # r) = y' @ CHR ''<'' # r" "set y' \<subseteq> set y"
      using dropWhile_until [of name_char "CHR ''<''" y r] by auto
    obtain z where z: "dropWhile is_space (y' @ CHR ''<'' # r) = z @ CHR ''<'' # r" "set z \<subseteq> set y'"
      using dropWhile_until [of is_space "CHR ''<''" y' r] by (auto simp: is_space_def)
    have "CHR ''>'' \<notin> set z" using assms(2) that y'(2) z(2) by blast
    then show ?thesis unfolding y'(1) z(1) by (cases z) auto
  qed
  obtain y where y: "dropWhile name_char (x @ CHR ''<'' # r) = y @ CHR ''<'' # r" "set y \<subseteq> set x"
    using dropWhile_until [of name_char "CHR ''<''" x r] by auto
  have "read_attrs (y @ CHR ''<'' # r) = None" by (rule read_attrs_fails) (use assms y(2) in blast)+
  moreover have "\<not> prefix ''>'' (dropWhile is_space (dropWhile name_char (drop 2 (CHR ''<'' # x @ CHR ''<'' # r))))"
    if "prefix ''/'' (x @ CHR ''<'' # r)"
    using that no_close [of "tl x"] by (cases x) auto
  ultimately have "read_token (CHR ''<'' # x @ CHR ''<'' # r) = None"
    using no_pi by (auto simp: read_token_def Let_def y(1))
  then show ?thesis by (subst lex_xml.simps) simp
qed

text \<open>Data that is not well-formed, and an instruction that never ends.\<close>

lemma lex_bad_data:
  assumes "xml_data s = None" and "CHR ''<'' \<notin> set s" and "s \<noteq> []"
  shows "lex_xml (s @ CHR ''<'' # r) = None"
proof -
  obtain c cs where s: "s = c # cs" "c \<noteq> CHR ''<''" using assms(2,3) by (cases s) auto
  have "read_token (s @ CHR ''<'' # r) = None"
    using until [OF assms(2), of r] assms(1) s by (simp add: read_token_def)
  then show ?thesis using assms(3) by (subst lex_xml.simps) simp
qed

text \<open>\<open>no_end p s\<close>: behind the character \<open>p\<close> there is no \<^verbatim>\<open>?>\<close> in \<open>s\<close>.\<close>

fun no_end :: "char \<Rightarrow> string \<Rightarrow> bool" where
  "no_end p [] \<longleftrightarrow> True"
| "no_end p (c # s) \<longleftrightarrow> \<not> (p = CHR ''?'' \<and> c = CHR ''>'') \<and> no_end c s"

lemma no_end_append: "no_end p (s @ t) \<longleftrightarrow> no_end p s \<and> no_end (last (p # s)) t"
  by (induction s arbitrary: p) auto

lemma no_end_tame: "CHR ''>'' \<notin> set s \<Longrightarrow> no_end p s"
  by (induction s arbitrary: p) auto

lemma skip_never: "no_end p s \<Longrightarrow> skip_instruction s = None"
proof (induction s arbitrary: p)
  case (Cons c s)
  then have "\<not> prefix ''?>'' (c # s)" by (cases s) auto
  then show ?case using Cons by auto
qed simp

lemma lex_endless: "no_end p s \<Longrightarrow> lex_xml (CHR ''<'' # CHR ''?'' # s) = None"
  by (subst lex_xml.simps) (simp add: read_token_def skip_never)

end
