(* ===== verification/Svg_Read.thy ===== *)
theory Svg_Read
  imports Svg_Text Xml_Reader
begin

text \<open>
  A rendered document is read back as the tree of its objects: each element with its attributes in
  order, and each text with its data before escaping. \<open>readable\<close> says when: the strings put into
  attributes as they are need to be plain, and the text must survive \<^verbatim>\<open>SetData\<close>.
\<close>

declare name_ok.simps [simp del]

section \<open>The attributes of an object\<close>

definition paint_attrs :: "'a path_props_scheme \<Rightarrow> (string \<times> string) list" where
  "paint_attrs p =
     (if fill_color p \<noteq> Mono then [(''fill'', color_str (fill_color p))] else []) @
     (if stroke_color p \<noteq> Mono then [(''stroke'', color_str (stroke_color p))] else []) @
     (case stroke_width p of Some w \<Rightarrow> [(''stroke-width'', double_str w)] | None \<Rightarrow> []) @
     (case stroke_cap p of Some c \<Rightarrow> [(''stroke-linecap'', cap_str c)] | None \<Rightarrow> []) @
     (case stroke_join p of Some j \<Rightarrow> [(''stroke-linejoin'', join_str j)] | None \<Rightarrow> [])"

definition circle_attrs :: "circle \<Rightarrow> (string \<times> string) list" where
  "circle_attrs c =
     [(''cx'', double_str (p_x (center c))), (''cy'', double_str (p_y (center c))), (''r'', double_str (radius c))] @
     paint_attrs c"

definition polyline_attrs :: "polyline \<Rightarrow> (string \<times> string) list" where
  "polyline_attrs l = (''points'', render_points (points l)) # paint_attrs l"

definition text_attrs :: "text_obj \<Rightarrow> (string \<times> string) list" where
  "text_attrs t = paint_attrs t @
     [(''x'', double_str (p_x (t_pos t))), (''y'', double_str (p_y (t_pos t))),
      (''dx'', double_str (p_x (t_offset t))), (''dy'', double_str (p_y (t_offset t))),
      (''font-size'', dec (unat (t_size t)))] @
     (if font_family t = [] then [] else [(''font-family'', font_family t)]) @
     (if font_weight t = [] then [] else [(''font-weight'', font_weight t)])"

lemma write_attrs_simps [simp]:
  "write_attrs [] = []" "write_attrs (a # al) = attr (fst a) (snd a) @ write_attrs al"
  "write_attrs (al @ bl) = write_attrs al @ write_attrs bl"
  by (simp_all add: write_attrs_def write_attr_def attr_def quote_def)

lemma write_paint_attrs: "write_attrs (paint_attrs p) = render_attrs p"
  by (simp add: paint_attrs_def render_attrs_def split: option.split)

section \<open>Plain values\<close>

lemma value_ok_subset: "value_ok w \<Longrightarrow> set v \<subseteq> set w \<Longrightarrow> value_ok v"
  by (auto simp: value_ok_def)

text \<open>Printed numbers consist of few characters.\<close>

definition number_char :: "char \<Rightarrow> bool" where
  "number_char c \<longleftrightarrow> isdigit c \<or> c \<in> set ''+-.einaf, ''"

definition numeric :: "string \<Rightarrow> bool" where
  "numeric s \<longleftrightarrow> (\<forall>c \<in> set s. number_char c)"

lemma number_char_literals [simp]:
  "number_char CHR ''+''" "number_char CHR ''-''" "number_char CHR ''.''" "number_char CHR ''e''" "number_char CHR ''i''"
  "number_char CHR ''n''" "number_char CHR ''a''" "number_char CHR ''f''" "number_char CHR '',''" "number_char CHR '' ''"
  "number_char CHR ''0''"
  by (simp_all add: number_char_def isdigit_def)

lemma number_char_plain:
  "number_char c \<Longrightarrow> printable c \<and> c \<noteq> quote \<and> c \<noteq> CHR ''&'' \<and> c \<noteq> CHR ''<'' \<and> c \<noteq> CHR ''>''"
  by (auto simp: number_char_def isdigit_def printable_def quote_def)

lemma numeric_simps [simp]:
  "numeric []" "numeric (c # s) \<longleftrightarrow> number_char c \<and> numeric s" "numeric (s @ t) \<longleftrightarrow> numeric s \<and> numeric t"
  by (auto simp: numeric_def)

lemma numeric_subset: "numeric w \<Longrightarrow> set v \<subseteq> set w \<Longrightarrow> numeric v"
  by (auto simp: numeric_def)

lemma numeric_dec [simp]: "numeric (dec n)"
  using dec_digits by (auto simp: numeric_def number_char_def)

lemma numeric_with_fraction [simp]: "numeric w \<Longrightarrow> numeric f \<Longrightarrow> numeric (with_fraction w f)"
proof -
  assume "numeric w" "numeric f"
  moreover have "numeric (strip_zeros f)"
    using \<open>numeric f\<close> by (rule numeric_subset) (auto simp: strip_zeros_def dest: set_dropWhileD)
  ultimately show ?thesis by (simp add: with_fraction_def Let_def)
qed

lemma numeric_take_drop [simp]: "numeric v \<Longrightarrow> numeric (take n v)" "numeric v \<Longrightarrow> numeric (drop n v)"
  by (erule numeric_subset, rule set_take_subset, erule numeric_subset, rule set_drop_subset)

lemma numeric_zeros [simp]: "numeric (replicate n CHR ''0'')"
  by (auto simp: numeric_def)

lemma numeric_general [simp]: "numeric (general_str p)"
  by (cases p) (simp add: general_str_def exponent_str_def Let_def)

lemma numeric_double [simp]: "numeric (double_str d)"
  unfolding double_str_def Let_def by simp

lemma numeric_point [simp]: "numeric (point_str p)"
  by (simp add: point_str_def)

lemma numeric_points [simp]: "numeric (render_points ps)"
proof (cases ps)
  case (Cons p qs)
  have "numeric (concat (map (\<lambda>q. '' '' @ point_str q) qs))" by (induction qs) simp_all
  then show ?thesis by (simp add: Cons)
qed simp

lemma numeric_ok: "numeric s \<Longrightarrow> value_ok s \<and> CHR ''>'' \<notin> set s"
  using number_char_plain by (auto simp: numeric_def value_ok_def)

lemma numeric_values [simp]:
  "value_ok (dec n)" "value_ok (double_str d)" "value_ok (render_points ps)"
  by (simp_all add: numeric_ok)

lemma value_ok_styles [simp]: "value_ok (cap_str c)" "value_ok (join_str j)"
proof -
  show "value_ok (cap_str c)" by (cases c) (simp_all add: printable_def quote_def)
  show "value_ok (join_str j)" by (cases j) (simp_all add: printable_def quote_def)
qed

text \<open>Only a color given by its name is written as it is.\<close>

fun color_ok :: "color \<Rightarrow> bool" where
  "color_ok (Color_name s) \<longleftrightarrow> value_ok s"
| "color_ok _ \<longleftrightarrow> True"

lemma value_ok_color [simp]: "color_ok c \<Longrightarrow> value_ok (color_str c)"
  by (cases c) (simp_all add: rgb_str_def rgba_str_def byte_str_def printable_def quote_def)

section \<open>Well-formed attributes\<close>

definition paint_ok :: "'a path_props_scheme \<Rightarrow> bool" where
  "paint_ok p \<longleftrightarrow> color_ok (fill_color p) \<and> color_ok (stroke_color p)"

definition paint_names :: "string set" where
  "paint_names = {''fill'', ''stroke'', ''stroke-width'', ''stroke-linecap'', ''stroke-linejoin''}"

lemma attrs_ok_simps [simp]:
  "attrs_ok []" "attrs_ok (a # al) \<longleftrightarrow> name_ok (fst a) \<and> value_ok (snd a) \<and> fst a \<notin> fst ` set al \<and> attrs_ok al"
  "attrs_ok (al @ bl) \<longleftrightarrow> attrs_ok al \<and> attrs_ok bl \<and> fst ` set al \<inter> fst ` set bl = {}"
  by (auto simp: attrs_ok_def)

lemma svg_names_ok [simp]:
  "name_ok ''fill''" "name_ok ''stroke''" "name_ok ''stroke-width''" "name_ok ''stroke-linecap''"
  "name_ok ''stroke-linejoin''" "name_ok ''cx''" "name_ok ''cy''" "name_ok ''r''" "name_ok ''points''"
  "name_ok ''x''" "name_ok ''y''" "name_ok ''dx''" "name_ok ''dy''" "name_ok ''font-size''" "name_ok ''font-family''"
  "name_ok ''font-weight''" "name_ok ''svg''" "name_ok ''xmlns''" "name_ok ''version''" "name_ok ''circle''"
  "name_ok ''polyline''" "name_ok ''text''"
  by code_simp+

lemma paint_attrs_names: "fst ` set (paint_attrs p) \<subseteq> paint_names"
  by (auto simp: paint_attrs_def paint_names_def split: option.split)

lemma paint_attrs_ok: "paint_ok p \<Longrightarrow> attrs_ok (paint_attrs p)"
  by (auto simp: paint_attrs_def paint_ok_def split: option.split)

lemma circle_attrs_ok: "paint_ok c \<Longrightarrow> attrs_ok (circle_attrs c)"
  using paint_attrs_ok [of c] paint_attrs_names [of c] by (auto simp: circle_attrs_def paint_names_def)

lemma polyline_attrs_ok: "paint_ok l \<Longrightarrow> attrs_ok (polyline_attrs l)"
  using paint_attrs_ok [of l] paint_attrs_names [of l] by (auto simp: polyline_attrs_def paint_names_def)

lemma text_attrs_ok:
  "paint_ok t \<Longrightarrow> value_ok (font_family t) \<Longrightarrow> value_ok (font_weight t) \<Longrightarrow> attrs_ok (text_attrs t)"
  using paint_attrs_ok [of t] paint_attrs_names [of t] by (auto simp: text_attrs_def paint_names_def)

section \<open>The tree of a document\<close>

fun readable :: "svg_object \<Rightarrow> bool" where
  "readable (Circle c) \<longleftrightarrow> paint_ok c"
| "readable (Polyline l) \<longleftrightarrow> paint_ok l"
| "readable (Text t) \<longleftrightarrow> paint_ok t \<and> value_ok (font_family t) \<and> value_ok (font_weight t) \<and>
     xml_data (t_data t) \<noteq> None"

fun object_tree :: "svg_object \<Rightarrow> xml" where
  "object_tree (Circle c) = Elem ''circle'' (circle_attrs c) []"
| "object_tree (Polyline l) = Elem ''polyline'' (polyline_attrs l) []"
| "object_tree (Text t) = Elem ''text'' (text_attrs t)
     (if t_data t = [] then [] else [Chars (the (xml_data (t_data t)))])"

definition svg_attrs :: "(string \<times> string) list" where
  "svg_attrs = [(''xmlns'', ''http://www.w3.org/2000/svg''), (''version'', ''1.1'')]"

text \<open>Each object stands on a line of its own, indented by two spaces.\<close>

definition document_tree :: "svg_document \<Rightarrow> xml" where
  "document_tree d = Elem ''svg'' svg_attrs
     (concat (map (\<lambda>obj. [Chars (newline @ ''  ''), object_tree obj]) d) @ [Chars newline])"

lemma render_circle_tag: "render_circle c = CHR ''<'' # ''circle'' @ write_attrs (circle_attrs c) @ tag_end True"
  by (simp add: render_circle_def circle_attrs_def write_paint_attrs tag_end_def)

lemma render_polyline_tag:
  "render_polyline l = CHR ''<'' # ''polyline'' @ write_attrs (polyline_attrs l) @ tag_end True"
  by (simp add: render_polyline_def polyline_attrs_def write_paint_attrs tag_end_def)

lemma render_text_tag:
  "render_text t = CHR ''<'' # ''text'' @ write_attrs (text_attrs t) @ ''>'' @ t_data t @ ''</'' @ ''text'' @ ''>''"
  by (simp add: render_text_def text_attrs_def write_paint_attrs)

lemma render_object_lexes:
  assumes "readable obj"
  shows "lexes (render_object obj) (tokens (object_tree obj))"
proof (cases obj)
  case (Circle c)
  then show ?thesis using lexes_tag [of "''circle''" "circle_attrs c" True] circle_attrs_ok assms
    by (simp add: render_circle_tag)
next
  case (Polyline l)
  then show ?thesis using lexes_tag [of "''polyline''" "polyline_attrs l" True] polyline_attrs_ok assms
    by (simp add: render_polyline_tag)
next
  case (Text t)
  then obtain d where "xml_data (t_data t) = Some d" using assms by auto
  then show ?thesis using lexes_element [of "''text''" "text_attrs t" "t_data t" d] text_attrs_ok assms Text
    by (cases "t_data t = []") (simp_all add: render_text_tag)
qed

lemma render_object_Cons: "\<exists>s. render_object obj = CHR ''<'' # s"
  by (cases obj) (simp_all add: render_circle_def render_polyline_def render_text_def)

text \<open>An object with the line break and the indent before it.\<close>

lemma indented_lexes:
  assumes "lexes (render_object obj) (tokens t)"
  shows "lexes (newline @ ''  '' @ render_object obj) (Data (newline @ ''  '') # tokens t)"
proof -
  obtain s where s: "render_object obj = CHR ''<'' # s" using render_object_Cons by blast
  have "xml_data (newline @ ''  '') = Some (newline @ ''  '')"
    by (rule xml_data_spaces) (simp add: newline_def is_space_def)
  then show ?thesis
    using lexes_data [of "newline @ ''  ''" "newline @ ''  ''" s] assms s
    by (simp add: newline_def)
qed

lemma lines_shift:
  "newline @ concat (map (svg_render \<lparr>rc_indent_step = 2, rc_indent = 2\<rparr>) d) =
    concat (map (\<lambda>obj. newline @ ''  '' @ render_object obj) d) @ newline"
  by (induction d) (simp_all add: svg_render_def render_indent_def numeral_2_eq_2)

lemma declaration_lexes: "lexes (''<?xml'' @ attr ''version'' ''1.0'' @ attr ''encoding'' ''UTF-8'' @ '' ?>'') []"
  by (rule lexesI) (simp_all add: read_token_def attr_def)

lemma xml_data_newline: "xml_data newline = Some newline" "newline \<noteq> []"
  by (rule xml_data_spaces) (simp_all add: newline_def is_space_def)

text \<open>The document up to its first object.\<close>

definition document_head :: string where
  "document_head = ''<?xml'' @ attr ''version'' ''1.0'' @ attr ''encoding'' ''UTF-8'' @ '' ?>'' @ newline @
     CHR ''<'' # ''svg'' @ write_attrs svg_attrs @ ''>''"

lemma head_lexes: "lexes document_head [Data newline, Open ''svg'' svg_attrs]"
proof -
  have "attrs_ok svg_attrs" by (simp add: svg_attrs_def printable_def quote_def)
  from lexes_append [OF declaration_lexes lexes_data [OF xml_data_newline lexes_tag [OF svg_names_ok(17) this, of False]]]
  show ?thesis by (simp add: document_head_def tag_end_def)
qed

lemma document_text:
  "render_document d = document_head @ concat (map (\<lambda>obj. newline @ ''  '' @ render_object obj) d) @ newline @ ''</svg>''"
  using lines_shift [of d]
  by (simp add: render_document_def svg_header_def document_head_def svg_attrs_def Let_def)

lemma lines_lexes:
  "(\<And>obj. obj \<in> set d \<Longrightarrow> lexes (render_object obj) (tokens (f obj))) \<Longrightarrow>
    lexes (concat (map (\<lambda>obj. newline @ ''  '' @ render_object obj) d))
      (concat (map (\<lambda>obj. Data (newline @ ''  '') # tokens (f obj)) d))"
  by (rule lexes_concat) (rule indented_lexes)

theorem read_document_as:
  assumes "\<And>obj. obj \<in> set d \<Longrightarrow> lexes (render_object obj) (tokens (f obj))"
  shows "read_xml (render_document d) = Some (Elem ''svg'' svg_attrs
    (concat (map (\<lambda>obj. [Chars (newline @ ''  ''), f obj]) d) @ [Chars newline]))" (is "_ = Some ?root")
proof -
  let ?items = "concat (map (\<lambda>obj. Data (newline @ ''  '') # tokens (f obj)) d)"
  have close: "lexes (newline @ ''</svg>'') [Data newline, Close ''svg'']"
    using lexes_data [OF xml_data_newline, of "''/svg>''"] lexes_close [OF svg_names_ok(17)] by simp
  have "lex_xml (render_document d) = Some ([Data newline, Open ''svg'' svg_attrs] @ ?items @ [Data newline, Close ''svg''])"
    unfolding document_text
    by (rule lexes_lex [OF lexes_append [OF head_lexes lexes_append [OF lines_lexes [of d f, OF assms] close]]])
  moreover have "[Data newline, Open ''svg'' svg_attrs] @ ?items @ [Data newline, Close ''svg''] =
      concat (map tokens [Chars newline, ?root])"
    by simp (induction d, simp_all)
  moreover have "list_all is_space newline" by (simp add: newline_def is_space_def)
  ultimately show ?thesis
    using build_all [of "[]" "[]" "[Chars newline, ?root]"] by (simp add: read_xml_def root_of_def)
qed

lemma read_document: "\<forall>obj \<in> set d. readable obj \<Longrightarrow> read_xml (render_document d) = Some (document_tree d)"
  unfolding document_tree_def by (rule read_document_as) (simp add: render_object_lexes)

text \<open>A color given by its name may carry another attribute along.\<close>

lemma write_attr_injected:
  "write_attrs [(a, v @ quote # '' '' @ n @ ''='' @ quote # w)] = write_attrs [(a, v), (n, w)]"
  by (simp add: attr_def quote_def)

theorem injected_attribute:
  assumes "value_ok v" and "value_ok w" and "name_ok n" and "n \<notin> {''cx'', ''cy'', ''r'', ''fill''}"
    and c: "c = set_fill_color (Color_name (v @ quote # '' '' @ n @ ''='' @ quote # w)) circle_new"
  shows "read_xml (render_document [Circle c]) = Some (Elem ''svg'' svg_attrs [Chars (newline @ ''  ''),
    Elem ''circle'' [(''cx'', double_str 0), (''cy'', double_str 0), (''r'', double_str 1), (''fill'', v), (n, w)] [], Chars newline])"
proof -
  let ?al = "[(''cx'', double_str 0), (''cy'', double_str 0), (''r'', double_str 1), (''fill'', v), (n, w)]"
  have "circle_attrs c = [(''cx'', double_str 0), (''cy'', double_str 0), (''r'', double_str 1)] @
      [(''fill'', v @ quote # '' '' @ n @ ''='' @ quote # w)]"
    by (simp add: c circle_attrs_def paint_attrs_def set_fill_color_def circle_new_def props_default_def
        path_props.extend_def point_default_def)
  then have "write_attrs (circle_attrs c) = write_attrs ?al"
    using write_attr_injected [of "''fill''" v n w] by simp
  then have "render_object (Circle c) = CHR ''<'' # ''circle'' @ write_attrs ?al @ tag_end True"
    by (simp add: render_circle_tag)
  moreover have "attrs_ok ?al" using assms(1-4) by (auto simp: printable_def quote_def)
  ultimately have "lexes (render_object (Circle c)) (tokens (Elem ''circle'' ?al []))"
    using lexes_tag [of "''circle''" ?al True] by simp
  then show ?thesis using read_document_as [of "[Circle c]" "\<lambda>_. Elem ''circle'' ?al []"] by simp
qed

section \<open>Documents that cannot be read\<close>

text \<open>Values without \<^verbatim>\<open>>\<close>, so that only tags end with one.\<close>

definition tame :: "string \<Rightarrow> bool" where
  "tame v \<longleftrightarrow> CHR ''>'' \<notin> set v"

lemma tame_simps [simp]: "tame []" "tame (c # s) \<longleftrightarrow> c \<noteq> CHR ''>'' \<and> tame s" "tame (s @ t) \<longleftrightarrow> tame s \<and> tame t"
  by (auto simp: tame_def)

lemma tame_numbers [simp]: "tame (dec n)" "tame (double_str d)" "tame (render_points ps)"
  by (simp_all add: tame_def numeric_ok)

fun tame_color :: "color \<Rightarrow> bool" where
  "tame_color (Color_name s) \<longleftrightarrow> tame s"
| "tame_color _ \<longleftrightarrow> True"

lemma tame_values [simp]:
  "tame (cap_str c)" "tame (join_str j)" "tame_color col \<Longrightarrow> tame (color_str col)"
proof -
  show "tame (cap_str c)" by (cases c) simp_all
  show "tame (join_str j)" by (cases j) simp_all
  show "tame_color col \<Longrightarrow> tame (color_str col)"
    by (cases col) (simp_all add: rgb_str_def rgba_str_def byte_str_def)
qed

definition tame_paint :: "'a path_props_scheme \<Rightarrow> bool" where
  "tame_paint p \<longleftrightarrow> tame_color (fill_color p) \<and> tame_color (stroke_color p)"

lemma tame_paint_attrs [simp]: "tame_paint p \<Longrightarrow> tame (write_attrs (paint_attrs p))"
  by (simp add: paint_attrs_def tame_paint_def attr_def quote_def split: option.split)

lemma write_attrs_Nil: "write_attrs al = [] \<longleftrightarrow> al = []"
  by (cases al) (simp_all add: attr_def)

lemma last_write_attrs: "al \<noteq> [] \<Longrightarrow> last (write_attrs al) = quote"
  by (induction al rule: rev_induct) (simp_all add: attr_def quote_def)

text \<open>An object that ends no instruction opened before it.\<close>

definition quiet :: "svg_object \<Rightarrow> bool" where
  "quiet obj \<longleftrightarrow> (\<forall>p. no_end p (render_object obj))"

lemma quiet_shape: "tame_paint c \<Longrightarrow> quiet (Circle c)" "tame_paint l \<Longrightarrow> quiet (Polyline l)"
proof -
  have tag: "no_end p (s @ ''/>'')" if "tame s" for p s
    using that by (simp add: no_end_append no_end_tame tame_def)
  show "tame_paint c \<Longrightarrow> quiet (Circle c)"
    using tag [of "''<circle'' @ write_attrs (circle_attrs c)"]
    by (simp add: quiet_def render_circle_tag tag_end_def circle_attrs_def attr_def quote_def)
  show "tame_paint l \<Longrightarrow> quiet (Polyline l)"
    using tag [of "''<polyline'' @ write_attrs (polyline_attrs l)"]
    by (simp add: quiet_def render_polyline_tag tag_end_def polyline_attrs_def attr_def quote_def)
qed

lemma tame_text_attrs:
  "tame_paint t \<Longrightarrow> tame (font_family t) \<Longrightarrow> tame (font_weight t) \<Longrightarrow> tame (write_attrs (text_attrs t))"
  by (simp add: text_attrs_def attr_def quote_def)

lemma quiet_text:
  assumes "tame_paint t" and "tame (font_family t)" and "tame (font_weight t)" and "tame (drop 1 (t_data t))"
  shows "quiet (Text t)"
proof -
  let ?al = "text_attrs t"
  have "tame (''<text'' @ write_attrs ?al)" using tame_text_attrs [OF assms(1-3)] by simp
  then have head: "no_end p (''<text'' @ write_attrs ?al)" for p by (simp add: no_end_tame tame_def del: append_Cons)
  have "?al \<noteq> []" by (simp add: text_attrs_def)
  then have "write_attrs ?al \<noteq> []" "last (write_attrs ?al) = quote"
    by (simp_all only: write_attrs_Nil last_write_attrs not_False_eq_True)
  then have l: "last (p # ''<text'' @ write_attrs ?al) = quote" for p by simp
  have "no_end q (s @ ''</text>'')" if "tame s" for q s
    using that by (simp add: no_end_append no_end_tame tame_def)
  then have "no_end CHR ''>'' (t_data t @ ''</text>'')" using assms(4) by (cases "t_data t") auto
  then have tail: "no_end quote (CHR ''>'' # t_data t @ ''</text>'')" by (simp add: quote_def)
  have "no_end p ((''<text'' @ write_attrs ?al) @ CHR ''>'' # t_data t @ ''</text>'')" for p
    by (simp only: no_end_append [of p "''<text'' @ write_attrs ?al"] head l tail simp_thms)
  moreover have "render_object (Text t) = (''<text'' @ write_attrs ?al) @ CHR ''>'' # t_data t @ ''</text>''"
    by (simp add: render_text_tag)
  ultimately show ?thesis by (simp only: quiet_def simp_thms)
qed

text \<open>An object that cannot be read, where no instruction ends behind it.\<close>

definition spoils :: "svg_object \<Rightarrow> bool" where
  "spoils obj \<longleftrightarrow> (\<forall>r. no_end CHR ''>'' r \<longrightarrow> lex_xml (render_object obj @ r) = None)"

lemma quiet_lines:
  "\<forall>obj \<in> set d. quiet obj \<Longrightarrow>
    no_end p (concat (map (\<lambda>obj. newline @ ''  '' @ render_object obj) d) @ newline @ ''</svg>'')"
  by (induction d arbitrary: p) (auto simp: no_end_append quiet_def newline_def)

theorem spoiled_document:
  assumes "\<forall>obj \<in> set d. quiet obj \<and> (readable obj \<or> spoils obj)" and "\<exists>obj \<in> set d. spoils obj"
  shows "read_xml (render_document d) = None"
proof -
  obtain pre obj post where d: "d = pre @ obj # post" "spoils obj" "\<forall>x \<in> set pre. \<not> spoils x"
    using split_list_first_prop [OF assms(2)] by blast
  let ?line = "\<lambda>obj. newline @ ''  '' @ render_object obj"
  let ?rest = "concat (map ?line post) @ newline @ ''</svg>''"
  obtain s where s: "render_object obj = CHR ''<'' # s" using render_object_Cons by blast
  have sp: "xml_data (newline @ ''  '') = Some (newline @ ''  '')"
    by (rule xml_data_spaces) (simp add: newline_def is_space_def)
  have "no_end CHR ''>'' ?rest" by (rule quiet_lines) (use assms(1) d(1) in simp)
  then have "lex_xml (?line obj @ ?rest) = None"
    using lex_data [OF sp, of "s @ ?rest"] d(2) s by (simp add: spoils_def)
  moreover have "lexes (document_head @ concat (map ?line pre))
      ([Data newline, Open ''svg'' svg_attrs] @ concat (map (\<lambda>obj. Data (newline @ ''  '') # tokens (object_tree obj)) pre))"
    by (rule lexes_append [OF head_lexes lines_lexes]) (use assms(1) d render_object_lexes in auto)
  ultimately have "lex_xml ((document_head @ concat (map ?line pre)) @ ?line obj @ ?rest) = None"
    using lexes_fails by blast
  then have "lex_xml (render_document d) = None" by (simp add: document_text d(1))
  then show ?thesis by (simp add: read_xml_def)
qed

end
