(* ===== verification/Map_Read.thy ===== *)
theory Map_Read
  imports Svg_Read Map_Correct
begin

text \<open>
  The drawn map read back as XML: its lines, labels and circles in order, with the names of buses
  and stops as they are in the catalogue; and the names that spoil the document.
\<close>

section \<open>Names\<close>

definition name_plain :: "string \<Rightarrow> bool" where
  "name_plain s \<longleftrightarrow> list_all (\<lambda>c. printable c \<or> is_space c) s \<and> take 1 s \<noteq> ''&'' \<and> take 1 s \<noteq> ''<''"

lemma xml_unescape_escape: "xml_unescape (xml_escape c @ s) = map_option ((#) c) (xml_unescape s)"
  by (auto simp: xml_escape_def characters_to_replace_def entities_def)

lemma xml_unescape_escaped: "xml_unescape (concat (map xml_escape s)) = Some s"
  by (induction s) (simp_all add: xml_unescape_escape)

lemma xml_unescape_name: "take 1 s \<noteq> ''&'' \<Longrightarrow> take 1 s \<noteq> ''<'' \<Longrightarrow> xml_unescape (escaped_text s) = Some s"
  by (cases s) (simp_all add: escaped_text_def xml_unescape_escaped)

lemma xml_escape_printable: "printable c \<or> is_space c \<Longrightarrow> d \<in> set (xml_escape c) \<Longrightarrow> printable d \<or> is_space d"
  by (auto simp: xml_escape_def characters_to_replace_def printable_def split: if_splits)

lemma escaped_no_end: "\<not> sublist '']]>'' (escaped_text s)"
proof
  assume "sublist '']]>'' (escaped_text s)"
  then obtain u v where e: "escaped_text s = u @ '']]>'' @ v" by (auto simp: sublist_def)
  obtain c t where s: "s = c # t" using e by (cases s) (simp_all add: escaped_text_def)
  define w where "w = concat (map xml_escape t)"
  have "CHR ''>'' \<notin> set w" using xml_escape_safe by (fastforce simp: w_def)
  moreover have "c # w = u @ '']]>'' @ v" using e by (simp add: escaped_text_def s w_def)
  ultimately show False by (cases u) auto
qed

lemma xml_data_name: "name_plain s \<Longrightarrow> xml_data (escaped_text s) = Some s"
proof -
  assume s: "name_plain s"
  have "list_all (\<lambda>c. printable c \<or> is_space c) (escaped_text s)"
    using s xml_escape_printable unfolding name_plain_def list_all_iff
    by (cases s) (fastforce simp: escaped_text_def)+
  then show ?thesis using s escaped_no_end xml_unescape_name [of s] by (auto simp: xml_data_def name_plain_def)
qed

lemma escaped_Nil [simp]: "escaped_text s = [] \<longleftrightarrow> s = []"
  by (cases s) (simp_all add: escaped_text_def)

section \<open>Contents\<close>

text \<open>The elements below the root, each with its name and character data.\<close>

fun xml_text :: "xml \<Rightarrow> string" where
  "xml_text (Chars s) = s"
| "xml_text (Elem n al cs) = concat (map xml_text cs)"

fun element :: "xml \<Rightarrow> (string \<times> string) list" where
  "element (Chars s) = []"
| "element (Elem n al cs) = [(n, concat (map xml_text cs))]"

fun contents :: "xml \<Rightarrow> (string \<times> string) list" where
  "contents (Chars s) = []"
| "contents (Elem n al cs) = concat (map element cs)"

lemma contents_document: "contents (document_tree d) = concat (map (\<lambda>obj. element (object_tree obj)) d)"
  by (simp add: document_tree_def) (induction d, simp_all)

definition settings_ok :: "map_settings \<Rightarrow> bool" where
  "settings_ok ms \<longleftrightarrow> color_palette ms \<noteq> [] \<and> (\<forall>c \<in> set (color_palette ms). color_ok c) \<and> color_ok (underlayer_color ms)"

definition map_contents :: "catalogue \<Rightarrow> (string \<times> string) list" where
  "map_contents db =
     (let bs = sorted_list_of_set (drawn_buses db); ss = sorted_list_of_set (drawn_stops db)
      in map (\<lambda>n. (''polyline'', [])) bs @
         concat (map (\<lambda>n. replicate (2 * length (ends (bus_of db n))) (''text'', n)) bs) @
         map (\<lambda>n. (''circle'', [])) ss @
         concat (map (\<lambda>n. replicate 2 (''text'', n)) ss))"

lemmas setter_defs = set_font_weight_def set_font_family_def set_font_size_def set_offset_def set_position_def
  set_stroke_line_join_def set_stroke_line_cap_def set_stroke_width_def set_stroke_color_def set_fill_color_def
  place_label_def underlayer_def text_with_def text_new_def props_default_def path_props.extend_def

lemma line_color_ok: "settings_ok ms \<Longrightarrow> color_ok (line_color ms k)"
  by (auto simp: settings_ok_def line_color_def)

lemma literal_values: "value_ok ''Verdana''" "value_ok ''bold''" "value_ok ''black''" "value_ok ''white''" "value_ok ''none''"
  by (simp_all add: printable_def quote_def)

definition labelled :: "string \<Rightarrow> svg_object \<Rightarrow> bool" where
  "labelled n obj \<longleftrightarrow> (\<exists>t. obj = Text t \<and> paint_ok t \<and> value_ok (font_family t) \<and> value_ok (font_weight t) \<and>
     t_data t = escaped_text n)"

lemma bus_texts_labelled: "settings_ok ms \<Longrightarrow> list_all (labelled n) (bus_texts ms n k p)"
  using line_color_ok [of ms k] literal_values
  by (simp add: bus_texts_def labelled_def setter_defs paint_ok_def settings_ok_def
      del: value_ok_simps(2,3))

lemma bus_labels_labelled: "settings_ok ms \<Longrightarrow> list_all (labelled n) (bus_labels db ms sp (k, n))"
  using bus_texts_labelled [of ms n k] by (auto simp: bus_labels_def list_all_iff)

lemma bus_labels_length: "length (bus_labels db ms sp (k, n)) = 2 * length (ends (bus_of db n))"
proof -
  have "length (concat (map (\<lambda>i. bus_texts ms n k (q i)) es)) = 2 * length es" for q and es :: "nat list"
    by (induction es) (simp_all add: bus_texts_def)
  then show ?thesis by (simp add: bus_labels_def)
qed

lemma stop_texts_labelled: "settings_ok ms \<Longrightarrow> list_all (labelled n) (stop_texts db ms sp n)"
  using literal_values
  by (simp add: stop_texts_def labelled_def setter_defs paint_ok_def settings_ok_def del: value_ok_simps(2,3))

lemma way_object_read:
  assumes "settings_ok ms"
  shows "readable (way_object db ms sp (k, n)) \<and> element (object_tree (way_object db ms sp (k, n))) = [(''polyline'', [])]"
  using line_color_ok [OF assms, of k] literal_values
  by (simp add: way_object_def way_style_def setter_defs polyline_new_def none_color_def paint_ok_def del: value_ok_simps)

lemma stop_object_read:
  "readable (stop_object db ms sp n) \<and> element (object_tree (stop_object db ms sp n)) = [(''circle'', [])]"
  using literal_values
  by (simp add: stop_object_def render_stop_def setter_defs set_radius_def set_center_def circle_new_def paint_ok_def
      del: value_ok_simps)

text \<open>Layers are read one by one.\<close>

definition layer_reads :: "svg_document \<Rightarrow> (string \<times> string) list \<Rightarrow> bool" where
  "layer_reads d cs \<longleftrightarrow> (\<forall>obj \<in> set d. readable obj) \<and> concat (map (\<lambda>obj. element (object_tree obj)) d) = cs"

lemma layer_reads_append: "layer_reads d cs \<Longrightarrow> layer_reads d' cs' \<Longrightarrow> layer_reads (d @ d') (cs @ cs')"
  by (auto simp: layer_reads_def)

lemma layer_reads_concat:
  "list_all2 (\<lambda>x y. layer_reads (f x) (g y)) xs ys \<Longrightarrow> layer_reads (concat (map f xs)) (concat (map g ys))"
proof (induction rule: list_all2_induct)
  case Nil
  show ?case by (simp add: layer_reads_def)
next
  case (Cons x xs y ys)
  then show ?case by (simp add: layer_reads_append)
qed

lemma layer_reads_map:
  "list_all2 (\<lambda>x y. layer_reads [f x] [g y]) xs ys \<Longrightarrow> layer_reads (map f xs) (map g ys)"
  using layer_reads_concat [of "\<lambda>x. [f x]" "\<lambda>y. [g y]" xs ys] by (simp add: concat_singles)

lemma enumerate_rel: "(\<And>k n. n \<in> set ns \<Longrightarrow> P (k, n) n) \<Longrightarrow> list_all2 P (enumerate k ns) ns"
  by (induction ns arbitrary: k) simp_all

text \<open>A label with a plain name is read as that name.\<close>

lemma labels_read:
  assumes "name_plain n" and "list_all (labelled n) os"
  shows "layer_reads os (replicate (length os) (''text'', n))"
  using assms(2)
proof (induction os)
  case Nil
  show ?case by (simp add: layer_reads_def)
next
  case (Cons obj os)
  have "layer_reads [obj] [(''text'', n)]"
    using Cons.prems xml_data_name [OF assms(1)] by (auto simp: labelled_def layer_reads_def)
  then show ?case using Cons layer_reads_append [of "[obj]" "[(''text'', n)]" os] by simp
qed

theorem map_objects_read:
  assumes ms: "settings_ok ms" and ns: "\<forall>n \<in> drawn_buses db \<union> drawn_stops db. name_plain n"
  shows "read_xml (render_document (map_objects db ms sp)) = Some (document_tree (map_objects db ms sp)) \<and>
    contents (document_tree (map_objects db ms sp)) = map_contents db"
proof -
  let ?bs = "sorted_list_of_set (drawn_buses db)" and ?ss = "sorted_list_of_set (drawn_stops db)"
  have bs: "name_plain n" if "n \<in> set ?bs" for n using that ns finite_drawn by simp
  have ss: "name_plain n" if "n \<in> set ?ss" for n using that ns finite_drawn by simp
  have "layer_reads (map (way_object db ms sp) (enumerate 0 ?bs)) (map (\<lambda>n. (''polyline'', [])) ?bs)"
    by (intro layer_reads_map enumerate_rel) (use way_object_read [OF ms] in \<open>simp add: layer_reads_def\<close>)
  moreover have "layer_reads (concat (map (bus_labels db ms sp) (enumerate 0 ?bs)))
      (concat (map (\<lambda>n. replicate (2 * length (ends (bus_of db n))) (''text'', n)) ?bs))"
    by (intro layer_reads_concat enumerate_rel) (use labels_read [OF bs bus_labels_labelled [OF ms]] in \<open>simp add: bus_labels_length\<close>)
  moreover have "layer_reads (map (stop_object db ms sp) ?ss) (map (\<lambda>n. (''circle'', [])) ?ss)"
    by (intro layer_reads_map) (use stop_object_read in \<open>simp add: layer_reads_def list_all2_same\<close>)
  moreover have "layer_reads (concat (map (stop_texts db ms sp) ?ss)) (concat (map (\<lambda>n. replicate 2 (''text'', n)) ?ss))"
    by (intro layer_reads_concat) (use labels_read [OF ss stop_texts_labelled [OF ms]] in \<open>simp add: list_all2_same stop_texts_def numeral_2_eq_2\<close>)
  ultimately have "layer_reads (map_objects db ms sp) (map_contents db)"
    unfolding map_objects_def map_contents_def Let_def by (intro layer_reads_append)
  then show ?thesis using read_document [of "map_objects db ms sp"] by (simp add: layer_reads_def contents_document)
qed

section \<open>Names that spoil the map\<close>

text \<open>
  A name is stored with its first character as it is, so a leading \<^verbatim>\<open><\<close> opens a tag, or with a
  \<^verbatim>\<open>?\<close> next to it an instruction. Where no color contains a \<^verbatim>\<open>>\<close> (\<open>settings_plain\<close>), neither can end.
\<close>

definition settings_plain :: "map_settings \<Rightarrow> bool" where
  "settings_plain ms \<longleftrightarrow> settings_ok ms \<and> (\<forall>c \<in> set (color_palette ms). tame_color c) \<and> tame_color (underlayer_color ms)"

lemma label_text:
  assumes "labelled n obj"
  shows "xml_data (escaped_text n) \<noteq> None \<Longrightarrow> readable obj"
    and "lex_xml (escaped_text n @ CHR ''<'' # ''/text>'' @ r) = None \<Longrightarrow> lex_xml (render_object obj @ r) = None"
proof -
  obtain t where t: "obj = Text t" "paint_ok t" "value_ok (font_family t)" "value_ok (font_weight t)"
    "t_data t = escaped_text n" using assms by (auto simp: labelled_def)
  have "lexes (CHR ''<'' # ''text'' @ write_attrs (text_attrs t) @ ''>'') [Open ''text'' (text_attrs t)]"
    using lexes_tag [of "''text''" "text_attrs t" False] text_attrs_ok [OF t(2-4)] by (simp add: tag_end_def)
  from lexes_fails [OF this] show "lex_xml (render_object obj @ r) = None"
    if "lex_xml (escaped_text n @ CHR ''<'' # ''/text>'' @ r) = None"
    using that by (simp add: t(1,5) render_text_tag)
  show "readable obj" if "xml_data (escaped_text n) \<noteq> None" using that t by simp
qed

lemma label_spoils:
  assumes "take 1 n = ''<''" and "labelled n obj"
  shows "spoils obj"
  unfolding spoils_def
proof (intro allI impI)
  fix r assume r: "no_end CHR ''>'' r"
  obtain m where m: "n = CHR ''<'' # m" using assms(1) by (cases n) auto
  define w where "w = concat (map xml_escape m)"
  have n: "escaped_text n = CHR ''<'' # w" by (simp add: escaped_text_def m w_def)
  have w: "quote \<notin> set w" "CHR ''>'' \<notin> set w" using xml_escape_safe by (fastforce simp: w_def quote_def)+
  have "lex_xml (CHR ''<'' # w @ CHR ''<'' # ''/text>'' @ r) = None"
  proof (cases "take 1 w = ''?''")
    case False
    with w show ?thesis by (rule lex_fails)
  next
    case True
    then obtain v where v: "w = CHR ''?'' # v" by (cases w) auto
    then have "no_end CHR ''?'' (v @ ''</text>'')" using w(2) by (simp add: no_end_append no_end_tame)
    then have "no_end CHR ''?'' ((v @ ''</text>'') @ r)" using r by (simp add: no_end_append)
    from lex_endless [OF this] show ?thesis by (simp add: v)
  qed
  then show "lex_xml (render_object obj @ r) = None" using label_text(2) [OF assms(2)] n by simp
qed

text \<open>Any other name can be read, or spoils the map as well.\<close>

lemma label_readable_or_spoils:
  assumes "labelled n obj"
  shows "readable obj \<or> spoils obj"
proof (cases "take 1 n = ''<''")
  case True
  then show ?thesis using label_spoils assms by blast
next
  case False
  show ?thesis
  proof (cases "xml_data (escaped_text n)")
    case (Some d)
    then show ?thesis using label_text(1) [OF assms] by simp
  next
    case None
    have "CHR ''<'' \<notin> set (escaped_text n)"
      using False xml_escape_safe by (cases n) (fastforce simp: escaped_text_def)+
    moreover have "escaped_text n \<noteq> []" using None xml_data_spaces [of "[]"] by (auto simp: escaped_text_def)
    ultimately have "lex_xml (escaped_text n @ CHR ''<'' # ''/text>'' @ r) = None" for r
      by (rule lex_bad_data [OF None])
    then show ?thesis using label_text(2) [OF assms] by (simp add: spoils_def)
  qed
qed

lemma tame_literals: "tame ''Verdana''" "tame ''bold''" "tame ''black''" "tame ''white''" "tame ''none''"
  by simp_all

lemma tame_escaped: "tame (drop 1 (escaped_text n))"
  using xml_escape_safe by (cases n) (fastforce simp: escaped_text_def tame_def)+

lemma line_color_tame: "settings_plain ms \<Longrightarrow> tame_color (line_color ms k)"
  by (auto simp: settings_plain_def settings_ok_def line_color_def)

lemma bus_texts_quiet: "settings_plain ms \<Longrightarrow> \<forall>obj \<in> set (bus_texts ms n k p). quiet obj"
  using line_color_tame [of ms k] tame_escaped [of n] tame_literals
  by (auto simp: bus_texts_def setter_defs tame_paint_def settings_plain_def simp del: tame_simps(2,3) intro!: quiet_text)

lemma stop_texts_quiet: "settings_plain ms \<Longrightarrow> \<forall>obj \<in> set (stop_texts db ms sp n). quiet obj"
  using tame_escaped [of n] tame_literals
  by (auto simp: stop_texts_def setter_defs tame_paint_def settings_plain_def simp del: tame_simps(2,3) intro!: quiet_text)

lemma way_object_quiet: "settings_plain ms \<Longrightarrow> quiet (way_object db ms sp (k, n))"
  using line_color_tame [of ms k] tame_literals
  by (auto simp: way_object_def way_style_def setter_defs polyline_new_def none_color_def tame_paint_def
      simp del: tame_simps(2,3) intro!: quiet_shape)

lemma stop_object_quiet: "quiet (stop_object db ms sp n)"
  using tame_literals
  by (auto simp: stop_object_def render_stop_def setter_defs set_radius_def set_center_def circle_new_def tame_paint_def
      simp del: tame_simps(2,3) intro!: quiet_shape)

theorem map_objects_spoiled:
  assumes ms: "settings_plain ms" and n: "n \<in> drawn_buses db \<union> drawn_stops db" "take 1 n = ''<''"
  shows "read_xml (render_document (map_objects db ms sp)) = None"
proof (rule spoiled_document)
  let ?bs = "sorted_list_of_set (drawn_buses db)" and ?ss = "sorted_list_of_set (drawn_stops db)"
  have ok: "settings_ok ms" using ms by (simp add: settings_plain_def)
  have bus: "quiet obj \<and> (readable obj \<or> spoils obj)" if "obj \<in> set (bus_labels db ms sp (k, m))" for obj k m
  proof -
    have "labelled m obj" using that bus_labels_labelled [OF ok, of m db sp k] by (simp add: list_all_iff)
    moreover have "quiet obj" using that bus_texts_quiet [OF ms] by (auto simp: bus_labels_def)
    ultimately show ?thesis using label_readable_or_spoils by blast
  qed
  have stop: "quiet obj \<and> (readable obj \<or> spoils obj)" if "obj \<in> set (stop_texts db ms sp m)" for obj m
  proof -
    have "labelled m obj" using that stop_texts_labelled [OF ok, of m db sp] by (simp add: list_all_iff)
    then show ?thesis using label_readable_or_spoils stop_texts_quiet [OF ms] that by blast
  qed
  show "\<forall>obj \<in> set (map_objects db ms sp). quiet obj \<and> (readable obj \<or> spoils obj)"
    using bus stop way_object_read [OF ok] way_object_quiet [OF ms] stop_object_read stop_object_quiet
    by (fastforce simp: map_objects_def Let_def)
  show "\<exists>obj \<in> set (map_objects db ms sp). spoils obj"
  proof (cases "n \<in> drawn_buses db")
    case True
    then have "n \<in> snd ` set (enumerate 0 ?bs)" using finite_drawn by (simp flip: set_map)
    then obtain k where k: "(k, n) \<in> set (enumerate 0 ?bs)" by auto
    have "bus_labels db ms sp (k, n) \<noteq> []" using bus_labels_length [of db ms sp k n]
      by (auto simp: ends_def Let_def split: if_splits)
    then obtain obj where "obj \<in> set (bus_labels db ms sp (k, n))" by (meson last_in_set)
    moreover from this have "spoils obj" using label_spoils [OF n(2)] bus_labels_labelled [OF ok] by (auto simp: list_all_iff)
    ultimately show ?thesis using k by (fastforce simp: map_objects_def Let_def)
  next
    case False
    then have "n \<in> set ?ss" using n(1) finite_drawn by simp
    moreover have "stop_texts db ms sp n \<noteq> []" by (simp add: stop_texts_def)
    then obtain obj where "obj \<in> set (stop_texts db ms sp n)" by (meson last_in_set)
    moreover from this have "spoils obj" using label_spoils [OF n(2)] stop_texts_labelled [OF ok] by (auto simp: list_all_iff)
    ultimately show ?thesis by (auto simp: map_objects_def Let_def)
  qed
qed

end
