(* ===== verification/Answer_Text.thy ===== *)
theory Answer_Text
  imports Request_Spec Json_Reals Map_Read
begin

text \<open>
  The printed answers as a document: each is a well-formed node, so what \<^verbatim>\<open>process_requests\<close> prints is
  read back, exactly but for the doubles. The text of a map in an answer is itself a document, in XML.
\<close>

lemma keys_sorted:
  "(''curvature'' :: string) < ''request_id''" "(''request_id'' :: string) < ''route_length''"
  "(''route_length'' :: string) < ''stop_count''" "(''stop_count'' :: string) < ''unique_stop_count''"
  "(''error_message'' :: string) < ''request_id''" "(''buses'' :: string) < ''request_id''"
  "(''map'' :: string) < ''request_id''" "(''items'' :: string) < ''request_id''"
  "(''request_id'' :: string) < ''total_time''" "(''bus'' :: string) < ''span_count''"
  "(''span_count'' :: string) < ''time''" "(''time'' :: string) < ''type''" "(''stop_name'' :: string) < ''time''"
  by code_simp+

lemma sm_ok_chain:
  "sm_ok [(a, x)]" "sm_ok ((a, x) # (b, y) # ps) \<longleftrightarrow> a < b \<and> sm_ok ((b, y) # ps)"
  by (auto simp: sm_ok_Cons)

lemma item_node_ok: "node_ok (item_node c)"
  by (simp add: item_node_def sm_ok_chain keys_sorted split: option.split)

lemma replies_ok: "replies m db rs ms r n \<Longrightarrow> node_ok n"
  by (induction rule: replies.induct) (auto simp: not_found_def sm_ok_chain keys_sorted item_node_ok)

lemma answers_ok: "list_all2 (answered m db rs ms) qs as \<Longrightarrow> \<forall>a \<in> set as. node_ok a"
  by (induction rule: list_all2_induct) (auto simp: answered_def replies_ok)

theorem answers_read_back:
  assumes "list_all2 (answered m db rs ms) qs as" and "list_all plain_node as"
  shows "\<exists>as'. list_all2 near_node as as' \<and>
    (\<forall>rest. stops rest \<longrightarrow> load (print_doc (document_new (NArr as)) @ rest) = Inr (document_new (NArr as'), rest))"
proof -
  have "node_ok (get_root (document_new (NArr as)))" "plain_node (get_root (document_new (NArr as)))"
    using answers_ok [OF assms(1)] assms(2) by (simp_all add: get_root_def document_new_def list_all_iff)
  then obtain doc' where doc': "near_node (NArr as) (get_root doc')"
    "\<And>rest. stops rest \<Longrightarrow> load (print_doc (document_new (NArr as)) @ rest) = Inr (doc', rest)"
    using load_print_near [of "document_new (NArr as)"] by (auto simp: get_root_def document_new_def)
  then obtain as' where "get_root doc' = NArr as'" "list_all2 near_node as as'" by (auto simp: near_simps)
  then have "doc' = document_new (NArr as')" by (cases doc') (simp add: get_root_def document_new_def)
  then show ?thesis using doc' \<open>list_all2 near_node as as'\<close> by blast
qed

text \<open>Names and colors that can be written as they are.\<close>

definition drawable :: "catalogue \<Rightarrow> map_settings \<Rightarrow> bool" where
  "drawable db ms \<longleftrightarrow> settings_ok ms \<and> (\<forall>n \<in> drawn_buses db \<union> drawn_stops db. name_plain n)"

lemma replies_drawn:
  assumes "replies m db rs ms r a" and "drawn_text a = Some s"
  shows "\<exists>cs. s = map_text db ms cs"
  using assms by (cases rule: replies.cases) (auto simp: drawn_text_def not_found_def)

theorem drawn_read_back:
  assumes "list_all2 (answered m db rs ms) qs as" and "drawable db ms" and "a \<in> set as" and "drawn_text a = Some s"
  shows "map_option contents (read_xml s) = Some (map_contents db)"
proof -
  obtain q where "answered m db rs ms q a" using assms(1,3) by (auto simp: list_all2_conv_all_nth in_set_conv_nth)
  then obtain cs where "s = map_text db ms cs" using replies_drawn [OF _ assms(4)] unfolding answered_def by blast
  then show ?thesis using map_objects_read [of ms db] assms(2) by (simp add: map_text_def drawable_def)
qed

end
