(* ===== verification/Svg_Props.thy ===== *)
theory Svg_Props
  imports Map_Read Map_Props
begin

text \<open>
  The properties of the written SVG documents, read back with the reader of \<open>Xml_Reader\<close>.
\<close>

text \<open>
  C17: A rendered document whose objects carry plain colors and fonts and decodable text is well-formed XML:
  read back it is an \<^verbatim>\<open>svg\<close> element with the rendered objects in order, every attribute with the value
  printed for it and every text with its data.
\<close>

theorem svg_read_back:
  assumes "\<forall>obj \<in> set d. readable obj"
  shows "read_xml (render_document d) = Some (Elem ''svg''
    [(''xmlns'', ''http://www.w3.org/2000/svg''), (''version'', ''1.1'')]
    (concat (map (\<lambda>obj. [Chars (newline @ ''  ''), object_tree obj]) d) @ [Chars newline]))"
  using read_document [OF assms] by (simp add: document_tree_def svg_attrs_def)

definition demo_document :: svg_document where
  "demo_document = [Circle circle_new, Text (text_new\<lparr>t_data := ''A &amp; B''\<rparr>)]"

lemma svg_read_back_witness:
  "\<exists>c t. read_xml (render_document demo_document) =
     Some (Elem ''svg'' [(''xmlns'', ''http://www.w3.org/2000/svg''), (''version'', ''1.1'')]
       [Chars (newline @ ''  ''), Elem ''circle'' c [], Chars (newline @ ''  ''), Elem ''text'' t [Chars ''A & B''],
        Chars newline])"
proof -
  have d: "xml_data ''A &amp; B'' = Some ''A & B''" by code_simp
  have "\<forall>obj \<in> set demo_document. readable obj"
    by (simp add: demo_document_def d paint_ok_def circle_new_def text_new_def props_default_def path_props.extend_def)
  from svg_read_back [OF this] show ?thesis
    by (simp add: demo_document_def d text_new_def path_props.extend_def props_default_def)
qed

text \<open>
  C16: The map drawn for a catalogue with plain names, with a palette and an underlayer of plain colors, is
  well-formed XML with these elements: a line for each bus with stops, in the order of names; the
  name of each such bus, twice at each end; a circle for each stop of a bus; the name of each such
  stop, twice. The names are read as they are in the catalogue, special characters included.
\<close>

theorem map_read_back:
  assumes "cat_ok (rh_db h)" and "settings_ok (rh_render h)"
    and "mset (pf_buses_order pf (buses_by_name (rh_db h))) = mset (buses_by_name (rh_db h))"
    and "\<forall>n \<in> drawn_buses (rh_db h) \<union> drawn_stops (rh_db h). name_plain n"
  shows "\<exists>doc tree. render_map pf h = Inr doc \<and> read_xml (render_document doc) = Some tree \<and>
    contents tree = map_contents (rh_db h)"
proof -
  have "color_palette (rh_render h) \<noteq> []" using assms(2) by (simp add: settings_ok_def)
  from render_map_ok [OF assms(1) this assms(3)] show ?thesis using map_objects_read [OF assms(2,4)] by blast
qed

lemma demo_drawn: "drawn_buses demo_catalogue = {''7''}" "drawn_stops demo_catalogue = {''A'', ''B''}"
  by (auto simp: drawn_buses_def drawn_stops_Union bus_of_def demo_catalogue_def bnames_def stop_n_def)

lemma map_read_back_witness:
  "\<exists>doc tree. render_map demo_platform demo_handler = Inr doc \<and> read_xml (render_document doc) = Some tree \<and>
     contents tree =
       [(''polyline'', []), (''text'', ''7''), (''text'', ''7''), (''text'', ''7''), (''text'', ''7''),
        (''circle'', []), (''circle'', []), (''text'', ''A''), (''text'', ''A''), (''text'', ''B''), (''text'', ''B'')]"
proof -
  have names: "\<forall>n \<in> {''7'', ''A'', ''B''}. name_plain n" by code_simp
  have "sort (remdups [''A'', ''B'']) = [''A'', ''B'']" by code_simp
  then have sorted: "sorted_list_of_set {''A'', ''B''} = [''A'', ''B'']"
    using sorted_list_of_set_sort_remdups [of "[''A'', ''B'']"] by simp
  have ends: "length (ends (bus_of demo_catalogue ''7'')) = 2"
    by (simp add: ends_def bus_of_def demo_catalogue_def Let_def)
  have "map_contents demo_catalogue =
      [(''polyline'', []), (''text'', ''7''), (''text'', ''7''), (''text'', ''7''), (''text'', ''7''),
       (''circle'', []), (''circle'', []), (''text'', ''A''), (''text'', ''A''), (''text'', ''B''), (''text'', ''B'')]"
    unfolding map_contents_def Let_def demo_drawn sorted by (simp add: ends numeral_eq_Suc)
  then show ?thesis
    using map_read_back [of demo_handler demo_platform] names
    by (auto simp: demo_handler_def demo_platform_def demo_ok demo_drawn settings_ok_def map_settings_default_def
        printable_def quote_def)
qed

text \<open>
  C38: A stop or a bus whose name begins with \<^verbatim>\<open><\<close> makes the whole map unreadable, whatever the other
  names are: the first character of a text is never escaped. The palette is not empty and the colors are plain, with no
  quotation mark, \<^verbatim>\<open>&\<close>, angle bracket or control character in a name (\<open>settings_plain\<close>), for they are written as they are.
\<close>

theorem map_spoiled:
  assumes "cat_ok (rh_db h)" and "settings_plain (rh_render h)"
    and "mset (pf_buses_order pf (buses_by_name (rh_db h))) = mset (buses_by_name (rh_db h))"
    and "n \<in> drawn_buses (rh_db h) \<union> drawn_stops (rh_db h)" and "take 1 n = ''<''"
  shows "\<exists>doc. render_map pf h = Inr doc \<and> read_xml (render_document doc) = None"
proof -
  have "color_palette (rh_render h) \<noteq> []" using assms(2) by (simp add: settings_plain_def settings_ok_def)
  from render_map_ok [OF assms(1) this assms(3)] show ?thesis using map_objects_spoiled [OF assms(2,4,5)] by blast
qed

definition spoiled_catalogue :: catalogue where
  "spoiled_catalogue = demo_catalogue\<lparr>stops_by_name := [(''<?A'', 0), (''B'', 1)],
     buses_in_stop := [(''<?A'', [''7'']), (''B'', [''7''])],
     all_stops := [\<lparr>stop_name = ''<?A'', stop_coordinates = \<lparr>lat = 1, lng = 1\<rparr>\<rparr>,
                   \<lparr>stop_name = ''B'', stop_coordinates = \<lparr>lat = 1, lng = 0\<rparr>\<rparr>]\<rparr>"

lemma spoiled_ok: "cat_ok spoiled_catalogue"
  by (simp add: cat_ok_def stops_ok_def snames_def bnames_def by_name_def visits_def visit_bus_def
      note_visit_def spoiled_catalogue_def demo_catalogue_def um_ok_def)

lemma spoiled_drawn: "drawn_buses spoiled_catalogue = {''7''}" "drawn_stops spoiled_catalogue = {''<?A'', ''B''}"
  by (auto simp: drawn_buses_def drawn_stops_Union bus_of_def spoiled_catalogue_def demo_catalogue_def bnames_def
      stop_n_def)

lemma map_spoiled_witness:
  "\<exists>doc. render_map demo_platform (demo_handler\<lparr>rh_db := spoiled_catalogue\<rparr>) = Inr doc \<and>
     read_xml (render_document doc) = None"
proof (rule map_spoiled)
  show "take 1 ''<?A'' = ''<''" by simp
qed (simp_all add: demo_handler_def demo_platform_def spoiled_ok spoiled_drawn settings_plain_def settings_ok_def
    map_settings_default_def printable_def quote_def)

end
