(* ===== verification/Spec2Isabelle.thy ===== *)
theory Spec2Isabelle
  imports Router_Props Json_Props Catalogue_Props Transport_Props Map_Props Reader_Props Request_Props Route_Props
    Print_Props Answer_Text Svg_Props
begin

text \<open>
  A verification library for the transport system: a program that reads a base of stops, buses and
  settings as JSON, saves it in a binary file (\<^verbatim>\<open>make_base\<close>), and later answers requests over it as
  JSON (\<^verbatim>\<open>process_requests\<close>). The sources are under \<^verbatim>\<open>src/TransportSystem\<close>; every definition that
  models code has the code's name in lower case.

  \<^bold>\<open>The parts and how they meet.\<close> \<^verbatim>\<open>main.cpp\<close> chooses the mode. The reader (\<^verbatim>\<open>json_reader\<close>) parses the
  input with the JSON library (\<^verbatim>\<open>json\<close>), fills the catalogue (\<^verbatim>\<open>transport_catalogue\<close>), builds the
  transport router (\<^verbatim>\<open>transport_router\<close> over \<^verbatim>\<open>graph.h\<close> and \<^verbatim>\<open>router.h\<close>) and the map settings
  (\<^verbatim>\<open>map_renderer\<close>), and saves the three (\<^verbatim>\<open>serialization\<close>). In the other mode it loads them, gives them
  to the request handler (\<^verbatim>\<open>request_handler\<close>), builds the answers with the JSON builder
  (\<^verbatim>\<open>json_builder\<close>) and prints them; a map is drawn as SVG (\<^verbatim>\<open>svg\<close>) and written to \<^verbatim>\<open>map.svg\<close>, too.

  \<^bold>\<open>How code becomes definitions.\<close> A C++ exception, and undefined behaviour, is a value of \<open>exn\<close>, and
  an operation that may throw returns \<open>exn + 'a\<close> (\<open>result\<close>), sequenced by \<open>bindR\<close>; loops whose body
  may throw are \<open>foldR\<close> and \<open>mapR\<close>. Objects are records, passed and returned. Vectors and deques are
  lists: \<open>vec_at\<close> is the checked access, \<open>vec_idx\<close> the unchecked one, for which an index out of range
  is undefined behaviour. Pointers to the elements of the two deques are their indices. A \<^verbatim>\<open>std::map\<close>
  is an association list sorted by key, a \<^verbatim>\<open>std::unordered_map\<close> one with distinct keys. An \<^verbatim>\<open>int\<close> is a
  \<open>32 word\<close>, other integers words of their width, \<^verbatim>\<open>size_t\<close> a natural number; \<^verbatim>\<open>double\<close> is IEEE 754
  binary64, its 64 bits with operations that round to nearest even.

  \<^bold>\<open>Theories.\<close>
  \<^item> \<open>Prelude\<close>: results, vectors, the interface \<open>finite_map\<close> of both containers with its two
    interpretations, and the interface \<open>codec\<close> of what is saved in a message and loaded back.
  \<^item> \<open>Ranges\<close>, \<open>Graph\<close>, \<open>Weight\<close>, \<open>Router\<close>: \<^verbatim>\<open>ranges.h\<close>, \<^verbatim>\<open>graph.h\<close> and \<^verbatim>\<open>router.h\<close> for any type of weights. The contract of that
    template parameter is the locale \<open>weight_laws\<close>. \<open>Router_Correct\<close> and \<open>Router_Total\<close> prove the
    router right inside it: associativity of addition is not among the laws, for rounded addition
    does not have it. \<open>Router_Exact\<close> adds minimality for exact weights, \<open>Router_Near\<close> what is left of it for
    rounded ones (locale \<open>approx_weights\<close>: a sum is off by a factor \<open>1 + u\<close>), \<open>Router_Props\<close> the properties.
  \<^item> \<open>Ieee_Double\<close>, \<open>Ieee_Laws\<close>: the type \<open>double\<close>; non-negative doubles interpret \<open>weight_laws\<close>. \<open>Ieee_Error\<close>
    bounds the error of a rounded result by \<open>2 ^ -53\<close> of it, \<open>Ieee_Signed\<close> gives the values of sums,
    differences, products and quotients of either sign, \<open>Router_Double\<close> interprets \<open>approx_weights\<close>.
  \<^item> \<open>Decimal\<close>: the standard library's conversions between numbers and text. \<open>Decimal_Real\<close>: six digits
    are within half a unit of the last one of the value printed.
  \<^item> \<open>Json_Node\<close>, \<open>Json_Load\<close>, \<open>Json_Print\<close>, \<open>Json_Builder\<close>: \<^verbatim>\<open>json.h\<close>, \<^verbatim>\<open>json.cpp\<close>, \<^verbatim>\<open>json_builder.h\<close> and
    \<^verbatim>\<open>json_builder.cpp\<close>. The parser's input is the remaining text, and every parser ends because the
    text gets shorter. \<open>Json_Props\<close>: parsing what was printed, objects with members in any order and
    repeated keys, the errors of the parser, the
    builder's invariant, and the safety of its context types. \<open>Number_Text\<close> describes the texts of
    numbers and that the parser reads each to its end; \<open>Printed_Double\<close> and \<open>Json_Reals\<close> conclude what is read
    back of a double and of a document with doubles (\<open>near_node\<close>); \<open>Print_Props\<close> the properties.
  \<^item> \<open>Domain\<close>, \<open>Catalogue\<close>: \<^verbatim>\<open>geo\<close>, \<^verbatim>\<open>domain\<close>, \<^verbatim>\<open>transport_catalogue\<close>. \<open>Catalogue_Correct\<close> states the
    invariant \<open>cat_ok\<close> (the three indices say what the two deques say) and that every operation keeps
    it; \<open>Catalogue_Queries\<close> what the queries return; \<open>Catalogue_Proto\<close> the messages of
    \<^verbatim>\<open>transport_catalogue.proto\<close> and their round trip; \<open>Catalogue_Props\<close> the properties.
  \<^item> \<open>Transport_Router\<close>: \<^verbatim>\<open>transport_router\<close>. \<open>Travel_Time\<close> proves its weights lawful, \<open>Transport_Graph\<close>
    lists the edges it builds, \<open>Transport_Router_Correct\<close> states its contract in terms of stops and
    buses (\<open>hop\<close>, \<open>itinerary\<close>) and proves it. \<open>Router_Proto\<close> and \<open>Router_Round_Trip\<close>: saving and
    loading, \<^verbatim>\<open>transport_router.proto\<close>. \<open>Transport_Props\<close>: the properties. \<open>Route_Times\<close>: the times of
    itineraries as real numbers, and how far the returned trip is from the fastest; \<open>Route_Props\<close>.
  \<^item> \<open>Svg\<close>, \<open>Svg_Text\<close>, \<open>Map_Render\<close>: \<^verbatim>\<open>svg\<close>, \<^verbatim>\<open>map_renderer\<close> and their messages. \<open>Request_Handler\<close>:
    \<^verbatim>\<open>request_handler\<close> and \<^verbatim>\<open>serialization\<close>. \<open>Map_Correct\<close> states what a map consists of
    (\<open>map_objects\<close>) and that \<open>render_map\<close> draws it; \<open>Projection\<close> that every place lands on the canvas, in the
    code's own arithmetic; \<open>Map_Props\<close> the properties.
  \<^item> \<open>Xml_Reader\<close> is a reader of XML, the specification of what an SVG file says. \<open>Svg_Read\<close> proves that it
    reads a rendered document as the tree of its objects (\<open>readable\<close> says which), and that a color with a
    quotation mark adds attributes (\<open>injected_attribute\<close>); \<open>Map_Read\<close> applies it to the objects of a map and
    to names that spoil it (a leading \<^verbatim>\<open><\<close>, whatever the other names); \<open>Svg_Props\<close> the properties.
  \<^item> \<open>Json_Reader\<close>: \<^verbatim>\<open>json_reader\<close> (the reader and its creator) and \<^verbatim>\<open>main.cpp\<close>, over an association list of files. \<open>Reader_Correct\<close>: the
    answers' nodes and the catalogue a base gives. \<open>Saved_Base\<close>: the answers over a saved and loaded
    base. \<open>Reader_Props\<close>: the properties.
  \<^item> \<open>Request_Spec\<close>: the specification of the answers. \<open>replies\<close> says what a request's answer is in terms
    of stops, buses, lengths and itineraries, and \<open>answer_all_replies\<close> that the code gives such
    answers. It asks for \<open>measurable\<close> routes (no empty bus, every leg with a length, a total below
    \<open>2 ^ 31\<close>), a palette, and \<open>valid_request\<close>s between known stops; \<open>Request_Props\<close> and \<open>Map_Props\<close> show
    what happens without them. \<open>Answer_Text\<close>: the printed answers are a document that is read back, and so
    is the map in an answer (\<open>drawable\<close>: plain names and colors).
  \<^item> This theory composes the two modes of the program: \<open>session_answers\<close> is the whole program.

  \<^bold>\<open>Bounds.\<close> Indices are saved in 32 bits, so the round trips ask for \<open>fits\<close>: fewer than \<open>2 ^ 32\<close> vertices
  and edges; the spans of rides are \<^verbatim>\<open>unsigned\<close> and shown as \<^verbatim>\<open>int\<close>. The router's contract asks
  for a velocity other than zero (with zero, travel times are infinite or NaN) and for
  \<open>roads_known\<close>: a recorded length in one direction for every leg between two stops (else the constructor throws).
  The rounding results ask for at most ten thousand stops (\<open>routes_nearly_fastest\<close>), for doubles that are zero or
  from \<open>2 ^ -1020\<close> to \<open>2 ^ 1023\<close> (\<open>plain\<close>, below which \<^verbatim>\<open>std::stod\<close> may report a range error), and for coordinates and
  extents of at most \<open>2 ^ 100\<close> (\<open>moderate\<close>): no real timetable or map comes near them. The XML results ask for
  bytes that are printable or spaces; whether bytes above 127 are UTF-8 is not checked.
  Lengths are kept in 32 bits, and \<open>get_info_bus\<close> sums them as the code does. No fuel is used: loops
  are structural, or have a measure; the two that are not seen to end (\<open>replace_char\<close>, the loop of
  \<^verbatim>\<open>Text::SetData\<close>, and \<open>collect_edges\<close>, the one of \<^verbatim>\<open>BuildRoute\<close>) are \<open>partial_function (option)\<close>, where
  not returning is \<open>None\<close>, and they are proved to return.

  \<^bold>\<open>Parameters.\<close> What the code takes from elsewhere is an argument: the trigonometric functions of the C
  library and the order in which \<^verbatim>\<open>std::transform_reduce\<close> adds (\<open>libm\<close>), the orders in which unordered
  maps are traversed (\<open>map_orders\<close>, hypothesis: each is a permutation of the entries), and protobuf's
  wire format (\<open>pf_serialize\<close>, \<open>pf_parse\<close>, hypothesis \<open>wire_ok\<close>: the message at hand is parsed back from its bytes). They are collected in the
  record \<open>platform\<close>. Where the standard leaves an order of evaluation open, arguments are evaluated
  from left to right. A file opened for writing opens; it is then empty. A vector moved from is empty.

  \<^bold>\<open>Not modelled.\<close> \<^verbatim>\<open>svg::Drawable\<close>
  is abstract and has no implementation. Lines 364-752 of \<^verbatim>\<open>json.cpp\<close> and 15-54 of \<^verbatim>\<open>main.cpp\<close> are
  commented out. The files under \<^verbatim>\<open>src/CMakeFiles\<close> are generated by the build tool. The hash of pointers and
  strings (an unordered map is its entries), allocation and its failure, and the state of streams after an error of the device are left to the
  standard library.
\<close>

section \<open>A whole run\<close>

definition demo_bus_request :: node where
  "demo_bus_request = NDict [(''is_roundtrip'', NBool True), (''name'', NStr ''7''),
     (''stops'', NArr [NStr ''A'']), (''type'', NStr ''Bus'')]"

definition demo_render_request :: node where
  "demo_render_request = NDict [(''bus_label_font_size'', NInt 20), (''bus_label_offset'', NArr [NInt 7, NInt 15]),
     (''color_palette'', NArr [NStr ''green'', NArr [NInt 255, NInt 160, NInt 0]]), (''height'', NInt 200),
     (''line_width'', NInt 14), (''padding'', NInt 30), (''stop_label_font_size'', NInt 20),
     (''stop_label_offset'', NArr [NInt 7, NInt 3]), (''stop_radius'', NInt 5),
     (''underlayer_color'', NStr ''white''), (''underlayer_width'', NInt 3), (''width'', NInt 200)]"

definition demo_base :: node where
  "demo_base = NDict [(''base_requests'', NArr [demo_bus_request, demo_stop_request]),
     (''render_settings'', demo_render_request),
     (''routing_settings'', NDict [(''bus_velocity'', NInt 40), (''bus_wait_time'', NInt 6)]),
     (''serialization_settings'', NDict [(''file'', NStr ''db'')])]"

lemma demo_base_ok: "node_ok demo_base \<and> no_dbl demo_base"
  by (simp add: demo_base_def demo_bus_request_def demo_render_request_def demo_stop_request_def sm_ok_def)

lemma demo_read:
  "\<exists>db. read_base catalogue_new [demo_bus_request, demo_stop_request] = Inr db \<and>
     all_buses db = [\<lparr>bus_name = ''7'', bus_stops = [0], is_loop_trip = True\<rparr>] \<and> n_stops db = 1 \<and>
     snames db = [''A'']"
  by (simp add: snames_def read_base_def base_bus_def base_stop_def demo_bus_request_def demo_stop_request_def reader_bus_def
      reader_stop_def reader_eval add_bus_def add_bus_stop_def add_stop_def stop_availability_def get_bus_def
      note_visit_def catalogue_new_def Let_def)

lemma demo_map_settings:
  "\<exists>ms. reader_map_settings (document_new demo_render_request) = Inr ms \<and> settings_ok ms"
  by (simp add: settings_ok_def printable_def quote_def map_settings_new_def demo_render_request_def reader_map_settings_def reader_offset_def reader_color_def arr_int_def reader_eval)

definition demo_contents :: "(string \<times> string) list" where
  "demo_contents = [(''polyline'', []), (''text'', ''7''), (''text'', ''7''), (''circle'', []), (''text'', ''A''), (''text'', ''A'')]"

lemma demo_drawable:
  assumes ok: "cat_ok db" and b: "all_buses db = [\<lparr>bus_name = ''7'', bus_stops = [0], is_loop_trip = True\<rparr>]"
    and n: "snames db = [''A'']" and ms: "settings_ok ms"
  shows "drawable db ms \<and> map_contents db = demo_contents"
proof -
  have names: "name_plain ''7'' \<and> name_plain ''A''" by code_simp
  have "buses_by_name db = [(''7'', 0)]" using ok by (simp add: cat_ok_def bnames_def b by_name_def)
  then have of7: "bus_of db ''7'' = \<lparr>bus_name = ''7'', bus_stops = [0], is_loop_trip = True\<rparr>" by (simp add: bus_of_def b)
  then have buses: "drawn_buses db = {''7''}" by (auto simp: drawn_buses_def bnames_def b)
  have "stop_n db 0 = ''A''" using n by (cases "all_stops db") (simp_all add: snames_def stop_n_def)
  then have stops: "drawn_stops db = {''A''}" by (simp add: drawn_stops_Union bnames_def b of7)
  show ?thesis using names ms
    by (simp add: drawable_def map_contents_def demo_contents_def buses stops of7 ends_def numeral_2_eq_2)
qed

definition demo_route_request :: node where
  "demo_route_request = NDict [(''from'', NStr ''A''), (''id'', NInt 1), (''to'', NStr ''A''), (''type'', NStr ''Route'')]"

definition demo_map_request :: node where
  "demo_map_request = NDict [(''id'', NInt 2), (''type'', NStr ''Map'')]"

definition demo_settings_request :: node where
  "demo_settings_request = NDict [(''serialization_settings'', NDict [(''file'', NStr ''db'')]),
     (''stat_requests'', NArr [demo_route_request, demo_map_request])]"

lemma demo_parts:
  "\<exists>db router ms. base_parts catalogue_new (document_new demo_base) = Inr (db, demo_settings, router, ms) \<and>
     fits router \<and> measurable db \<and> snames db = [''A''] \<and> drawable db ms \<and> map_contents db = demo_contents"
proof -
  obtain db where db: "read_base catalogue_new [demo_bus_request, demo_stop_request] = Inr db"
    "all_buses db = [\<lparr>bus_name = ''7'', bus_stops = [0], is_loop_trip = True\<rparr>]" "n_stops db = 1" "snames db = [''A'']"
    using demo_read by blast
  obtain ms where ms: "reader_map_settings (document_new demo_render_request) = Inr ms" "settings_ok ms"
    using demo_map_settings by blast
  have ok: "cat_ok db" using read_base_ok [OF cat_ok_new db(1)] .
  have "roads_known db" by (simp add: roads_known_def runs_def db(2))
  then obtain router where r: "transport_router_new demo_settings db = Inr router" "router_ok db demo_settings router"
    using transport_router_new_ok [OF ok _ demo_velocity] by blast
  have "length (all_items db demo_settings) = 1"
    by (simp add: all_items_def waits_def bus_rides_def runs_def db(2,3))
  then have "fits router" using router_okD(1,2) [OF r(2)] db(3) by (simp add: fits_def)
  moreover have "reader_routing_settings (document_new (NDict [(''bus_velocity'', NInt 40), (''bus_wait_time'', NInt 6)])) =
      Inr demo_settings"
    by (simp add: reader_routing_settings_def reader_eval demo_settings_def)
  then have "base_parts catalogue_new (document_new demo_base) = Inr (db, demo_settings, router, ms)"
    using db(1) ms(1) r(1)
    by (simp add: base_parts_def demo_base_def as_dict_def as_array_def field_def document_new_def get_root_def)
  moreover have "measurable db"
    by (simp add: measurable_def db(2) travelled_def adjacent_def bus_total_def)
  ultimately show ?thesis using db(4) demo_drawable [OF ok db(2,4) ms(2)] by blast
qed

text \<open>
  C2: The two modes of the program together: \<^verbatim>\<open>make_base\<close> on a readable base succeeds and writes the
  base file; \<^verbatim>\<open>process_requests\<close> on that file then gives, for every list of requests, the output
  and the files that answering them directly from the catalogue, the router and the map settings of
  the base would give.
\<close>

theorem modes_compose:
  assumes "platform_ok pf"
    and "load base_in = Inr (q, rest)" and "base_path q = Inr file_n"
    and "base_parts catalogue_new q = Inr (db, rs, router, ms)"
    and "bus_velocity rs \<noteq> 0" and "fits router" and "wire_ok pf (base_message pf db ms router)"
    and "load req_in = Inr (rq, rest')" and "base_path rq = Inr file_n" and "stat_requests_of rq = Inr qs"
  shows "\<exists>fs'. main_program pf [prog, ''make_base''] base_in fs =
      \<lparr>pr_files = fs', pr_out = [], pr_err = [], pr_status = Inr 0\<rparr> \<and>
    main_program pf [prog, ''process_requests''] req_in fs' =
      (let (fs'', r) = answers_out (answer_all pf (request_handler_new db ms (Some router)) fs' [] qs)
       in \<lparr>pr_files = fs'', pr_out = (case r of Inl _ \<Rightarrow> [] | Inr s \<Rightarrow> s), pr_err = [],
           pr_status = bindR r (\<lambda>_. Inr 0)\<rparr>)"
proof -
  obtain bytes where "json_base_request pf catalogue_new base_in fs = (um_put file_n bytes fs, Inr ())"
    "json_stat_request pf catalogue_new map_settings_default req_in (um_put file_n bytes fs) =
      answers_out (answer_all pf (request_handler_new db ms (Some router)) (um_put file_n bytes fs) [] qs)"
    using base_then_requests [OF assms] by blast
  then show ?thesis by (intro exI [of _ "um_put file_n bytes fs"]) (simp add: main_program_def creator_defs)
qed

text \<open>The example's platform writes one constant and parses it as the message of the example's base.\<close>

definition demo_message :: common where
  "demo_message = projr (bindR (base_parts catalogue_new (document_new demo_base)) (\<lambda>(db, rs, router, ms).
     base_message demo_platform db ms router))"

definition demo_wire :: platform where
  "demo_wire = demo_platform\<lparr>pf_serialize := (\<lambda>_. ''base''), pf_parse := (\<lambda>_. Some demo_message)\<rparr>"

lemma demo_wire_ok: "platform_ok demo_wire"
  by (simp add: platform_ok_def demo_wire_def demo_platform_def demo_orders_ok)

text \<open>The inputs of the example, and what the theorems ask of them.\<close>

lemma demo_run:
  obtains db router ms r1 r2 where "load (print_doc (document_new demo_base)) = Inr (document_new demo_base, r1)"
    and "base_path (document_new demo_base) = Inr ''db''"
    and "base_parts catalogue_new (document_new demo_base) = Inr (db, demo_settings, router, ms)"
    and "fits router" and "wire_ok demo_wire (base_message demo_wire db ms router)"
    and "load (print_doc (document_new demo_settings_request)) = Inr (document_new demo_settings_request, r2)"
    and "base_path (document_new demo_settings_request) = Inr ''db''"
    and "stat_requests_of (document_new demo_settings_request) = Inr [demo_route_request, demo_map_request]"
    and "measurable db" and "drawable db ms" and "\<forall>q \<in> set [demo_route_request, demo_map_request]. valid_request db q"
    and "snames db = [''A'']" and "map_contents db = demo_contents"
proof -
  obtain db router ms where p: "base_parts catalogue_new (document_new demo_base) = Inr (db, demo_settings, router, ms)"
    "fits router" "measurable db" "snames db = [''A'']" "drawable db ms" "map_contents db = demo_contents" using demo_parts by blast
  have wire: "wire_ok demo_wire (base_message demo_wire db ms router)"
    using p(1) by (simp add: wire_ok_def demo_wire_def demo_message_def base_message_def)
  obtain r1 r2 where l: "load (print_doc (document_new demo_base)) = Inr (document_new demo_base, r1)"
    "load (print_doc (document_new demo_settings_request)) = Inr (document_new demo_settings_request, r2)"
    using load_demo_text [of demo_base] load_demo_text [of demo_settings_request] demo_base_ok
    by (auto simp: demo_settings_request_def demo_route_request_def demo_map_request_def sm_ok_def)
  have b: "base_path (document_new demo_base) = Inr ''db''" "base_path (document_new demo_settings_request) = Inr ''db''"
    by (simp_all add: base_path_def demo_base_def demo_settings_request_def json_serialization_settings_def as_dict_def
        as_string_def field_def document_new_def get_root_def)
  have "stat_requests_of (document_new demo_settings_request) = Inr [demo_route_request, demo_map_request]"
    by (simp add: stat_requests_of_def demo_settings_request_def as_dict_def as_array_def field_def document_new_def get_root_def)
  moreover have "\<forall>q \<in> set [demo_route_request, demo_map_request]. valid_request db q"
    by (simp add: demo_route_request_def demo_map_request_def valid_request_def parse_request_def request_of_def text_of_def p(4))
  ultimately show ?thesis using that l b p wire by blast
qed

text \<open>From a stop to itself the trip is empty and takes no time, so the answer's doubles print as they are.\<close>

lemma demo_wait_positive: "0 < mag_val (ct_weight (wait_item db demo_settings i))"
proof -
  have "dval (double_of_int 6) = 6" using double_of_int_exact [of 6] by simp
  then have "mval (mag_of (double_of_int 6)) = 6" using abs_dval [of "double_of_int 6"] by simp
  then show ?thesis by (simp add: mag_val_def wait_item_def wait_time_def demo_settings_def)
qed

lemma demo_trip_empty:
  assumes "itinerary db demo_settings i cs i" and "nearly_fastest db demo_settings i cs i" and "n_stops db \<le> 10000"
  shows "cs = []"
  using assms(1)
proof cases
  case (board c j cs')
  have "exact_time [] < 2 ^ 1023" by (simp add: exact_time_def)
  then have "exact_time cs \<le> (1 + 1 / 10 ^ 6) * exact_time []"
    using assms(2,3) itinerary.arrived [of db demo_settings i] unfolding nearly_fastest_def by blast
  moreover have "0 \<le> mag_val (ct_weight c)" "0 \<le> exact_time cs'" by (simp_all add: mag_val_def mval_nonneg exact_time_nonneg)
  ultimately show ?thesis using demo_wait_positive [of db i] board(1) by (simp add: exact_time_def)
qed simp

lemma demo_answer_plain:
  assumes "answered m db demo_settings ms demo_route_request a" and names: "snames db = [''A'']"
  shows "plain_node a"
proof -
  have n: "n_stops db = 1" using names by (metis One_nat_def length_map list.size(3,4) snames_def add_0)
  have "replies m db demo_settings ms (Route_request ''A'' ''A'' 1) a"
    using assms(1) by (simp add: answered_def demo_route_request_def parse_request_def request_of_def text_of_def)
  then show ?thesis
  proof cases
    case (route i j cs)
    then have "cs = []" using demo_trip_empty [of db 0 cs] n by simp
    then show ?thesis using route by (simp add: item_weights_def plain_def)
  qed (simp_all add: not_found_def)
qed

lemma modes_compose_witness:
  "\<exists>fs' db router ms qs. main_program demo_wire [''prog'', ''make_base''] (print_doc (document_new demo_base)) [] =
      \<lparr>pr_files = fs', pr_out = [], pr_err = [], pr_status = Inr 0\<rparr> \<and>
    main_program demo_wire [''prog'', ''process_requests''] (print_doc (document_new demo_settings_request)) fs' =
      (let (fs'', r) = answers_out (answer_all demo_wire (request_handler_new db ms (Some router)) fs' [] qs)
       in \<lparr>pr_files = fs'', pr_out = (case r of Inl _ \<Rightarrow> [] | Inr s \<Rightarrow> s), pr_err = [],
           pr_status = bindR r (\<lambda>_. Inr 0)\<rparr>)"
proof (rule demo_run)
  fix db router ms r1 r2
  assume "load (print_doc (document_new demo_base)) = Inr (document_new demo_base, r1)"
    and "base_path (document_new demo_base) = Inr ''db''"
    and "base_parts catalogue_new (document_new demo_base) = Inr (db, demo_settings, router, ms)"
    and "fits router" and "wire_ok demo_wire (base_message demo_wire db ms router)"
    and "load (print_doc (document_new demo_settings_request)) = Inr (document_new demo_settings_request, r2)"
    and "base_path (document_new demo_settings_request) = Inr ''db''"
    and "stat_requests_of (document_new demo_settings_request) = Inr [demo_route_request, demo_map_request]"
  note run = this
  show ?thesis
    using modes_compose [OF demo_wire_ok run(1-3) demo_velocity run(4-8), of "''prog''" "[]"] by blast
qed

text \<open>
  C1: A whole session: \<^verbatim>\<open>make_base\<close> on a readable base whose routes are measured and whose palette is not
  empty, then \<^verbatim>\<open>process_requests\<close> on its file with well-formed requests between known stops. Both end
  with status 0. The first writes the base to its file and nothing else; the second prints one answer per request, in order, each of which says what
  \<open>replies\<close> says of the base: for a route, an itinerary at most a millionth slower than any other. It leaves the last
  map drawn in \<^verbatim>\<open>map.svg\<close> and changes no other file. Where names and colors are plain, each map is XML with
  the lines, labels and circles of \<open>map_contents\<close>. Where the doubles in the answers are zero or between \<open>2 ^ -1020\<close> and
  \<open>2 ^ 1023\<close>, what was printed is JSON: it is read back as the same answers, up to six digits of
  each double.
\<close>

theorem session_answers:
  assumes "platform_ok pf"
    and "load base_in = Inr (q, rest)" and "base_path q = Inr file_n"
    and "base_parts catalogue_new q = Inr (db, rs, router, ms)"
    and "bus_velocity rs \<noteq> 0" and "fits router" and "wire_ok pf (base_message pf db ms router)"
    and "load req_in = Inr (rq, rest')" and "base_path rq = Inr file_n" and "stat_requests_of rq = Inr qs"
    and "measurable db" and "color_palette ms \<noteq> []" and "\<forall>q \<in> set qs. valid_request db q"
  shows "\<exists>bytes fs' fs'' as. serialization pf db ms router = Inr bytes \<and> map_of fs' = (map_of fs)(file_n \<mapsto> bytes) \<and>
    main_program pf [prog, ''make_base''] base_in fs =
      \<lparr>pr_files = fs', pr_out = [], pr_err = [], pr_status = Inr 0\<rparr> \<and>
    main_program pf [prog, ''process_requests''] req_in fs' =
      \<lparr>pr_files = fs'', pr_out = print_doc (document_new (NArr as)), pr_err = [], pr_status = Inr 0\<rparr> \<and>
    map_of fs'' = (map_of fs')(''map.svg'' := last_drawn (map_of fs' ''map.svg'') as) \<and>
    list_all2 (answered (pf_libm pf) db rs ms) qs as \<and>
    (drawable db ms \<longrightarrow> (\<forall>a \<in> set as. \<forall>s. drawn_text a = Some s \<longrightarrow>
      map_option contents (read_xml s) = Some (map_contents db))) \<and>
    (list_all plain_node as \<longrightarrow> (\<exists>as'. list_all2 near_node as as' \<and>
      load (print_doc (document_new (NArr as))) = Inr (document_new (NArr as'), [])))"
proof -
  obtain bytes where bytes: "serialization pf db ms router = Inr bytes"
    "json_base_request pf catalogue_new base_in fs = (um_put file_n bytes fs, Inr ())"
    "json_stat_request pf catalogue_new map_settings_default req_in (um_put file_n bytes fs) =
      answers_out (answer_all pf (request_handler_new db ms (Some router)) (um_put file_n bytes fs) [] qs)"
    using base_then_requests [OF assms(1-10)] by blast
  note ok = base_parts_ok [OF assms(4)]
  have "servable pf db ms" using ok(1) assms(1,11,12) by (simp add: servable_def platform_ok_def)
  moreover have "router_made db rs router" using ok(2,3) assms(5) by (simp add: router_made_def)
  ultimately obtain fs'' as where run:
    "answer_all pf (request_handler_new db ms (Some router)) (um_put file_n bytes fs) [] qs = (fs'', Inr as)"
    "map_of fs'' = (map_of (um_put file_n bytes fs))(''map.svg'' := last_drawn (map_of (um_put file_n bytes fs) ''map.svg'') as)"
    "list_all2 (answered (pf_libm pf) db rs ms) qs as"
    using answer_all_replies [OF _ _ assms(13), of pf ms rs router "um_put file_n bytes fs" "[]"] by auto
  have "drawable db ms \<longrightarrow> (\<forall>a \<in> set as. \<forall>s. drawn_text a = Some s \<longrightarrow>
      map_option contents (read_xml s) = Some (map_contents db))"
    using drawn_read_back [OF run(3)] by blast
  moreover have "list_all plain_node as \<longrightarrow> (\<exists>as'. list_all2 near_node as as' \<and>
      load (print_doc (document_new (NArr as))) = Inr (document_new (NArr as'), []))"
    using answers_read_back [OF run(3)] by (metis append_Nil2 stops_simps(1))
  ultimately show ?thesis using bytes run
    by (intro exI [of _ bytes] exI [of _ "um_put file_n bytes fs"] exI [of _ fs''] exI [of _ as])
      (simp add: main_program_def creator_defs answers_out_def map_of_um_put)
qed

lemma demo_map_answer:
  assumes "answered m db rs ms demo_map_request a"
  shows "\<exists>s. a = NDict [(''map'', NStr s), (''request_id'', NInt 2)]"
proof -
  have "replies m db rs ms (Map_request 2) a"
    using assms by (simp add: answered_def demo_map_request_def parse_request_def request_of_def text_of_def)
  then show ?thesis by cases auto
qed

text \<open>A session with a route request and a map request.\<close>

lemma session_answers_witness:
  "\<exists>fs' fs'' a s. main_program demo_wire [''prog'', ''make_base''] (print_doc (document_new demo_base)) [] =
      \<lparr>pr_files = fs', pr_out = [], pr_err = [], pr_status = Inr 0\<rparr> \<and>
    main_program demo_wire [''prog'', ''process_requests''] (print_doc (document_new demo_settings_request)) fs' =
      \<lparr>pr_files = fs'', pr_out = print_doc (document_new (NArr [a, NDict [(''map'', NStr s), (''request_id'', NInt 2)]])),
       pr_err = [], pr_status = Inr 0\<rparr> \<and>
    map_of fs'' ''map.svg'' = Some s \<and> map_option contents (read_xml s) = Some demo_contents \<and>
    (\<exists>b. near_node a b \<and> load (print_doc (document_new (NArr [a, NDict [(''map'', NStr s), (''request_id'', NInt 2)]]))) =
      Inr (document_new (NArr [b, NDict [(''map'', NStr s), (''request_id'', NInt 2)]]), []))"
proof (rule demo_run)
  fix db router ms r1 r2
  assume "load (print_doc (document_new demo_base)) = Inr (document_new demo_base, r1)"
    and "base_path (document_new demo_base) = Inr ''db''"
    and "base_parts catalogue_new (document_new demo_base) = Inr (db, demo_settings, router, ms)"
    and "fits router" and "wire_ok demo_wire (base_message demo_wire db ms router)"
    and "load (print_doc (document_new demo_settings_request)) = Inr (document_new demo_settings_request, r2)"
    and "base_path (document_new demo_settings_request) = Inr ''db''"
    and "stat_requests_of (document_new demo_settings_request) = Inr [demo_route_request, demo_map_request]"
    and "measurable db" and d: "drawable db ms" and "\<forall>q \<in> set [demo_route_request, demo_map_request]. valid_request db q"
    and n: "snames db = [''A'']" "map_contents db = demo_contents"
  note run = this(1-9) this(11)
  have "color_palette ms \<noteq> []" using d by (simp add: drawable_def settings_ok_def)
  from session_answers [OF demo_wire_ok run(1-3) demo_velocity run(4-9) this run(10), where prog = "''prog''" and fs = "[]"]
  obtain fs' fs'' as where out: "main_program demo_wire [''prog'', ''make_base''] (print_doc (document_new demo_base)) [] =
      \<lparr>pr_files = fs', pr_out = [], pr_err = [], pr_status = Inr 0\<rparr>"
    "main_program demo_wire [''prog'', ''process_requests''] (print_doc (document_new demo_settings_request)) fs' =
      \<lparr>pr_files = fs'', pr_out = print_doc (document_new (NArr as)), pr_err = [], pr_status = Inr 0\<rparr>"
    "map_of fs'' = (map_of fs')(''map.svg'' := last_drawn (map_of fs' ''map.svg'') as)"
    "list_all2 (answered (pf_libm demo_wire) db demo_settings ms) [demo_route_request, demo_map_request] as"
    "\<forall>a \<in> set as. \<forall>s. drawn_text a = Some s \<longrightarrow> map_option contents (read_xml s) = Some (map_contents db)"
    "list_all plain_node as \<longrightarrow> (\<exists>as'. list_all2 near_node as as' \<and>
      load (print_doc (document_new (NArr as))) = Inr (document_new (NArr as'), []))"
    using d by blast
  obtain a c where "as = [a, c]" and a: "plain_node a" and "answered (pf_libm demo_wire) db demo_settings ms demo_map_request c"
    using out(4) demo_answer_plain [OF _ n(1)] by (auto simp: list_all2_Cons1)
  then obtain s where as: "as = [a, NDict [(''map'', NStr s), (''request_id'', NInt 2)]]" using demo_map_answer by blast
  have "list_all plain_node as" using a by (simp add: as)
  then obtain b where "near_node a b" "load (print_doc (document_new (NArr as))) =
      Inr (document_new (NArr [b, NDict [(''map'', NStr s), (''request_id'', NInt 2)]]), [])"
    using out(6) by (auto simp: as list_all2_Cons1 near_simps)
  moreover have "map_of fs'' ''map.svg'' = Some s" using out(3) by (simp add: as)
  moreover have "map_option contents (read_xml s) = Some demo_contents" using out(5) n(2) by (simp add: as)
  ultimately show ?thesis using out(1,2) unfolding as by blast
qed

end
